(* ===== verification/Sponge_Prelude.thy ===== *)
theory Sponge_Prelude
  imports Main "HOL-Library.Word"
begin

text \<open>
  Shared vocabulary of the development: the names of the machine types, 64-bit and 32-bit
  unsigned arithmetic with the wrap-around written out, the substring operation of
  \<^verbatim>\<open>std::string\<close>, and the generic facts on lists that the component theories use.

  \<^item> \<open>uint8_t\<close>, \<open>uint16_t\<close>, \<open>uint32_t\<close> fields of packets are words of that width.
  \<^item> \<open>size_t\<close>, \<open>uint64_t\<close> and \<open>unsigned int\<close> counters are natural numbers below
    \<open>two64\<close> or \<open>two32\<close>; \<open>add64\<close>, \<open>sub64\<close>, \<open>add32\<close> are the C++ operators on
    them, so that every place where the code can wrap is visible in the model.
  The collection \<open>no_wrap\<close> rewrites the wrapping operators to the ordinary ones where no
  wrap-around happens.
\<close>

unbundle bit_operations_syntax

type_synonym byte = "8 word"
type_synonym bytes = "8 word list"
type_synonym u8 = "8 word"
type_synonym u16 = "16 word"
type_synonym u32 = "32 word"

abbreviation two64 :: nat where
  "two64 \<equiv> 18446744073709551616"

abbreviation two32 :: nat where
  "two32 \<equiv> 4294967296"

named_theorems no_wrap \<open>wrapping operators where nothing wraps\<close>

section \<open>Unsigned arithmetic\<close>

definition add64 :: "nat \<Rightarrow> nat \<Rightarrow> nat" where
  "add64 a b = (a + b) mod two64"

definition sub64 :: "nat \<Rightarrow> nat \<Rightarrow> nat" where
  "sub64 a b = (a + (two64 - b)) mod two64"

definition add32 :: "nat \<Rightarrow> nat \<Rightarrow> nat" where
  "add32 a b = (a + b) mod two32"

definition mul64 :: "nat \<Rightarrow> nat \<Rightarrow> nat" where
  "mul64 a b = (a * b) mod two64"

lemma add64_id [no_wrap]: "a + b < two64 \<Longrightarrow> add64 a b = a + b"
  by (simp add: add64_def)

lemma sub64_id [no_wrap]: "b \<le> a \<Longrightarrow> a < two64 \<Longrightarrow> sub64 a b = a - b"
  by (simp add: sub64_def) (simp add: mod_if)

lemma sub64_wraps: "a < b \<Longrightarrow> b < two64 \<Longrightarrow> sub64 a b = two64 + a - b"
  by (simp add: sub64_def)

lemma add32_id [no_wrap]: "a + b < two32 \<Longrightarrow> add32 a b = a + b"
  by (simp add: add32_def)

lemma mul64_id [no_wrap]: "a * b < two64 \<Longrightarrow> mul64 a b = a * b"
  by (simp add: mul64_def)

lemma add64_less [simp]: "add64 a b < two64"
  by (simp add: add64_def)

lemma sub64_less [simp]: "sub64 a b < two64"
  by (simp add: sub64_def)

lemma mul64_less [simp]: "mul64 a b < two64"
  by (simp add: mul64_def)

lemma add32_less [simp]: "add32 a b < two32"
  by (simp add: add32_def)

section \<open>Slices of a byte sequence\<close>

definition substr :: "'a list \<Rightarrow> nat \<Rightarrow> nat \<Rightarrow> 'a list" where
  "substr s pos len = take len (drop pos s)"

lemma take_min_length [simp]: "take (min n (length xs)) xs = take n xs"
  by (simp add: min_def)

lemma drop_min_length [simp]: "drop (min n (length xs)) xs = drop n xs"
  by (simp add: min_def)

text \<open>\<open>slice_at S i d\<close>: the bytes \<open>d\<close> are those of the stream \<open>S\<close> from index \<open>i\<close> on.
  \<open>span S i j\<close>: the bytes of \<open>S\<close> with index at least \<open>i\<close> and below \<open>j\<close>.\<close>

definition slice_at :: "'a list \<Rightarrow> nat \<Rightarrow> 'a list \<Rightarrow> bool" where
  "slice_at S i d \<longleftrightarrow> i + length d \<le> length S \<and> d = take (length d) (drop i S)"

definition span :: "'a list \<Rightarrow> nat \<Rightarrow> nat \<Rightarrow> 'a list" where
  "span S i j = take (j - i) (drop i S)"

lemma span_empty [simp]: "span S i i = []"
  by (simp add: span_def)

lemma length_span: "j \<le> length S \<Longrightarrow> length (span S i j) = j - i"
  by (simp add: span_def)

lemma span_append: "i \<le> j \<Longrightarrow> j \<le> k \<Longrightarrow> span S i j @ span S j k = span S i k"
proof -
  assume "i \<le> j" "j \<le> k"
  then have "k - i = (j - i) + (k - j)" "drop j S = drop (j - i) (drop i S)" by simp_all
  then show ?thesis by (simp only: span_def take_add)
qed

lemma take_span: "take n (span S i j) = span S i (min j (i + n))"
proof -
  have "min j (i + n) - i = min n (j - i)" by auto
  then show ?thesis by (simp add: span_def)
qed

lemma drop_span: "drop n (span S i j) = span S (i + n) j"
  by (simp add: span_def drop_take add.commute)

lemma span_0: "span S 0 j = take j S"
  by (simp add: span_def)

lemma slice_at_span: "slice_at S i d \<longleftrightarrow> i + length d \<le> length S \<and> d = span S i (i + length d)"
  by (simp add: slice_at_def span_def)

lemma slice_at_span_self: "i \<le> j \<Longrightarrow> j \<le> length S \<Longrightarrow> slice_at S i (span S i j)"
  by (simp add: slice_at_def span_def)

lemma slice_at_Nil: "i \<le> length S \<Longrightarrow> slice_at S i []"
  by (simp add: slice_at_def)

lemma slice_at_iff: "slice_at S i d \<longleftrightarrow> (\<exists>p q. S = p @ d @ q \<and> length p = i)"
proof
  assume d: "slice_at S i d"
  then have "S = take i S @ d @ drop (i + length d) S"
    by (metis slice_at_def append_take_drop_id drop_drop add.commute)
  then show "\<exists>p q. S = p @ d @ q \<and> length p = i"
    using d by (metis slice_at_def add_leD1 length_take min.absorb2)
qed (auto simp: slice_at_def)

lemma slice_at_take: "slice_at S i d \<Longrightarrow> slice_at S i (take n d)"
  unfolding slice_at_iff by (metis append_assoc append_take_drop_id)

lemma slice_at_drop: "slice_at S i d \<Longrightarrow> n \<le> length d \<Longrightarrow> slice_at S (i + n) (drop n d)"
proof -
  assume "slice_at S i d" and n: "n \<le> length d"
  then obtain p q where "S = (p @ take n d) @ drop n d @ q" "length p = i"
    unfolding slice_at_iff by (metis append_assoc append_take_drop_id)
  then show ?thesis using n unfolding slice_at_iff by fastforce
qed

lemma slice_at_append:
  "slice_at S i a \<Longrightarrow> slice_at S (i + length a) b \<Longrightarrow> slice_at S i (a @ b)"
  by (simp add: slice_at_span) (metis span_append le_add1 add.assoc)

lemma slice_at_appendD: "slice_at S i (a @ b) \<Longrightarrow> slice_at S i a \<and> slice_at S (i + length a) b"
  using slice_at_take[of S i "a @ b" "length a"] slice_at_drop[of S i "a @ b" "length a"] by simp

lemma slice_at_prefix: "slice_at S i d \<Longrightarrow> slice_at (S @ T) i d"
  by (simp add: slice_at_def)

lemma span_prefix: "j \<le> length S \<Longrightarrow> span (S @ T) i j = span S i j"
  by (cases "i \<le> j") (simp_all add: span_def)

end
