(* ===== verification/Byte_Stream.thy ===== *)
theory Byte_Stream
  imports Sponge_Prelude
begin

text \<open>
  The in-order byte stream (\<^verbatim>\<open>libsponge/byte_stream.hh\<close> and \<^verbatim>\<open>.cc\<close>). The record
  \<open>ByteStream\<close> has the members of the class; each method is one definition, the loops over
  characters as recursive functions. The locale \<open>bounded_fifo\<close> is the contract the other
  components rely on (what is in the stream after a write, a peek or a pop, and how much room is
  left); it is interpreted on the model's operations.
\<close>

section \<open>State and operations\<close>

record ByteStream =
  bs_buffer :: bytes
  bs_bytes_read :: nat
  bs_bytes_written :: nat
  bs_capacity :: nat
  bs_input_ended :: bool
  bs_error :: bool

definition bs_new :: "nat \<Rightarrow> ByteStream" where
  "bs_new capacity = \<lparr>bs_buffer = [], bs_bytes_read = 0, bs_bytes_written = 0,
     bs_capacity = capacity, bs_input_ended = False, bs_error = False\<rparr>"

fun bs_write_loop :: "nat \<Rightarrow> bytes \<Rightarrow> bytes \<Rightarrow> nat \<Rightarrow> bytes \<times> nat" where
  "bs_write_loop capacity buffer [] number_bytes_written = (buffer, number_bytes_written)"
| "bs_write_loop capacity buffer (ch # data) number_bytes_written =
     (if length buffer \<ge> capacity then (buffer, number_bytes_written)
      else bs_write_loop capacity (buffer @ [ch]) data (add64 number_bytes_written 1))"

definition bs_write :: "ByteStream \<Rightarrow> bytes \<Rightarrow> ByteStream \<times> nat" where
  "bs_write s data =
     (let (buffer, n) = bs_write_loop (bs_capacity s) (bs_buffer s) data 0
      in (s\<lparr>bs_buffer := buffer, bs_bytes_written := add64 (bs_bytes_written s) n\<rparr>, n))"

fun bs_peek_loop :: "nat \<Rightarrow> nat \<Rightarrow> bytes \<Rightarrow> bytes \<Rightarrow> bytes" where
  "bs_peek_loop count len [] peeked_string = peeked_string"
| "bs_peek_loop count len (c # tmp) peeked_string =
     (if count < len then bs_peek_loop (Suc count) len tmp (peeked_string @ [c])
      else peeked_string)"

definition bs_peek_output :: "ByteStream \<Rightarrow> nat \<Rightarrow> bytes" where
  "bs_peek_output s len = bs_peek_loop 0 len (bs_buffer s) []"

fun bs_pop_loop :: "nat \<Rightarrow> nat \<Rightarrow> bytes \<Rightarrow> bytes" where
  "bs_pop_loop count n [] = []"
| "bs_pop_loop count n (c # buffer) =
     (if count < n then bs_pop_loop (Suc count) n buffer else c # buffer)"

definition bs_pop_output :: "ByteStream \<Rightarrow> nat \<Rightarrow> ByteStream" where
  "bs_pop_output s len =
     (let actual_bytes_popped = min len (length (bs_buffer s))
      in s\<lparr>bs_buffer := bs_pop_loop 0 actual_bytes_popped (bs_buffer s),
           bs_bytes_read := add64 (bs_bytes_read s) actual_bytes_popped\<rparr>)"

definition bs_read :: "ByteStream \<Rightarrow> nat \<Rightarrow> ByteStream \<times> bytes" where
  "bs_read s len =
     (let read_string = bs_peek_output s len
      in (bs_pop_output s (length read_string), read_string))"

definition bs_end_input :: "ByteStream \<Rightarrow> ByteStream" where
  "bs_end_input s = s\<lparr>bs_input_ended := True\<rparr>"

definition bs_set_error :: "ByteStream \<Rightarrow> ByteStream" where
  "bs_set_error s = s\<lparr>bs_error := True\<rparr>"

definition bs_buffer_size :: "ByteStream \<Rightarrow> nat" where
  "bs_buffer_size s = length (bs_buffer s)"

definition bs_buffer_empty :: "ByteStream \<Rightarrow> bool" where
  "bs_buffer_empty s \<longleftrightarrow> bs_buffer s = []"

definition bs_eof :: "ByteStream \<Rightarrow> bool" where
  "bs_eof s \<longleftrightarrow> bs_input_ended s \<and> bs_buffer_empty s"

definition bs_remaining_capacity :: "ByteStream \<Rightarrow> nat" where
  "bs_remaining_capacity s = sub64 (bs_capacity s) (length (bs_buffer s))"

section \<open>The loops in closed form\<close>

lemma bs_write_loop_eq:
  "n + length data < two64 \<Longrightarrow> bs_write_loop cap buf data n =
     (buf @ take (cap - length buf) data, n + min (cap - length buf) (length data))"
proof (induction cap buf data n rule: bs_write_loop.induct)
  case (1 cap buf n)
  then show ?case by simp
next
  case (2 cap buf ch data n)
  show ?case
  proof (cases "length buf \<ge> cap")
    case True
    then show ?thesis by simp
  next
    case False
    then obtain k where k: "cap - length buf = Suc k" by (cases "cap - length buf") auto
    then have "cap - Suc (length buf) = k" by simp
    then show ?thesis using False 2 k by (simp add: no_wrap)
  qed
qed

lemma bs_peek_loop_eq: "bs_peek_loop count len tmp acc = acc @ take (len - count) tmp"
  by (induction count len tmp acc rule: bs_peek_loop.induct) (auto simp: take_Cons')

lemma bs_pop_loop_eq: "bs_pop_loop count n buffer = drop (n - count) buffer"
  by (induction count n buffer rule: bs_pop_loop.induct) (auto simp: drop_Cons')

section \<open>Invariant\<close>

text \<open>The counters agree with the buffer, the buffer respects the capacity, and everything is a
  64-bit value. \<open>bytes_written\<close> never wraps as long as less than \<open>2^64\<close> bytes are written.\<close>

definition bs_ok :: "ByteStream \<Rightarrow> bool" where
  "bs_ok s \<longleftrightarrow> length (bs_buffer s) \<le> bs_capacity s \<and> bs_capacity s < two64 \<and>
     bs_bytes_written s < two64 \<and>
     bs_bytes_written s = bs_bytes_read s + length (bs_buffer s)"

lemma bs_ok_new: "capacity < two64 \<Longrightarrow> bs_ok (bs_new capacity)"
  by (simp add: bs_ok_def bs_new_def)

lemma bs_okD:
  assumes "bs_ok s"
  shows "length (bs_buffer s) \<le> bs_capacity s" "bs_capacity s < two64"
    "bs_bytes_written s < two64" "bs_bytes_written s = bs_bytes_read s + length (bs_buffer s)"
  using assms by (simp_all add: bs_ok_def)

lemma bs_remaining_capacity_eq:
  "bs_ok s \<Longrightarrow> bs_remaining_capacity s = bs_capacity s - length (bs_buffer s)"
  by (simp add: bs_remaining_capacity_def bs_ok_def no_wrap)

lemma bs_write_eq:
  assumes "bs_ok s" "bs_bytes_written s + length data < two64"
  shows "bs_write s data =
    (let n = min (bs_capacity s - length (bs_buffer s)) (length data)
     in (s\<lparr>bs_buffer := bs_buffer s @ take n data,
           bs_bytes_written := bs_bytes_written s + n\<rparr>, n))"
  using assms
  by (auto simp: bs_write_def bs_write_loop_eq bs_ok_def Let_def no_wrap min_def)

lemma bs_pop_output_eq:
  assumes "bs_ok s"
  shows "bs_pop_output s len =
    s\<lparr>bs_buffer := drop len (bs_buffer s),
      bs_bytes_read := bs_bytes_read s + min len (length (bs_buffer s))\<rparr>"
  using assms
  by (cases "len \<le> length (bs_buffer s)")
    (auto simp: bs_pop_output_def bs_pop_loop_eq bs_ok_def Let_def no_wrap min_def)

lemma bs_peek_output_eq: "bs_peek_output s len = take len (bs_buffer s)"
  by (simp add: bs_peek_output_def bs_peek_loop_eq)

lemma bs_read_eq:
  assumes "bs_ok s"
  shows "bs_read s len =
    (s\<lparr>bs_buffer := drop len (bs_buffer s),
       bs_bytes_read := bs_bytes_read s + min len (length (bs_buffer s))\<rparr>,
     take len (bs_buffer s))"
  using assms by (simp add: bs_read_def bs_peek_output_eq bs_pop_output_eq min.commute)

lemma bs_ok_write:
  "bs_ok s \<Longrightarrow> bs_bytes_written s + length data < two64 \<Longrightarrow> bs_ok (fst (bs_write s data))"
  by (simp add: bs_write_eq Let_def) (auto simp: bs_ok_def)

lemma bs_ok_pop_output: "bs_ok s \<Longrightarrow> bs_ok (bs_pop_output s len)"
  by (simp add: bs_pop_output_eq) (auto simp: bs_ok_def)

lemma bs_ok_read: "bs_ok s \<Longrightarrow> bs_ok (fst (bs_read s len))"
  by (simp add: bs_read_def Let_def bs_ok_pop_output)

lemma bs_ok_flags [simp]:
  "bs_ok (bs_end_input s) = bs_ok s" "bs_ok (bs_set_error s) = bs_ok s"
  by (simp_all add: bs_ok_def bs_end_input_def bs_set_error_def)

lemma bs_write_flags [simp]:
  "bs_input_ended (fst (bs_write s d)) = bs_input_ended s"
  "bs_error (fst (bs_write s d)) = bs_error s"
  by (simp_all add: bs_write_def split: prod.splits)

section \<open>The contract other components rely on\<close>

text \<open>
  A bounded first-in first-out stream: \<open>content\<close> is what can be read, \<open>total_in\<close> and
  \<open>total_out\<close> count the elements accepted and removed so far, \<open>limit\<close> bounds the counters.
  A stream \<^emph>\<open>tracks\<close> a sequence \<open>S\<close> when it holds the elements of \<open>S\<close> between its two
  counters; the reassembler keeps its output tracking the peer's data, the sender its input.
\<close>

locale bounded_fifo =
  fixes invar :: "'s \<Rightarrow> bool"
    and content :: "'s \<Rightarrow> 'b list"
    and capacity :: "'s \<Rightarrow> nat"
    and total_in :: "'s \<Rightarrow> nat"
    and total_out :: "'s \<Rightarrow> nat"
    and put :: "'s \<Rightarrow> 'b list \<Rightarrow> 's \<times> nat"
    and get :: "'s \<Rightarrow> nat \<Rightarrow> 's \<times> 'b list"
    and limit :: nat
  assumes content_le: "invar s \<Longrightarrow> length (content s) \<le> capacity s"
    and total_content: "invar s \<Longrightarrow> total_in s = total_out s + length (content s)"
    and put_invar: "invar s \<Longrightarrow> total_in s + length d < limit \<Longrightarrow> invar (fst (put s d))"
    and put_count: "invar s \<Longrightarrow> total_in s + length d < limit \<Longrightarrow>
      snd (put s d) = min (capacity s - length (content s)) (length d)"
    and put_content: "invar s \<Longrightarrow> total_in s + length d < limit \<Longrightarrow>
      content (fst (put s d)) = content s @ take (snd (put s d)) d"
    and put_total_out: "invar s \<Longrightarrow> total_in s + length d < limit \<Longrightarrow>
      total_out (fst (put s d)) = total_out s"
    and put_capacity: "invar s \<Longrightarrow> total_in s + length d < limit \<Longrightarrow>
      capacity (fst (put s d)) = capacity s"
    and get_invar: "invar s \<Longrightarrow> invar (fst (get s n))"
    and get_result: "invar s \<Longrightarrow> snd (get s n) = take n (content s)"
    and get_content: "invar s \<Longrightarrow> content (fst (get s n)) = drop n (content s)"
    and get_total_in: "invar s \<Longrightarrow> total_in (fst (get s n)) = total_in s"
    and get_capacity: "invar s \<Longrightarrow> capacity (fst (get s n)) = capacity s"
begin

definition tracks :: "'b list \<Rightarrow> 's \<Rightarrow> bool" where
  "tracks S s \<longleftrightarrow> total_in s \<le> length S \<and> content s = span S (total_out s) (total_in s)"

lemma put_total_in:
  assumes "invar s" "total_in s + length d < limit"
  shows "total_in (fst (put s d)) = total_in s + snd (put s d)"
  using total_content[OF put_invar[OF assms]] total_content[OF assms(1)] put_content[OF assms]
    put_total_out[OF assms] put_count[OF assms] by simp

lemma put_fits:
  assumes "invar s" "total_in s + length d < limit" "length (content s) + length d \<le> capacity s"
  shows "snd (put s d) = length d" "content (fst (put s d)) = content s @ d"
  using put_count[OF assms(1,2)] put_content[OF assms(1,2)] assms(3) by simp_all

lemma put_tracks:
  assumes "invar s" "total_in s + length d < limit" "tracks S s" "slice_at S (total_in s) d"
  shows "tracks S (fst (put s d))"
proof -
  let ?n = "snd (put s d)"
  have n: "?n \<le> length d" using put_count[OF assms(1,2)] by simp
  then have d: "take ?n d = span S (total_in s) (total_in s + ?n)"
    using slice_at_take[OF assms(4), of ?n] by (simp add: slice_at_span min_absorb2)
  have o: "total_out s \<le> total_in s" using total_content[OF assms(1)] by simp
  show ?thesis
    using assms(3,4) n o
    by (simp add: tracks_def put_content[OF assms(1,2)] put_total_out[OF assms(1,2)]
        put_total_in[OF assms(1,2)] d span_append slice_at_def)
qed

lemma get_total_out:
  assumes "invar s"
  shows "total_out (fst (get s n)) = total_out s + length (snd (get s n))"
  using total_content[OF get_invar[OF assms, of n]] total_content[OF assms]
  by (simp add: get_total_in[OF assms] get_content[OF assms] get_result[OF assms])

lemma get_tracks:
  assumes "invar s" "tracks S s"
  shows "tracks S (fst (get s n))" "slice_at S (total_out s) (snd (get s n))"
proof -
  have c: "content s = span S (total_out s) (total_in s)" "total_in s \<le> length S"
    using assms(2) by (simp_all add: tracks_def)
  have o: "total_out s \<le> total_in s" using total_content[OF assms(1)] by simp
  show "slice_at S (total_out s) (snd (get s n))"
    unfolding get_result[OF assms(1)] c(1)
    by (rule slice_at_take) (rule slice_at_span_self[OF o c(2)])
  have "drop n (content s) = span S (total_out s + length (take n (content s))) (total_in s)"
    using total_content[OF assms(1)] drop_span[of n S "total_out s" "total_in s"] c(1)
    by (cases "n \<le> length (content s)") (simp_all add: min_def)
  then show "tracks S (fst (get s n))"
    using c by (simp add: tracks_def get_content[OF assms(1)] get_total_in[OF assms(1)]
        get_total_out[OF assms(1)] get_result[OF assms(1)])
qed

end

interpretation bs: bounded_fifo bs_ok bs_buffer bs_capacity bs_bytes_written bs_bytes_read
    bs_write bs_read two64
  by (unfold_locales; (erule (1) bs_ok_write | erule bs_ok_read
    | simp add: bs_write_eq bs_read_eq Let_def bs_okD))

section \<open>Specification and simulation\<close>

text \<open>
  The abstract stream keeps the whole history of accepted bytes and how many of them were read.
  \<open>stream_rel\<close> relates it to the record: the buffer is the unread part of the history.
\<close>

record stream_spec =
  sp_log :: bytes
  sp_read :: nat
  sp_capacity :: nat
  sp_ended :: bool
  sp_failed :: bool

datatype bs_call = Write bytes | Peek nat | Pop nat | Read nat | EndInput | SetError

datatype bs_result = Count nat | Data bytes | Done

fun bs_exec :: "ByteStream \<Rightarrow> bs_call \<Rightarrow> ByteStream \<times> bs_result" where
  "bs_exec s (Write d) = (let (s', n) = bs_write s d in (s', Count n))"
| "bs_exec s (Peek n) = (s, Data (bs_peek_output s n))"
| "bs_exec s (Pop n) = (bs_pop_output s n, Done)"
| "bs_exec s (Read n) = (let (s', d) = bs_read s n in (s', Data d))"
| "bs_exec s EndInput = (bs_end_input s, Done)"
| "bs_exec s SetError = (bs_set_error s, Done)"

fun spec_exec :: "stream_spec \<Rightarrow> bs_call \<Rightarrow> stream_spec \<times> bs_result" where
  "spec_exec a (Write d) =
     (let n = min (sp_capacity a + sp_read a - length (sp_log a)) (length d)
      in (a\<lparr>sp_log := sp_log a @ take n d\<rparr>, Count n))"
| "spec_exec a (Peek n) = (a, Data (take n (drop (sp_read a) (sp_log a))))"
| "spec_exec a (Pop n) = (a\<lparr>sp_read := min (sp_read a + n) (length (sp_log a))\<rparr>, Done)"
| "spec_exec a (Read n) =
     (a\<lparr>sp_read := min (sp_read a + n) (length (sp_log a))\<rparr>,
      Data (take n (drop (sp_read a) (sp_log a))))"
| "spec_exec a EndInput = (a\<lparr>sp_ended := True\<rparr>, Done)"
| "spec_exec a SetError = (a\<lparr>sp_failed := True\<rparr>, Done)"

fun bs_run :: "ByteStream \<Rightarrow> bs_call list \<Rightarrow> ByteStream \<times> bs_result list" where
  "bs_run s [] = (s, [])"
| "bs_run s (c # cs) =
     (case bs_exec s c of (s', r) \<Rightarrow> case bs_run s' cs of (s'', rs) \<Rightarrow> (s'', r # rs))"

fun spec_run :: "stream_spec \<Rightarrow> bs_call list \<Rightarrow> stream_spec \<times> bs_result list" where
  "spec_run a [] = (a, [])"
| "spec_run a (c # cs) =
     (case spec_exec a c of (a', r) \<Rightarrow> case spec_run a' cs of (a'', rs) \<Rightarrow> (a'', r # rs))"

fun call_bytes :: "bs_call \<Rightarrow> nat" where
  "call_bytes (Write d) = length d"
| "call_bytes _ = 0"

definition spec_new :: "nat \<Rightarrow> stream_spec" where
  "spec_new cap = \<lparr>sp_log = [], sp_read = 0, sp_capacity = cap, sp_ended = False,
     sp_failed = False\<rparr>"

definition stream_rel :: "ByteStream \<Rightarrow> stream_spec \<Rightarrow> bool" where
  "stream_rel s a \<longleftrightarrow> bs_ok s \<and> bs_buffer s = drop (sp_read a) (sp_log a) \<and>
     bs_bytes_written s = length (sp_log a) \<and> bs_bytes_read s = sp_read a \<and>
     bs_capacity s = sp_capacity a \<and> bs_input_ended s = sp_ended a \<and> bs_error s = sp_failed a"

lemma stream_rel_new: "cap < two64 \<Longrightarrow> stream_rel (bs_new cap) (spec_new cap)"
  by (simp add: stream_rel_def bs_ok_new) (simp add: bs_new_def spec_new_def)

lemma stream_rel_ok: "stream_rel s a \<Longrightarrow> bs_ok s"
  by (simp add: stream_rel_def)

lemma stream_rel_read_le: "stream_rel s a \<Longrightarrow> sp_read a \<le> length (sp_log a)"
  by (simp add: stream_rel_def bs_ok_def)

lemma bs_exec_simulates:
  assumes rel: "stream_rel s a" and len: "length (sp_log a) + call_bytes c < two64"
  shows "stream_rel (fst (bs_exec s c)) (fst (spec_exec a c)) \<and>
    snd (bs_exec s c) = snd (spec_exec a c) \<and>
    length (sp_log (fst (spec_exec a c))) \<le> length (sp_log a) + call_bytes c"
proof -
  note ok = stream_rel_ok[OF rel]
  note le = stream_rel_read_le[OF rel]
  show ?thesis
  proof (cases c)
    case (Write d)
    have fits: "bs_bytes_written s + length d < two64"
      using rel len Write by (simp add: stream_rel_def)
    define n where "n = min (bs_capacity s - length (bs_buffer s)) (length d)"
    have w: "bs_write s d = (s\<lparr>bs_buffer := bs_buffer s @ take n d,
        bs_bytes_written := bs_bytes_written s + n\<rparr>, n)"
      using bs_write_eq[OF ok fits] by (simp add: Let_def n_def)
    have "n \<le> length d"
      and n: "min (sp_capacity a + sp_read a - length (sp_log a)) (length d) = n"
      using rel bs_okD(4)[OF ok] by (simp_all add: stream_rel_def n_def)
    show ?thesis
      unfolding Write bs_exec.simps spec_exec.simps w n Let_def
      using rel bs_ok_write[OF ok fits] le \<open>n \<le> length d\<close> unfolding w
      by (simp add: stream_rel_def)
  next
    case (Peek n)
    then show ?thesis using rel by (simp add: stream_rel_def bs_peek_output_eq)
  next
    case (Pop n)
    then show ?thesis using rel bs_ok_pop_output[OF ok, of n] le
      by (simp add: stream_rel_def bs_pop_output_eq[OF ok]) (auto simp: min_def add.commute)
  next
    case (Read n)
    then show ?thesis using rel bs_ok_read[OF ok, of n] le
      by (simp add: stream_rel_def bs_read_eq[OF ok]) (auto simp: min_def add.commute)
  next
    case EndInput
    then show ?thesis using rel by (simp add: stream_rel_def) (simp add: bs_end_input_def)
  next
    case SetError
    then show ?thesis using rel by (simp add: stream_rel_def) (simp add: bs_set_error_def)
  qed
qed

lemma bs_run_simulates:
  "stream_rel s a \<Longrightarrow> length (sp_log a) + sum_list (map call_bytes cs) < two64 \<Longrightarrow>
     stream_rel (fst (bs_run s cs)) (fst (spec_run a cs)) \<and> snd (bs_run s cs) = snd (spec_run a cs)"
proof (induction cs arbitrary: s a)
  case Nil
  then show ?case by simp
next
  case (Cons c cs)
  have len: "length (sp_log a) + call_bytes c < two64" using Cons.prems(2) by simp
  note sim = bs_exec_simulates[OF Cons.prems(1) len]
  have "length (sp_log (fst (spec_exec a c))) + sum_list (map call_bytes cs) < two64"
    using sim Cons.prems(2) by simp
  with sim Cons.IH[of "fst (bs_exec s c)" "fst (spec_exec a c)"] show ?case
    by (simp add: case_prod_beta Let_def)
qed

section \<open>Properties\<close>



text \<open>\<open>end_input\<close> does not stop a writer. The header says that after the writer has ended the
  input no more bytes can be written, but \<open>write\<close> never looks at the flag: it accepts the same
  bytes as before, and a stream that had reached end-of-file leaves that state again.\<close>

lemma write_after_end_input:
  assumes "bs_ok s" "bs_bytes_written s + length d < two64"
    and "bs_eof s" "0 < bs_capacity s" "d \<noteq> []"
  shows "0 < snd (bs_write s d) \<and> \<not> bs_eof (fst (bs_write s d)) \<and>
    bs_input_ended (fst (bs_write s d))"
  using assms by (auto simp: bs_write_eq Let_def bs_eof_def bs_buffer_empty_def)

end
