(* ===== verification/Ordered_Map.thy ===== *)
theory Ordered_Map
  imports Sponge_Prelude
begin

text \<open>
  \<^verbatim>\<open>std::map\<close> as the library uses it: a list of key/value pairs in strictly increasing key
  order. \<open>om_insert\<close> is \<^verbatim>\<open>insert\<close>/\<^verbatim>\<open>emplace\<close> (an existing key keeps its value),
  \<open>om_update\<close> assigns through an iterator or \<^verbatim>\<open>operator[]\<close>, \<open>om_erase\<close> removes a key,
  \<open>om_begin\<close> and \<open>om_next\<close> are the iterator positions: a position is the key it points to, and
  \<open>None\<close> is \<^verbatim>\<open>end()\<close>. The stream reassembler (keys: byte indices) and the network interface
  (keys: IP addresses) are the clients; their contract is the locale \<open>ordered_map\<close>.
\<close>

type_synonym ('k, 'v) omap = "('k \<times> 'v) list"

definition om_keys :: "('k \<times> 'v) list \<Rightarrow> 'k set" where
  "om_keys m = fst ` set m"

definition om_ok :: "('k::linorder \<times> 'v) list \<Rightarrow> bool" where
  "om_ok m \<longleftrightarrow> sorted_wrt (<) (map fst m)"

definition om_find :: "'k \<Rightarrow> ('k \<times> 'v) list \<Rightarrow> 'v option" where
  "om_find k m = map_of m k"

fun om_insert :: "'k::linorder \<Rightarrow> 'v \<Rightarrow> ('k \<times> 'v) list \<Rightarrow> ('k \<times> 'v) list" where
  "om_insert k v [] = [(k, v)]"
| "om_insert k v ((a, b) # m) =
     (if k < a then (k, v) # (a, b) # m
      else if k = a then (a, b) # m
      else (a, b) # om_insert k v m)"

fun om_update :: "'k::linorder \<Rightarrow> 'v \<Rightarrow> ('k \<times> 'v) list \<Rightarrow> ('k \<times> 'v) list" where
  "om_update k v [] = [(k, v)]"
| "om_update k v ((a, b) # m) =
     (if k < a then (k, v) # (a, b) # m
      else if k = a then (k, v) # m
      else (a, b) # om_update k v m)"

definition om_erase :: "'k \<Rightarrow> ('k \<times> 'v) list \<Rightarrow> ('k \<times> 'v) list" where
  "om_erase k m = filter (\<lambda>e. fst e \<noteq> k) m"

definition om_begin :: "('k \<times> 'v) list \<Rightarrow> 'k option" where
  "om_begin m = (case m of [] \<Rightarrow> None | e # _ \<Rightarrow> Some (fst e))"

definition om_next :: "'k::linorder \<Rightarrow> ('k \<times> 'v) list \<Rightarrow> 'k option" where
  "om_next k m = om_begin (dropWhile (\<lambda>e. fst e \<le> k) m)"

section \<open>Laws\<close>

lemma om_keys_insert: "om_keys (om_insert k v m) = insert k (om_keys m)"
  by (induction k v m rule: om_insert.induct) (auto simp: om_keys_def)

lemma om_keys_update: "om_keys (om_update k v m) = insert k (om_keys m)"
  by (induction k v m rule: om_update.induct) (auto simp: om_keys_def)

lemma om_keys_erase: "om_keys (om_erase k m) = om_keys m - {k}"
  by (auto simp: om_keys_def om_erase_def)

lemma om_ok_insert: "om_ok m \<Longrightarrow> om_ok (om_insert k v m)"
proof (induction k v m rule: om_insert.induct)
  case (2 k v a b m)
  have "fst ` set (om_insert k v m) = insert k (fst ` set m)"
    using om_keys_insert[of k v m] by (simp add: om_keys_def)
  with 2 show ?case by (fastforce simp: om_ok_def)
qed (simp add: om_ok_def)

lemma om_ok_update: "om_ok m \<Longrightarrow> om_ok (om_update k v m)"
proof (induction k v m rule: om_update.induct)
  case (2 k v a b m)
  have "fst ` set (om_update k v m) = insert k (fst ` set m)"
    using om_keys_update[of k v m] by (simp add: om_keys_def)
  with 2 show ?case by (fastforce simp: om_ok_def)
qed (simp add: om_ok_def)

lemma om_ok_erase: "om_ok m \<Longrightarrow> om_ok (om_erase k m)"
  by (auto simp: om_ok_def om_erase_def sorted_wrt_map sorted_wrt_filter)

lemma om_ok_filter: "om_ok m \<Longrightarrow> om_ok (filter P m)"
  by (auto simp: om_ok_def sorted_wrt_map sorted_wrt_filter)

lemma om_find_None: "om_find k m = None \<longleftrightarrow> k \<notin> om_keys m"
  by (simp add: om_find_def om_keys_def map_of_eq_None_iff)

lemma om_ok_ConsD: "om_ok ((a, b) # m) \<Longrightarrow> om_ok m \<and> (\<forall>k\<in>om_keys m. a < k)"
  by (auto simp: om_ok_def om_keys_def)

lemma om_find_insert:
  "om_ok m \<Longrightarrow>
     om_find x (om_insert k v m) =
       (if x = k \<and> om_find k m = None then Some v else om_find x m)"
proof (induction k v m rule: om_insert.induct)
  case (2 k v a b m)
  then have "k < a \<Longrightarrow> om_find k m = None"
    using om_ok_ConsD[OF 2(2)] by (auto simp: om_find_None dest: bspec)
  with 2 show ?case by (auto simp: om_find_def dest: om_ok_ConsD)
qed (simp add: om_find_def)

lemma om_find_update: "om_ok m \<Longrightarrow> om_find x (om_update k v m) = (if x = k then Some v else om_find x m)"
  by (induction k v m rule: om_update.induct) (auto simp: om_find_def dest: om_ok_ConsD)

lemma om_find_erase: "om_find x (om_erase k m) = (if x = k then None else om_find x m)"
  by (induction m) (auto simp: om_find_def om_erase_def)

lemma om_begin_min: "om_ok m \<Longrightarrow> om_begin m = Some k \<Longrightarrow> k \<in> om_keys m \<and> (\<forall>x\<in>om_keys m. k \<le> x)"
  by (cases m) (auto simp: om_begin_def om_ok_def om_keys_def)

lemma om_next_greater: "om_next k m = Some k' \<Longrightarrow> k < k' \<and> k' \<in> om_keys m"
  unfolding om_next_def om_begin_def om_keys_def
  by (auto split: list.splits simp: dropWhile_eq_Cons_conv)
    (metis fst_conv image_eqI in_set_conv_decomp)

text \<open>The contract: a finite map with the keys visited in increasing order.\<close>

locale ordered_map =
  fixes invar :: "'m \<Rightarrow> bool"
    and lookup :: "'k::linorder \<Rightarrow> 'm \<Rightarrow> 'v option"
    and emplace :: "'k \<Rightarrow> 'v \<Rightarrow> 'm \<Rightarrow> 'm"
    and assign :: "'k \<Rightarrow> 'v \<Rightarrow> 'm \<Rightarrow> 'm"
    and erase :: "'k \<Rightarrow> 'm \<Rightarrow> 'm"
  assumes invar_emplace: "invar m \<Longrightarrow> invar (emplace k v m)"
    and invar_assign: "invar m \<Longrightarrow> invar (assign k v m)"
    and invar_erase: "invar m \<Longrightarrow> invar (erase k m)"
    and lookup_emplace: "invar m \<Longrightarrow>
      lookup x (emplace k v m) = (if x = k \<and> lookup k m = None then Some v else lookup x m)"
    and lookup_assign: "invar m \<Longrightarrow> lookup x (assign k v m) = (if x = k then Some v else lookup x m)"
    and lookup_erase: "invar m \<Longrightarrow> lookup x (erase k m) = (if x = k then None else lookup x m)"
begin

lemma lookup_emplace_new: "invar m \<Longrightarrow> lookup k m = None \<Longrightarrow> lookup k (emplace k v m) = Some v"
  by (simp add: lookup_emplace)

text \<open>Find-then-write: whether the key was found and assigned, or emplaced, the result is the
  same, the pattern of \<^verbatim>\<open>NetworkInterface::recv_frame\<close>.\<close>

lemma find_or_emplace:
  assumes "invar m"
  shows "lookup x (if lookup k m \<noteq> None then assign k v m else emplace k v m)
    = (if x = k then Some v else lookup x m)"
  using assms by (simp add: lookup_assign lookup_emplace)

end

interpretation om: ordered_map om_ok om_find om_insert om_update om_erase
  by unfold_locales
    (simp_all add: om_ok_insert om_ok_update om_ok_erase om_find_insert om_find_update
      om_find_erase)

end
