(* ===== verification/Stream_Reassembler.thy ===== *)
theory Stream_Reassembler
  imports Byte_Stream Ordered_Map
begin

text \<open>
  The stream reassembler (\<^verbatim>\<open>libsponge/stream_reassembler.hh\<close> and \<^verbatim>\<open>.cc\<close>): substrings of the
  peer's byte stream arrive in any order and overlapping; the bytes that continue the output are
  written to it, the others are kept in a map from index to segment. Each method is one
  definition. The loop of \<open>try_assemble\<close> erases and inserts map entries while it iterates: the
  model keeps the iterator as the key it points to, and \<open>None\<close> results stand for the undefined
  behaviour of using an iterator whose element was erased, which the lemmas exclude.

  The main facts: segments stay sorted, disjoint and non-empty; buffered plus stored bytes never
  exceed the capacity; if every substring pushed is a piece of one stream \<open>S\<close>, the output is
  always a prefix of \<open>S\<close> and end-of-input is signalled only when all of \<open>S\<close> is out.
\<close>

section \<open>State and operations\<close>

record StreamReassembler =
  sr_output :: ByteStream
  sr_capacity :: nat
  sr_first_unassembled :: nat
  sr_unassembled_segments :: "(nat \<times> bytes) list"
  sr_eof_index :: nat

definition sr_new :: "nat \<Rightarrow> StreamReassembler" where
  "sr_new capacity = \<lparr>sr_output = bs_new capacity, sr_capacity = capacity,
     sr_first_unassembled = 0, sr_unassembled_segments = [],
     sr_eof_index = 18446744073709551615\<rparr>"

fun sr_total :: "(nat \<times> bytes) list \<Rightarrow> nat \<Rightarrow> nat" where
  "sr_total [] acc = acc"
| "sr_total (segment # segments) acc = sr_total segments (add64 acc (length (snd segment)))"

definition sr_unassembled_bytes :: "StreamReassembler \<Rightarrow> nat" where
  "sr_unassembled_bytes r = sr_total (sr_unassembled_segments r) 0"

definition sr_empty :: "StreamReassembler \<Rightarrow> bool" where
  "sr_empty r \<longleftrightarrow> sr_unassembled_segments r = []"

definition sr_truncate_data :: "StreamReassembler \<Rightarrow> bytes \<Rightarrow> nat \<Rightarrow> bytes" where
  "sr_truncate_data r data index =
     (let first_unacceptable = add64 (bs_bytes_read (sr_output r)) (sr_capacity r);
          available_space =
            sub64 (sub64 (sr_capacity r) (bs_buffer_size (sr_output r))) (sr_unassembled_bytes r);
          max_len = min (length data) (sub64 first_unacceptable index);
          max_len' = min max_len available_space
      in substr data 0 max_len')"

text \<open>The loop of \<open>insert_segment\<close> over the stored segments, in key order. It returns the
  segments that stay and the merged data with its index. The last test of the source,
  \<^verbatim>\<open>seg_start < tmp_index\<close>, always holds where it is reached.\<close>

fun sr_insert_loop ::
  "(nat \<times> bytes) list \<Rightarrow> bytes \<Rightarrow> nat \<Rightarrow> nat \<Rightarrow> (nat \<times> bytes) list \<times> bytes \<times> nat" where
  "sr_insert_loop [] tmp_data tmp_index tmp_end = ([], tmp_data, tmp_index)"
| "sr_insert_loop ((seg_start, seg_data) # rest) tmp_data tmp_index tmp_end =
     (let seg_end = sub64 (add64 seg_start (length seg_data)) 1 in
      if seg_end < tmp_index then
        (let (kept, d, i) = sr_insert_loop rest tmp_data tmp_index tmp_end
         in ((seg_start, seg_data) # kept, d, i))
      else if seg_start > tmp_end then ((seg_start, seg_data) # rest, tmp_data, tmp_index)
      else if seg_start \<le> tmp_end \<and> tmp_index \<le> seg_end then
        (if tmp_index \<le> seg_start \<and> tmp_end \<ge> seg_end then
           sr_insert_loop rest tmp_data tmp_index tmp_end
         else if seg_start \<le> tmp_index \<and> seg_end \<ge> tmp_end then
           (let (kept, d, i) = sr_insert_loop rest [] tmp_index tmp_end
            in ((seg_start, seg_data) # kept, d, i))
         else if tmp_index < seg_start then
           (let extra_len = sub64 seg_end tmp_end;
                tmp_data' = (if extra_len > 0
                  then tmp_data @ substr seg_data (sub64 (length seg_data) extra_len) (length seg_data)
                  else tmp_data);
                tmp_end' = sub64 (add64 tmp_index (length tmp_data')) 1
            in sr_insert_loop rest tmp_data' tmp_index tmp_end')
         else
           (let prefix_len = sub64 tmp_index seg_start;
                tmp_data' = substr seg_data 0 prefix_len @ tmp_data;
                tmp_index' = seg_start;
                tmp_end' = sub64 (add64 tmp_index' (length tmp_data')) 1
            in sr_insert_loop rest tmp_data' tmp_index' tmp_end'))
      else
        (let (kept, d, i) = sr_insert_loop rest tmp_data tmp_index tmp_end
         in ((seg_start, seg_data) # kept, d, i)))"

definition sr_insert_segment :: "StreamReassembler \<Rightarrow> bytes \<Rightarrow> nat \<Rightarrow> StreamReassembler" where
  "sr_insert_segment r data index =
     (let tmp_end = sub64 (add64 index (length data)) 1;
          (segments, tmp_data, tmp_index) =
            sr_insert_loop (sr_unassembled_segments r) data index tmp_end;
          r' = r\<lparr>sr_unassembled_segments := segments\<rparr>
      in if tmp_data \<noteq> [] then
           (let truncated = sr_truncate_data r' tmp_data tmp_index
            in if truncated \<noteq> []
               then r'\<lparr>sr_unassembled_segments := om_insert tmp_index truncated segments\<rparr>
               else r')
         else r')"

text \<open>Keys only come from the map or the index of the new segment; this is what makes the
  iteration of \<open>try_assemble\<close> terminate.\<close>

lemma sr_insert_loop_keys:
  "sr_insert_loop segs d i e = (kept, d', i') \<Longrightarrow>
     om_keys kept \<subseteq> om_keys segs \<and> i' \<in> insert i (om_keys segs) \<and> length kept \<le> length segs \<and>
     (i' \<noteq> i \<longrightarrow> length kept < length segs)"
proof (induction segs arbitrary: d i e kept d' i')
  case (Cons x rest)
  obtain s sd where x: "x = (s, sd)" by fastforce
  have k: "om_keys (x # rest) = insert s (om_keys rest)" "om_keys (x # rest') = insert s (om_keys rest')"
    for rest' :: "(nat \<times> bytes) list"
    by (simp_all add: om_keys_def x)
  from Cons.prems show ?case
    unfolding k unfolding x sr_insert_loop.simps(2) Let_def
    by (auto split: if_splits prod.splits simp: k[unfolded x] dest!: Cons.IH)
qed simp

lemma om_insert_length: "length (om_insert k v m) \<le> Suc (length m)"
  by (induction k v m rule: om_insert.induct) auto

lemma om_erase_length: "k \<in> om_keys m \<Longrightarrow> length (om_erase k m) < length m"
  by (auto simp: om_erase_def om_keys_def length_filter_less)

lemma sr_insert_segment_keys:
  "sr_first_unassembled (sr_insert_segment r d i) = sr_first_unassembled r"
  "om_keys (sr_unassembled_segments (sr_insert_segment r d i))
     \<subseteq> insert i (om_keys (sr_unassembled_segments r))"
  "length (sr_unassembled_segments (sr_insert_segment r d i))
     \<le> Suc (length (sr_unassembled_segments r))"
proof -
  obtain kept d' i' where l:
    "sr_insert_loop (sr_unassembled_segments r) d i (sub64 (add64 i (length d)) 1) = (kept, d', i')"
    by (metis prod_cases3)
  note k = sr_insert_loop_keys[OF l]
  show "sr_first_unassembled (sr_insert_segment r d i) = sr_first_unassembled r"
    unfolding sr_insert_segment_def Let_def l by simp
  show "om_keys (sr_unassembled_segments (sr_insert_segment r d i))
     \<subseteq> insert i (om_keys (sr_unassembled_segments r))"
    using k unfolding sr_insert_segment_def Let_def l by (auto simp: om_keys_insert)
  show "length (sr_unassembled_segments (sr_insert_segment r d i))
     \<le> Suc (length (sr_unassembled_segments r))"
    using k om_insert_length[of i' "sr_truncate_data (r\<lparr>sr_unassembled_segments := kept\<rparr>) d' i'" kept]
    unfolding sr_insert_segment_def Let_def l by auto
qed

text \<open>\<open>try_assemble\<close>: the iterator is the key of its element. \<open>insert_segment\<close> erases some
  elements; \<open>sr_iterator_kept\<close> says that the one the iterator points to is not among them.\<close>

definition sr_iterator_kept :: "StreamReassembler \<Rightarrow> bytes \<Rightarrow> nat \<Rightarrow> nat option \<Rightarrow> bool" where
  "sr_iterator_kept r data index it =
     (case it of None \<Rightarrow> True
      | Some k \<Rightarrow> k \<in> om_keys (fst (sr_insert_loop (sr_unassembled_segments r) data index
          (sub64 (add64 index (length data)) 1))))"

function sr_try_loop :: "StreamReassembler \<Rightarrow> nat option \<Rightarrow> StreamReassembler option" where
  "sr_try_loop r None = Some r"
| "sr_try_loop r (Some seg_index) =
     (case om_find seg_index (sr_unassembled_segments r) of
        None \<Rightarrow> None
      | Some seg_data \<Rightarrow>
          (if seg_index < sr_first_unassembled r then
             (let it = om_next seg_index (sr_unassembled_segments r);
                  r1 = r\<lparr>sr_unassembled_segments := om_erase seg_index (sr_unassembled_segments r)\<rparr>
              in if add64 seg_index (length seg_data) > sr_first_unassembled r then
                   (let seg_data' = substr seg_data (sub64 (sr_first_unassembled r) seg_index)
                                      (length seg_data)
                    in if sr_iterator_kept r1 seg_data' (sr_first_unassembled r) it
                       then sr_try_loop (sr_insert_segment r1 seg_data' (sr_first_unassembled r)) it
                       else None)
                 else sr_try_loop r1 it)
           else sr_try_loop r (om_next seg_index (sr_unassembled_segments r))))"
  by pat_completeness auto

definition try_pending :: "StreamReassembler \<times> nat option \<Rightarrow> nat set" where
  "try_pending x = (case snd x of None \<Rightarrow> {}
     | Some k \<Rightarrow> {y \<in> insert (sr_first_unassembled (fst x)) (om_keys (sr_unassembled_segments (fst x))).
                   k \<le> y})"

lemma try_pending_decreases:
  assumes "k \<in> om_keys (sr_unassembled_segments r)"
    and "om_keys (sr_unassembled_segments r')
      \<subseteq> insert (sr_first_unassembled r) (om_keys (sr_unassembled_segments r))"
    and "sr_first_unassembled r' = sr_first_unassembled r"
  shows "card (try_pending (r', om_next k (sr_unassembled_segments r)))
    < card (try_pending (r, Some k))"
proof (rule psubset_card_mono)
  show "finite (try_pending (r, Some k))" by (simp add: try_pending_def om_keys_def)
  have "k \<in> try_pending (r, Some k)" using assms by (simp add: try_pending_def)
  moreover have "k \<notin> try_pending (r', om_next k (sr_unassembled_segments r))"
    by (auto simp: try_pending_def split: option.splits dest: om_next_greater)
  moreover have "try_pending (r', om_next k (sr_unassembled_segments r)) \<subseteq> try_pending (r, Some k)"
    using assms by (auto simp: try_pending_def split: option.splits dest: om_next_greater)
  ultimately show "try_pending (r', om_next k (sr_unassembled_segments r)) \<subset> try_pending (r, Some k)"
    by blast
qed

lemma om_find_SomeD: "om_find k m = Some v \<Longrightarrow> k \<in> om_keys m"
  using om_find_None[of k m] by auto

termination sr_try_loop
proof (relation "measure (\<lambda>x. card (try_pending x))")
  fix r :: StreamReassembler and k d
  assume "om_find k (sr_unassembled_segments r) = Some d"
  note k = om_find_SomeD[OF this]
  show "((r, om_next k (sr_unassembled_segments r)), r, Some k) \<in> measure (\<lambda>x. card (try_pending x))"
    using try_pending_decreases[OF k] by auto
next
  fix r r1 :: StreamReassembler and k d it d'
  assume "om_find k (sr_unassembled_segments r) = Some d"
    and d: "it = om_next k (sr_unassembled_segments r)"
      "r1 = r\<lparr>sr_unassembled_segments := om_erase k (sr_unassembled_segments r)\<rparr>"
  note k = om_find_SomeD[OF this(1)]
  show "((sr_insert_segment r1 d' (sr_first_unassembled r), it), r, Some k)
      \<in> measure (\<lambda>x. card (try_pending x))"
    using try_pending_decreases[OF k, of "sr_insert_segment r1 d' (sr_first_unassembled r)"]
      sr_insert_segment_keys(1,2)[of r1 d' "sr_first_unassembled r"] d
    by (auto simp: om_keys_erase)
  show "((r1, it), r, Some k) \<in> measure (\<lambda>x. card (try_pending x))"
    using try_pending_decreases[OF k, of r1] d by (auto simp: om_keys_erase)
qed auto

definition sr_try_assemble :: "StreamReassembler \<Rightarrow> StreamReassembler option" where
  "sr_try_assemble r = sr_try_loop r (om_begin (sr_unassembled_segments r))"

lemma sr_try_loop_bounds:
  "sr_try_loop r it = Some r' \<Longrightarrow>
     length (sr_unassembled_segments r') \<le> length (sr_unassembled_segments r)"
proof (induction r it rule: sr_try_loop.induct)
  case (2 r k)
  then obtain d where d: "om_find k (sr_unassembled_segments r) = Some d"
    by (auto split: option.splits)
  let ?r1 = "r\<lparr>sr_unassembled_segments := om_erase k (sr_unassembled_segments r)\<rparr>"
  have l: "length (sr_unassembled_segments ?r1) < length (sr_unassembled_segments r)"
    using om_erase_length[OF om_find_SomeD[OF d]] by simp
  have "length (sr_unassembled_segments (sr_insert_segment ?r1 d' i))
      \<le> length (sr_unassembled_segments r)" for d' i
    using sr_insert_segment_keys(3)[of ?r1 d' i] l by linarith
  with "2.IH"[OF d] "2.prems" l show ?case
    by (fastforce simp: d Let_def split: if_splits dest: order.trans)
qed simp

text \<open>The \<^verbatim>\<open>while (true)\<close> loop of \<open>push_substring\<close>. Every round erases a segment.\<close>

function sr_assemble_loop :: "StreamReassembler \<Rightarrow> StreamReassembler option" where
  "sr_assemble_loop r =
     (case sr_try_assemble r of
        None \<Rightarrow> None
      | Some r1 \<Rightarrow>
          (case om_find (sr_first_unassembled r1) (sr_unassembled_segments r1) of
             None \<Rightarrow> Some r1
           | Some seg_data \<Rightarrow>
               (let (output, written) = bs_write (sr_output r1) seg_data
                in sr_assemble_loop
                     (r1\<lparr>sr_output := output,
                         sr_first_unassembled := add64 (sr_first_unassembled r1) written,
                         sr_unassembled_segments :=
                           om_erase (sr_first_unassembled r1) (sr_unassembled_segments r1)\<rparr>))))"
  by pat_completeness auto

termination sr_assemble_loop
proof (relation "measure (\<lambda>r. length (sr_unassembled_segments r))")
  fix r r1 :: StreamReassembler and d x
  assume "sr_try_assemble r = Some r1"
    and f: "om_find (sr_first_unassembled r1) (sr_unassembled_segments r1) = Some d"
  then have "length (sr_unassembled_segments r1) \<le> length (sr_unassembled_segments r)"
    by (auto simp: sr_try_assemble_def dest: sr_try_loop_bounds)
  then show "(r1\<lparr>sr_output := y, sr_first_unassembled := add64 (sr_first_unassembled r1) w,
      sr_unassembled_segments := om_erase (sr_first_unassembled r1) (sr_unassembled_segments r1)\<rparr>, r)
    \<in> measure (\<lambda>r. length (sr_unassembled_segments r))" for y w
    using om_erase_length[OF om_find_SomeD[OF f]] by auto
qed simp

declare sr_assemble_loop.simps [simp del]

definition sr_push_substring ::
  "StreamReassembler \<Rightarrow> bytes \<Rightarrow> nat \<Rightarrow> bool \<Rightarrow> StreamReassembler option" where
  "sr_push_substring r data index eof =
     (let r0 = (if eof then r\<lparr>sr_eof_index := add64 index (length data)\<rparr> else r);
          start_data = (if index < sr_first_unassembled r0
                        then sub64 (sr_first_unassembled r0) index else 0)
      in if start_data \<ge> length data then
           (if sr_empty r0 \<and> sr_first_unassembled r0 \<ge> sr_eof_index r0
            then Some (r0\<lparr>sr_output := bs_end_input (sr_output r0)\<rparr>) else Some r0)
         else
           (let write_data = substr data start_data (length data);
                adjusted_index = add64 index start_data;
                r1 = (if adjusted_index = sr_first_unassembled r0 then
                        (let write_data' = sr_truncate_data r0 write_data adjusted_index;
                             (output, written) = bs_write (sr_output r0) write_data'
                         in sr_assemble_loop
                              (r0\<lparr>sr_output := output,
                                  sr_first_unassembled :=
                                    add64 (sr_first_unassembled r0) written\<rparr>))
                      else if adjusted_index > sr_first_unassembled r0
                      then Some (sr_insert_segment r0 write_data adjusted_index)
                      else Some r0)
            in case r1 of None \<Rightarrow> None
               | Some r2 \<Rightarrow>
                   (if sr_empty r2 \<and> sr_first_unassembled r2 = sr_eof_index r2
                    then Some (r2\<lparr>sr_output := bs_end_input (sr_output r2)\<rparr>) else Some r2)))"

section \<open>Segments\<close>

text \<open>\<open>segs_ok\<close>: stored segments are in order, disjoint, non-empty and inside the index range.
  \<open>covered\<close>: the stream positions they hold. \<open>agrees\<close>: they are pieces of the stream \<open>S\<close>.\<close>

definition segs_ok :: "(nat \<times> bytes) list \<Rightarrow> bool" where
  "segs_ok segs \<longleftrightarrow> sorted_wrt (\<lambda>x y. fst x + length (snd x) \<le> fst y) segs \<and>
     (\<forall>x\<in>set segs. snd x \<noteq> [] \<and> fst x + length (snd x) < two64)"

definition positions :: "nat \<Rightarrow> bytes \<Rightarrow> nat set" where
  "positions i d = {i..<i + length d}"

definition covered :: "(nat \<times> bytes) list \<Rightarrow> nat set" where
  "covered segs = (\<Union>x\<in>set segs. positions (fst x) (snd x))"

definition agrees :: "bytes \<Rightarrow> (nat \<times> bytes) list \<Rightarrow> bool" where
  "agrees S segs \<longleftrightarrow> (\<forall>x\<in>set segs. slice_at S (fst x) (snd x))"

definition stored :: "(nat \<times> bytes) list \<Rightarrow> nat" where
  "stored segs = sum_list (map (\<lambda>x. length (snd x)) segs)"

lemma segs_ok_Nil [simp]: "segs_ok []"
  by (simp add: segs_ok_def)

lemma segs_ok_Cons:
  "segs_ok ((s, sd) # rest) \<longleftrightarrow>
     sd \<noteq> [] \<and> s + length sd < two64 \<and> (\<forall>x\<in>set rest. s + length sd \<le> fst x) \<and> segs_ok rest"
  by (auto simp: segs_ok_def)

lemma covered_Nil [simp]: "covered [] = {}"
  by (simp add: covered_def)

lemma covered_Cons [simp]: "covered ((s, sd) # rest) = positions s sd \<union> covered rest"
  by (simp add: covered_def)

lemma agrees_Nil [simp]: "agrees S []"
  by (simp add: agrees_def)

lemma agrees_Cons [simp]: "agrees S ((s, sd) # rest) \<longleftrightarrow> slice_at S s sd \<and> agrees S rest"
  by (auto simp: agrees_def)

lemma stored_simps [simp]:
  "stored [] = 0" "stored ((s, sd) # rest) = length sd + stored rest"
  by (simp_all add: stored_def)

lemma sr_total_eq: "n + stored segs < two64 \<Longrightarrow> sr_total segs n = n + stored segs"
  by (induction segs arbitrary: n) (auto simp: no_wrap stored_def)

lemma sr_unassembled_bytes_eq:
  "stored (sr_unassembled_segments r) < two64 \<Longrightarrow>
     sr_unassembled_bytes r = stored (sr_unassembled_segments r)"
  by (simp add: sr_unassembled_bytes_def sr_total_eq)

section \<open>Inserting a segment\<close>

lemma insert_loop_break:
  assumes "i \<le> e" "\<forall>x\<in>set segs. e < fst x" "segs_ok segs"
  shows "sr_insert_loop segs d i e = (segs, d, i)"
proof (cases segs)
  case (Cons x rest)
  obtain s sd where x: "x = (s, sd)" by fastforce
  have "sd \<noteq> []" "s + length sd < two64" "e < s" using assms Cons x by (auto simp: segs_ok_Cons)
  moreover from this have "sub64 (add64 s (length sd)) 1 = s + length sd - 1"
    by (cases sd) (simp_all add: no_wrap)
  ultimately show ?thesis using assms(1) Cons x by (cases sd) auto
qed simp

lemma insert_loop_step:
  assumes "sd \<noteq> []" "d \<noteq> []" "s + length sd < two64" "i + length d < two64"
  shows "sr_insert_loop ((s, sd) # rest) d i (i + length d - 1) =
    (if s + length sd \<le> i then
       (case sr_insert_loop rest d i (i + length d - 1) of (kept, d', i') \<Rightarrow> ((s, sd) # kept, d', i'))
     else if i + length d \<le> s then ((s, sd) # rest, d, i)
     else if i \<le> s \<and> s + length sd \<le> i + length d then
       sr_insert_loop rest d i (i + length d - 1)
     else if s \<le> i \<and> i + length d \<le> s + length sd then
       (case sr_insert_loop rest [] i (i + length d - 1) of (kept, d', i') \<Rightarrow> ((s, sd) # kept, d', i'))
     else if i < s then
       (let d' = d @ drop (i + length d - s) sd in sr_insert_loop rest d' i (i + length d' - 1))
     else (let d' = take (i - s) sd @ d in sr_insert_loop rest d' s (s + length d' - 1)))"
proof -
  obtain n where n: "length sd = Suc n" using assms(1) by (cases sd) auto
  obtain m where m: "length d = Suc m" using assms(2) by (cases d) auto
  have e: "sub64 (add64 s (length sd)) 1 = s + n" "i + length d - 1 = i + m"
    using assms n m by (simp_all add: no_wrap)
  show ?thesis
    unfolding sr_insert_loop.simps(2) e Let_def
    using assms n m by (auto simp: no_wrap substr_def min_def)
qed

text \<open>What the loop leaves behind: the kept segments and the merged data are disjoint, cover the
  same positions as before, and are still pieces of the same stream. The result data is empty
  exactly when one stored segment already held all of it.\<close>

definition loop_post ::
  "(nat \<times> bytes) list \<Rightarrow> bytes \<Rightarrow> nat \<Rightarrow> (nat \<times> bytes) list \<Rightarrow> bytes \<Rightarrow> nat \<Rightarrow> bool" where
  "loop_post segs d i kept d' i' \<longleftrightarrow>
     segs_ok kept \<and> set kept \<subseteq> set segs \<and>
     covered kept \<union> positions i' d' = covered segs \<union> positions i d \<and>
     stored kept + length d' \<le> stored segs + length d \<and> stored kept \<le> stored segs \<and>
     (d' \<noteq> [] \<longrightarrow> i' \<le> i \<and> i' + length d' < two64 \<and>
        (\<forall>x\<in>set kept. fst x + length (snd x) \<le> i' \<or> i' + length d' \<le> fst x)) \<and>
     (\<forall>S. agrees S segs \<longrightarrow> slice_at S i d \<longrightarrow> d' \<noteq> [] \<longrightarrow> slice_at S i' d')"

lemma positions_left_merge:
  "i < s \<Longrightarrow> s < i + length d \<Longrightarrow> i + length d < s + length sd \<Longrightarrow>
     positions i (d @ drop (i + length d - s) sd) = positions s sd \<union> positions i d"
  by (auto simp: positions_def)

lemma positions_right_merge:
  "s < i \<Longrightarrow> i < s + length sd \<Longrightarrow> s + length sd < i + length d \<Longrightarrow>
     positions s (take (i - s) sd @ d) = positions s sd \<union> positions i d"
  by (auto simp: positions_def)

lemma slice_at_left_merge:
  assumes "slice_at S i d" "slice_at S s sd" "i < s" "s < i + length d" "i + length d < s + length sd"
  shows "slice_at S i (d @ drop (i + length d - s) sd)"
proof -
  have "slice_at S (s + (i + length d - s)) (drop (i + length d - s) sd)"
    using assms by (intro slice_at_drop) auto
  then show ?thesis using assms by (intro slice_at_append) auto
qed

lemma slice_at_right_merge:
  assumes "slice_at S i d" "slice_at S s sd" "s < i" "i < s + length sd"
  shows "slice_at S s (take (i - s) sd @ d)"
  using assms by (intro slice_at_append slice_at_take) (auto simp: min_def)

lemma insert_loop_spec:
  assumes "segs_ok segs" "d \<noteq> []" "i + length d < two64"
    and "sr_insert_loop segs d i (i + length d - 1) = (kept, d', i')"
  shows "loop_post segs d i kept d' i'"
  using assms
proof (induction segs arbitrary: d i kept d' i')
  case Nil
  then show ?case by (auto simp: loop_post_def)
next
  case (Cons x rest)
  obtain s sd where x: "x = (s, sd)" by fastforce
  have ok: "sd \<noteq> []" "s + length sd < two64" "\<forall>y\<in>set rest. s + length sd \<le> fst y" "segs_ok rest"
    using Cons.prems(1) by (auto simp: x segs_ok_Cons)
  note step = Cons.prems(4)[unfolded x insert_loop_step[OF ok(1) Cons.prems(2) ok(2) Cons.prems(3)]]
  consider (before) "s + length sd \<le> i" | (after) "i < s + length sd" "i + length d \<le> s"
    | (cover) "i \<le> s" "s + length sd \<le> i + length d" "i < s + length sd"
    | (inside) "s \<le> i" "i + length d \<le> s + length sd" "\<not> (i \<le> s \<and> s + length sd \<le> i + length d)"
        "i < s + length sd"
    | (left) "i < s" "s < i + length d" "i + length d < s + length sd"
    | (right) "s < i" "i < s + length sd" "s + length sd < i + length d"
    by linarith
  then show ?case
  proof cases
    case before
    then obtain kept' where r: "sr_insert_loop rest d i (i + length d - 1) = (kept', d', i')"
      "kept = (s, sd) # kept'"
      using step by (auto split: prod.splits)
    have "i' \<in> insert i (om_keys rest)" using sr_insert_loop_keys[OF r(1)] by simp
    then have "s + length sd \<le> i'" using before ok(3) by (auto simp: om_keys_def)
    then show ?thesis
      using Cons.IH[OF ok(4) Cons.prems(2,3) r(1)] ok unfolding x r(2) loop_post_def
      by (auto simp: segs_ok_Cons)
  next
    case after
    then have "kept = (s, sd) # rest" "d' = d" "i' = i" using step Cons.prems(2) by auto
    then show ?thesis
      using Cons.prems ok after unfolding x loop_post_def by (fastforce simp: segs_ok_Cons)
  next
    case cover
    moreover have "0 < length sd" using ok(1) by simp
    ultimately have "\<not> i + length d \<le> s" by linarith
    then have "sr_insert_loop rest d i (i + length d - 1) = (kept, d', i')" using step cover by auto
    moreover have "positions s sd \<subseteq> positions i d" using cover by (auto simp: positions_def)
    ultimately show ?thesis
      using Cons.IH[OF ok(4) Cons.prems(2,3)] unfolding x loop_post_def by auto
  next
    case inside
    have "sr_insert_loop rest [] i (i + length d - 1) = (rest, [], i)"
      using ok(3,4) inside Cons.prems(2) by (intro insert_loop_break) (auto simp: neq_Nil_conv)
    moreover have "0 < length d" using Cons.prems(2) by simp
    then have "\<not> i + length d \<le> s" using inside(1) by linarith
    ultimately have "kept = (s, sd) # rest" "d' = []"
      using step inside by (auto split: if_splits)
    moreover have "positions i d \<subseteq> positions s sd" using inside by (auto simp: positions_def)
    ultimately show ?thesis
      using Cons.prems(1) unfolding x loop_post_def by (auto simp: positions_def)
  next
    case left
    let ?d = "d @ drop (i + length d - s) sd"
    have "sr_insert_loop rest ?d i (i + length ?d - 1) = (kept, d', i')"
      using step left by (simp add: Let_def)
    then have "loop_post rest ?d i kept d' i'"
      using Cons.prems(2) left ok by (intro Cons.IH) auto
    then show ?thesis
      using left positions_left_merge[OF left] slice_at_left_merge[OF _ _ left]
      unfolding x loop_post_def by auto
  next
    case right
    let ?d = "take (i - s) sd @ d"
    have "sr_insert_loop rest ?d s (s + length ?d - 1) = (kept, d', i')"
      using step right by (simp add: Let_def)
    then have "loop_post rest ?d s kept d' i'"
      using Cons.prems(2,3) right ok by (intro Cons.IH) auto
    then show ?thesis
      using right positions_right_merge[OF right] slice_at_right_merge[OF _ _ right(1,2)]
      unfolding x loop_post_def by auto
  qed
qed

section \<open>Invariant\<close>

text \<open>\<open>sr_inv\<close> holds between any two steps; \<open>sr_ok\<close> holds between calls: moreover, every stored
  segment lies strictly after the first unassembled byte.\<close>

definition sr_inv :: "StreamReassembler \<Rightarrow> bool" where
  "sr_inv r \<longleftrightarrow> bs_ok (sr_output r) \<and> bs_capacity (sr_output r) = sr_capacity r \<and>
     bs_bytes_written (sr_output r) = sr_first_unassembled r \<and>
     segs_ok (sr_unassembled_segments r) \<and>
     length (bs_buffer (sr_output r)) + stored (sr_unassembled_segments r) \<le> sr_capacity r"

definition sr_ok :: "StreamReassembler \<Rightarrow> bool" where
  "sr_ok r \<longleftrightarrow> sr_inv r \<and> (\<forall>x\<in>set (sr_unassembled_segments r). sr_first_unassembled r < fst x)"

lemma sr_invD:
  assumes "sr_inv r"
  shows "bs_ok (sr_output r)" "bs_capacity (sr_output r) = sr_capacity r"
    "bs_bytes_written (sr_output r) = sr_first_unassembled r"
    "segs_ok (sr_unassembled_segments r)"
    "length (bs_buffer (sr_output r)) + stored (sr_unassembled_segments r) \<le> sr_capacity r"
    "sr_capacity r < two64" "sr_first_unassembled r < two64"
    "sr_first_unassembled r = bs_bytes_read (sr_output r) + length (bs_buffer (sr_output r))"
    "stored (sr_unassembled_segments r) < two64"
  using assms by (auto simp: sr_inv_def bs_ok_def)

lemma sr_ok_inv: "sr_ok r \<Longrightarrow> sr_inv r"
  by (simp add: sr_ok_def)

lemma sr_ok_new: "capacity < two64 \<Longrightarrow> sr_ok (sr_new capacity)"
  by (auto simp: sr_ok_def sr_inv_def sr_new_def bs_ok_new) (simp_all add: bs_new_def)

text \<open>The room computed by \<open>truncate_data\<close>: never more than what is free, and exactly what is
  free for data that continues the output.\<close>

lemma sr_available_eq:
  assumes "sr_inv r"
  shows "sub64 (sub64 (sr_capacity r) (bs_buffer_size (sr_output r))) (sr_unassembled_bytes r)
    = sr_capacity r - length (bs_buffer (sr_output r)) - stored (sr_unassembled_segments r)"
  using sr_invD[OF assms] by (simp add: bs_buffer_size_def no_wrap sr_unassembled_bytes_eq)

lemma sr_window_eq:
  assumes "sr_inv r"
  shows "sub64 (add64 (bs_bytes_read (sr_output r)) (sr_capacity r)) (sr_first_unassembled r)
    = sr_capacity r - length (bs_buffer (sr_output r))"
proof (cases "bs_bytes_read (sr_output r) + sr_capacity r < two64")
  case True
  then show ?thesis using sr_invD[OF assms] by (simp add: no_wrap)
next
  case False
  then have "add64 (bs_bytes_read (sr_output r)) (sr_capacity r)
      = bs_bytes_read (sr_output r) + sr_capacity r - two64"
    using sr_invD[OF assms] by (simp add: add64_def mod_if)
  then show ?thesis using sr_invD[OF assms] False by (simp add: sub64_wraps)
qed

lemma sr_truncate_take:
  assumes "sr_inv r"
  obtains n where "sr_truncate_data r d i = take n d"
    "n \<le> sr_capacity r - length (bs_buffer (sr_output r)) - stored (sr_unassembled_segments r)"
    "n \<le> length d"
  unfolding sr_truncate_data_def Let_def sr_available_eq[OF assms] substr_def by auto

lemma sr_truncate_front:
  assumes "sr_inv r"
  shows "sr_truncate_data r d (sr_first_unassembled r) =
    take (sr_capacity r - length (bs_buffer (sr_output r)) - stored (sr_unassembled_segments r)) d"
proof -
  have e: "min (min (length d) (c - b)) (c - b - s) = min (c - b - s) (length d)" for c b s :: nat
    by arith
  show ?thesis
    unfolding sr_truncate_data_def Let_def sr_available_eq[OF assms] sr_window_eq[OF assms] substr_def e
    by simp
qed

section \<open>Storing a segment\<close>

lemma om_insert_front: "\<forall>x\<in>set m. k < fst x \<Longrightarrow> om_insert k v m = (k, v) # m"
  by (cases m) auto

lemma segs_ok_insert:
  "segs_ok m \<Longrightarrow> v \<noteq> [] \<Longrightarrow> k + length v < two64 \<Longrightarrow>
   \<forall>x\<in>set m. fst x + length (snd x) \<le> k \<or> k + length v \<le> fst x \<Longrightarrow>
   segs_ok (om_insert k v m) \<and> set (om_insert k v m) = insert (k, v) (set m) \<and>
   stored (om_insert k v m) = length v + stored m"
  by (induction k v m rule: om_insert.induct) (auto simp: segs_ok_Cons neq_Nil_conv)

lemma agrees_subset: "set kept \<subseteq> set segs \<Longrightarrow> agrees S segs \<Longrightarrow> agrees S kept"
  by (auto simp: agrees_def)

text \<open>\<open>sr_insert_segment\<close> keeps what the loop leaves and adds what \<open>truncate_data\<close> lets pass of the
  merged data.\<close>

lemma sr_insert_segment_eq:
  assumes "sr_inv r" "d \<noteq> []" "i + length d < two64"
  obtains kept d' i' where "loop_post (sr_unassembled_segments r) d i kept d' i'"
    "i' \<in> insert i (om_keys (sr_unassembled_segments r))"
    "sr_inv (r\<lparr>sr_unassembled_segments := kept\<rparr>)"
    "sr_insert_segment r d i =
       (let r' = r\<lparr>sr_unassembled_segments := kept\<rparr>; t = sr_truncate_data r' d' i'
        in if t = [] then r' else r'\<lparr>sr_unassembled_segments := om_insert i' t kept\<rparr>)"
proof -
  have e: "sub64 (add64 i (length d)) 1 = i + length d - 1"
    using assms by (cases d) (simp_all add: no_wrap)
  obtain kept d' i' where
    l: "sr_insert_loop (sr_unassembled_segments r) d i (i + length d - 1) = (kept, d', i')"
    by (metis prod_cases3)
  note post = insert_loop_spec[OF sr_invD(4)[OF assms(1)] assms(2,3) l]
  then have "sr_inv (r\<lparr>sr_unassembled_segments := kept\<rparr>)"
    using assms(1) by (simp add: sr_inv_def loop_post_def)
  moreover have "sr_insert_segment r d i =
       (let r' = r\<lparr>sr_unassembled_segments := kept\<rparr>; t = sr_truncate_data r' d' i'
        in if t = [] then r' else r'\<lparr>sr_unassembled_segments := om_insert i' t kept\<rparr>)"
    unfolding sr_insert_segment_def e l Let_def
    by (simp add: sr_truncate_data_def Let_def substr_def)
  ultimately show thesis using that post sr_insert_loop_keys[OF l] by blast
qed

lemma positions_take: "n \<le> length d \<Longrightarrow> positions i (take n d) \<subseteq> positions i d"
  by (auto simp: positions_def)

lemma sr_insert_segment_spec:
  assumes "sr_inv r" "d \<noteq> []" "i + length d < two64"
  shows "sr_inv (sr_insert_segment r d i)"
    and "sr_output (sr_insert_segment r d i) = sr_output r"
      "sr_first_unassembled (sr_insert_segment r d i) = sr_first_unassembled r"
      "sr_capacity (sr_insert_segment r d i) = sr_capacity r"
      "sr_eof_index (sr_insert_segment r d i) = sr_eof_index r"
    and "covered (sr_unassembled_segments (sr_insert_segment r d i))
      \<subseteq> covered (sr_unassembled_segments r) \<union> positions i d"
    and "agrees S (sr_unassembled_segments r) \<Longrightarrow> slice_at S i d \<Longrightarrow>
      agrees S (sr_unassembled_segments (sr_insert_segment r d i))"
proof -
  obtain kept d' i' where post: "loop_post (sr_unassembled_segments r) d i kept d' i'"
    and inv: "sr_inv (r\<lparr>sr_unassembled_segments := kept\<rparr>)"
    and eq: "sr_insert_segment r d i =
       (let r' = r\<lparr>sr_unassembled_segments := kept\<rparr>; t = sr_truncate_data r' d' i'
        in if t = [] then r' else r'\<lparr>sr_unassembled_segments := om_insert i' t kept\<rparr>)"
    by (rule sr_insert_segment_eq[OF assms])
  obtain n where n: "sr_truncate_data (r\<lparr>sr_unassembled_segments := kept\<rparr>) d' i' = take n d'"
    "n \<le> sr_capacity r - length (bs_buffer (sr_output r)) - stored kept" "n \<le> length d'"
    using sr_truncate_take[OF inv, of d' i'] by auto
  show "sr_output (sr_insert_segment r d i) = sr_output r"
    "sr_first_unassembled (sr_insert_segment r d i) = sr_first_unassembled r"
    "sr_capacity (sr_insert_segment r d i) = sr_capacity r"
    "sr_eof_index (sr_insert_segment r d i) = sr_eof_index r"
    by (simp_all add: eq Let_def)
  show "sr_inv (sr_insert_segment r d i)"
    "covered (sr_unassembled_segments (sr_insert_segment r d i))
      \<subseteq> covered (sr_unassembled_segments r) \<union> positions i d"
    "agrees S (sr_unassembled_segments r) \<Longrightarrow> slice_at S i d \<Longrightarrow>
      agrees S (sr_unassembled_segments (sr_insert_segment r d i))"
  proof (atomize (full), cases "take n d' = []")
    case True
    then have "sr_insert_segment r d i = r\<lparr>sr_unassembled_segments := kept\<rparr>"
      unfolding eq Let_def n(1) by simp
    then show "sr_inv (sr_insert_segment r d i) \<and>
        covered (sr_unassembled_segments (sr_insert_segment r d i))
          \<subseteq> covered (sr_unassembled_segments r) \<union> positions i d \<and>
        (agrees S (sr_unassembled_segments r) \<longrightarrow> slice_at S i d \<longrightarrow>
          agrees S (sr_unassembled_segments (sr_insert_segment r d i)))"
      using inv post by (auto simp: loop_post_def intro: agrees_subset)
  next
    case False
    have "d' \<noteq> []" using False by auto
    with post have fit: "i' + length (take n d') < two64"
      "\<forall>x\<in>set kept. fst x + length (snd x) \<le> i' \<or> i' + length (take n d') \<le> fst x"
      using n(3) by (auto simp: loop_post_def)
    note ins = segs_ok_insert[OF sr_invD(4)[OF inv, simplified] False fit]
    have "sr_insert_segment r d i = r\<lparr>sr_unassembled_segments := om_insert i' (take n d') kept\<rparr>"
      unfolding eq Let_def n(1) using False by simp
    moreover have "covered (om_insert i' (take n d') kept) = positions i' (take n d') \<union> covered kept"
      using ins by (simp add: covered_def)
    moreover have "agrees S (om_insert i' (take n d') kept)
        = (slice_at S i' (take n d') \<and> agrees S kept)"
      using ins by (simp add: agrees_def)
    ultimately show "sr_inv (sr_insert_segment r d i) \<and>
        covered (sr_unassembled_segments (sr_insert_segment r d i))
          \<subseteq> covered (sr_unassembled_segments r) \<union> positions i d \<and>
        (agrees S (sr_unassembled_segments r) \<longrightarrow> slice_at S i d \<longrightarrow>
          agrees S (sr_unassembled_segments (sr_insert_segment r d i)))"
      using inv ins post n(2,3) positions_take[OF n(3), of i'] \<open>d' \<noteq> []\<close>
      by (auto simp: sr_inv_def loop_post_def intro: agrees_subset slice_at_take)
  qed
qed

section \<open>Assembling\<close>

lemma sr_insert_segment_front:
  assumes "sr_inv r" "d \<noteq> []" "i = sr_first_unassembled r" "i + length d < two64"
    and "\<forall>x\<in>set (sr_unassembled_segments r). i + length d \<le> fst x"
    and "length (bs_buffer (sr_output r)) + stored (sr_unassembled_segments r) + length d
      \<le> sr_capacity r"
  shows "sr_insert_segment r d i =
      r\<lparr>sr_unassembled_segments := (i, d) # sr_unassembled_segments r\<rparr>"
    and "fst (sr_insert_loop (sr_unassembled_segments r) d i (sub64 (add64 i (length d)) 1))
      = sr_unassembled_segments r"
proof -
  have e: "sub64 (add64 i (length d)) 1 = i + length d - 1"
    using assms by (cases d) (simp_all add: no_wrap)
  have l: "sr_insert_loop (sr_unassembled_segments r) d i (sub64 (add64 i (length d)) 1)
      = (sr_unassembled_segments r, d, i)"
    unfolding e using assms sr_invD(4)[OF assms(1)] by (intro insert_loop_break) (auto simp: neq_Nil_conv)
  then show "fst (sr_insert_loop (sr_unassembled_segments r) d i (sub64 (add64 i (length d)) 1))
      = sr_unassembled_segments r" by simp
  have "sr_truncate_data r d i = d"
    unfolding assms(3) sr_truncate_front[OF assms(1)] using assms(6) by simp
  moreover have "om_insert i d (sr_unassembled_segments r) = (i, d) # sr_unassembled_segments r"
    using assms(2,5) by (intro om_insert_front) (auto simp: neq_Nil_conv)
  ultimately show "sr_insert_segment r d i =
      r\<lparr>sr_unassembled_segments := (i, d) # sr_unassembled_segments r\<rparr>"
    unfolding sr_insert_segment_def l Let_def using assms(2) by simp
qed

text \<open>What \<open>try_assemble\<close> computes: the segments with the bytes before \<open>fu\<close> cut off.\<close>

fun trim_segs :: "nat \<Rightarrow> (nat \<times> bytes) list \<Rightarrow> (nat \<times> bytes) list" where
  "trim_segs fu [] = []"
| "trim_segs fu ((s, sd) # rest) =
     (if s < fu then (if fu < s + length sd then (fu, drop (fu - s) sd) # rest else trim_segs fu rest)
      else (s, sd) # rest)"

lemma segs_ok_om_ok: "segs_ok segs \<Longrightarrow> om_ok segs"
  unfolding segs_ok_def om_ok_def sorted_wrt_map
  by (elim conjE, erule sorted_wrt_mono_rel[rotated]) (fastforce simp: neq_Nil_conv)

lemma sr_try_loop_idle:
  assumes "\<forall>k\<in>om_keys (sr_unassembled_segments r). sr_first_unassembled r \<le> k"
  shows "(\<forall>k. it = Some k \<longrightarrow> k \<in> om_keys (sr_unassembled_segments r)) \<Longrightarrow> sr_try_loop r it = Some r"
  using assms
proof (induction r it rule: sr_try_loop.induct)
  case (2 r k)
  then obtain d where d: "om_find k (sr_unassembled_segments r) = Some d" "\<not> k < sr_first_unassembled r"
    using om_find_None[of k "sr_unassembled_segments r"] by fastforce
  with "2.IH"(3)[OF d] "2.prems" show ?case by (auto dest: om_next_greater)
qed simp

lemma om_first:
  assumes "segs_ok ((s, sd) # rest)"
  shows "om_find s ((s, sd) # rest) = Some sd" "om_next s ((s, sd) # rest) = om_begin rest"
    "om_erase s ((s, sd) # rest) = rest"
proof -
  have gt: "\<forall>x\<in>set rest. s < fst x" using assms by (auto simp: segs_ok_Cons neq_Nil_conv)
  then show "om_next s ((s, sd) # rest) = om_begin rest"
    by (cases rest) (auto simp: om_next_def om_begin_def)
  show "om_erase s ((s, sd) # rest) = rest" using gt by (auto simp: om_erase_def intro!: filter_True)
qed (simp add: om_find_def)

lemma sr_try_assemble_eq:
  "sr_inv r \<Longrightarrow> sr_try_assemble r =
     Some (r\<lparr>sr_unassembled_segments := trim_segs (sr_first_unassembled r) (sr_unassembled_segments r)\<rparr>)"
proof (induction "sr_unassembled_segments r" arbitrary: r)
  case Nil
  then show ?case by (cases r) (simp add: sr_try_assemble_def om_begin_def)
next
  case (Cons x rest)
  obtain s sd where x: "x = (s, sd)" by fastforce
  note segs = Cons.hyps(2)[symmetric, unfolded x]
  let ?fu = "sr_first_unassembled r" and ?r1 = "r\<lparr>sr_unassembled_segments := rest\<rparr>"
  have ok: "segs_ok ((s, sd) # rest)" using sr_invD(4)[OF Cons.prems] by (simp add: segs)
  have inv1: "sr_inv ?r1" using Cons.prems by (auto simp: sr_inv_def segs segs_ok_Cons)
  have first: "om_begin ((s, sd) # rest) = Some s" by (simp add: om_begin_def)
  consider "?fu \<le> s" | "s < ?fu" "s + length sd \<le> ?fu" | "s < ?fu" "?fu < s + length sd" by linarith
  then show ?case
  proof cases
    case 1
    have "\<forall>k\<in>om_keys (sr_unassembled_segments r). ?fu \<le> k"
      using 1 ok by (auto simp: segs om_keys_def segs_ok_Cons)
    then have "sr_try_loop r (Some s) = Some r"
      by (rule sr_try_loop_idle) (simp add: segs om_keys_def)
    then show ?thesis using 1 by (simp add: sr_try_assemble_def segs first)
  next
    case 2
    have "sr_try_assemble r = sr_try_assemble ?r1"
      using 2 ok sr_invD(7)[OF Cons.prems]
      by (simp add: sr_try_assemble_def segs first om_first[OF ok] no_wrap segs_ok_Cons Let_def)
    then show ?thesis using Cons.hyps(1)[of ?r1] inv1 2 by (simp add: segs)
  next
    case 3
    let ?d = "drop (?fu - s) sd"
    have d: "substr sd (sub64 ?fu s) (length sd) = ?d"
      using 3 sr_invD(7)[OF Cons.prems] by (simp add: no_wrap substr_def)
    have front: "?d \<noteq> []" "?fu = sr_first_unassembled ?r1" "?fu + length ?d < two64"
      "\<forall>y\<in>set (sr_unassembled_segments ?r1). ?fu + length ?d \<le> fst y"
      "length (bs_buffer (sr_output ?r1)) + stored (sr_unassembled_segments ?r1) + length ?d
        \<le> sr_capacity ?r1"
      using 3 ok sr_invD(5)[OF Cons.prems] by (auto simp: segs_ok_Cons segs)
    note ins = sr_insert_segment_front[OF inv1 front]
    let ?r2 = "r\<lparr>sr_unassembled_segments := (?fu, ?d) # rest\<rparr>"
    have "sr_try_loop ?r2 (om_begin rest) = Some ?r2"
      using ok 3 by (intro sr_try_loop_idle)
        (auto simp: om_keys_def segs_ok_Cons om_begin_def split: list.splits)
    moreover have "sr_iterator_kept ?r1 ?d ?fu (om_begin rest)"
      unfolding sr_iterator_kept_def ins(2)
      by (auto simp: om_begin_def om_keys_def split: list.splits option.splits)
    ultimately show ?thesis
      using 3 ok ins(1) d by (simp add: sr_try_assemble_def segs first om_first[OF ok] no_wrap segs_ok_Cons)
  qed
qed

lemma trim_segs_spec:
  assumes "segs_ok segs"
  shows "segs_ok (trim_segs fu segs)" "stored (trim_segs fu segs) \<le> stored segs"
    "{..<fu} \<union> covered (trim_segs fu segs) = {..<fu} \<union> covered segs"
    "agrees S segs \<Longrightarrow> agrees S (trim_segs fu segs)"
    "\<forall>x\<in>set (trim_segs fu segs). fu \<le> fst x"
  using assms
proof (induction fu segs rule: trim_segs.induct)
  case (2 fu s sd rest)
  {
    case 1
    then show ?case using 2 by (auto simp: segs_ok_Cons)
  next
    case 2
    then show ?case using "2.IH" by (auto simp: segs_ok_Cons)
  next
    case 3
    have "s + length sd \<le> fu \<Longrightarrow> positions s sd \<subseteq> {..<fu}"
      "s < fu \<Longrightarrow> {..<fu} \<union> positions fu (drop (fu - s) sd) = {..<fu} \<union> positions s sd"
      by (auto simp: positions_def)
    with 3 show ?case using "2.IH"(3) by (auto simp: segs_ok_Cons)
  next
    case 4
    have "s < fu \<Longrightarrow> fu < s + length sd \<Longrightarrow> slice_at S s sd \<Longrightarrow> slice_at S fu (drop (fu - s) sd)"
      using slice_at_drop[of S s sd "fu - s"] by simp
    with 4 show ?case using "2.IH"(4) by (auto simp: segs_ok_Cons)
  next
    case 5
    then show ?case using "2.IH"(5) by (auto simp: segs_ok_Cons)
  }
qed simp_all

text \<open>Writing bytes that fit to the output.\<close>

lemma sr_write_inv:
  assumes "sr_inv r" "sr_first_unassembled r + length d < two64" "segs_ok segs"
    and "length (bs_buffer (sr_output r)) + length d + stored segs \<le> sr_capacity r"
  shows "snd (bs_write (sr_output r) d) = length d"
    and "sr_inv (r\<lparr>sr_output := fst (bs_write (sr_output r) d),
        sr_first_unassembled := sr_first_unassembled r + length d, sr_unassembled_segments := segs\<rparr>)"
    and "bs_bytes_read (fst (bs_write (sr_output r) d)) = bs_bytes_read (sr_output r)"
    and "bs.tracks S (sr_output r) \<Longrightarrow> slice_at S (sr_first_unassembled r) d \<Longrightarrow>
      bs.tracks S (fst (bs_write (sr_output r) d))"
proof -
  note inv = sr_invD[OF assms(1)]
  have lim: "bs_bytes_written (sr_output r) + length d < two64" using inv assms(2) by simp
  have fit: "length (bs_buffer (sr_output r)) + length d \<le> bs_capacity (sr_output r)"
    using inv assms(4) by simp
  note w = bs.put_fits[OF inv(1) lim fit]
  show "snd (bs_write (sr_output r) d) = length d" by (rule w(1))
  show "sr_inv (r\<lparr>sr_output := fst (bs_write (sr_output r) d),
        sr_first_unassembled := sr_first_unassembled r + length d, sr_unassembled_segments := segs\<rparr>)"
    using bs.put_invar[OF inv(1) lim] bs.put_capacity[OF inv(1) lim] bs.put_total_in[OF inv(1) lim]
      w inv(2,3) assms(3,4) by (simp add: sr_inv_def)
  show "bs_bytes_read (fst (bs_write (sr_output r) d)) = bs_bytes_read (sr_output r)"
    by (rule bs.put_total_out[OF inv(1) lim])
  show "bs.tracks S (sr_output r) \<Longrightarrow> slice_at S (sr_first_unassembled r) d \<Longrightarrow>
      bs.tracks S (fst (bs_write (sr_output r) d))"
    using bs.put_tracks[OF inv(1) lim] inv(3) by simp
qed

text \<open>Contract of the assembly loop: it always returns (no iterator is ever used after its element
  was erased), what is stored or delivered stays the same set of positions, and it goes as far as
  it can: afterwards every stored segment is beyond a gap.\<close>

definition assembles :: "StreamReassembler \<Rightarrow> StreamReassembler \<Rightarrow> bool" where
  "assembles r r' \<longleftrightarrow> sr_ok r' \<and> sr_capacity r' = sr_capacity r \<and> sr_eof_index r' = sr_eof_index r \<and>
     bs_bytes_read (sr_output r') = bs_bytes_read (sr_output r) \<and>
     bs_input_ended (sr_output r') = bs_input_ended (sr_output r) \<and>
     bs_error (sr_output r') = bs_error (sr_output r) \<and>
     sr_first_unassembled r \<le> sr_first_unassembled r' \<and>
     {..<sr_first_unassembled r'} \<union> covered (sr_unassembled_segments r')
       = {..<sr_first_unassembled r} \<union> covered (sr_unassembled_segments r) \<and>
     (\<forall>S. bs.tracks S (sr_output r) \<longrightarrow> agrees S (sr_unassembled_segments r) \<longrightarrow>
        bs.tracks S (sr_output r') \<and> agrees S (sr_unassembled_segments r'))"

lemma sr_inv_trim:
  "sr_inv r \<Longrightarrow>
     sr_inv (r\<lparr>sr_unassembled_segments := trim_segs fu (sr_unassembled_segments r)\<rparr>)"
  using trim_segs_spec(1,2)[of "sr_unassembled_segments r" fu] by (auto simp: sr_inv_def)

lemma sr_assemble_loop_spec:
  "sr_inv r \<Longrightarrow> \<exists>r'. sr_assemble_loop r = Some r' \<and> assembles r r'"
proof (induction r rule: sr_assemble_loop.induct)
  case (1 r)
  let ?fu = "sr_first_unassembled r"
  let ?segs = "trim_segs ?fu (sr_unassembled_segments r)"
  let ?r1 = "r\<lparr>sr_unassembled_segments := ?segs\<rparr>"
  note trimmed = sr_try_assemble_eq[OF 1(2)]
  note inv1 = sr_inv_trim[OF 1(2), of ?fu]
  note trim = trim_segs_spec[OF sr_invD(4)[OF 1(2)], where fu = ?fu]
  show ?case
  proof (cases "om_find ?fu ?segs")
    case None
    then have "?fu \<notin> om_keys ?segs" by (simp add: om_find_None)
    then have "\<forall>x\<in>set ?segs. ?fu < fst x" using trim(5) by (force simp: om_keys_def)
    then show ?thesis
      using None inv1 trim by (subst sr_assemble_loop.simps) (auto simp: trimmed assembles_def sr_ok_def)
  next
    case (Some d)
    then obtain rest where segs: "?segs = (?fu, d) # rest"
    proof (cases ?segs)
      case (Cons x rest)
      obtain s sd where x: "x = (s, sd)" by fastforce
      have "s = ?fu"
        using Some trim(1,5) unfolding Cons x
        by (auto simp: om_find_def segs_ok_Cons neq_Nil_conv split: if_splits dest!: map_of_SomeD bspec)
      with Some show ?thesis by (auto simp: Cons x om_find_def intro: that)
    qed (simp add: om_find_def)
    have ok: "segs_ok ((?fu, d) # rest)" using trim(1) by (simp add: segs)
    have fit: "sr_first_unassembled ?r1 + length d < two64" "segs_ok rest"
      "length (bs_buffer (sr_output ?r1)) + length d + stored rest \<le> sr_capacity ?r1"
      using ok sr_invD(5)[OF inv1] by (auto simp: segs_ok_Cons segs)
    note w = sr_write_inv[OF inv1 fit, simplified]
    let ?r2 = "r\<lparr>sr_output := fst (bs_write (sr_output r) d), sr_first_unassembled := ?fu + length d,
      sr_unassembled_segments := rest\<rparr>"
    have step2: "?r1\<lparr>sr_output := fst (bs_write (sr_output r) d),
        sr_first_unassembled := add64 ?fu (snd (bs_write (sr_output r) d)),
        sr_unassembled_segments := om_erase ?fu ?segs\<rparr> = ?r2"
      using fit(1) unfolding segs om_first[OF ok] by (simp add: w(1) no_wrap)
    have step: "sr_assemble_loop r = sr_assemble_loop ?r2"
      unfolding sr_assemble_loop.simps[of r] using Some step2 by (simp add: trimmed split_beta)
    have "\<exists>r'. sr_assemble_loop ?r2 = Some r' \<and> assembles ?r2 r'"
      using "1.IH"[OF trimmed, of d "bs_write (sr_output r) d"
          "fst (bs_write (sr_output r) d)" "snd (bs_write (sr_output r) d)"]
        Some w(2) step2 by simp
    then obtain r' where r': "sr_assemble_loop ?r2 = Some r'" "assembles ?r2 r'" by blast
    have "{..<?fu + length d} = {..<?fu} \<union> positions ?fu d" by (auto simp: positions_def)
    then have cov: "{..<?fu + length d} \<union> covered rest = {..<?fu} \<union> covered (sr_unassembled_segments r)"
      using trim(3) unfolding segs covered_Cons by (simp add: Un_assoc)
    have "bs.tracks S (sr_output r') \<and> agrees S (sr_unassembled_segments r')"
      if "bs.tracks S (sr_output r)" "agrees S (sr_unassembled_segments r)" for S
      using that r'(2) w(4)[of S] trim(4)[of S] by (simp add: assembles_def segs)
    then have "assembles r r'" using r'(2) cov w(3) by (simp add: assembles_def)
    then show ?thesis using step r'(1) by simp
  qed
qed

section \<open>Receiving a substring\<close>

text \<open>The push in plain arithmetic: \<open>sr_accept\<close> is the work on the bytes from the first
  unassembled one on, \<open>sr_finish\<close> the end-of-stream test after it.\<close>

definition sr_finish :: "StreamReassembler \<Rightarrow> StreamReassembler" where
  "sr_finish r = (if sr_empty r \<and> sr_first_unassembled r = sr_eof_index r
     then r\<lparr>sr_output := bs_end_input (sr_output r)\<rparr> else r)"

definition sr_mark_eof :: "StreamReassembler \<Rightarrow> bytes \<Rightarrow> nat \<Rightarrow> bool \<Rightarrow> StreamReassembler" where
  "sr_mark_eof r d i eof = (if eof then r\<lparr>sr_eof_index := i + length d\<rparr> else r)"

definition sr_room :: "StreamReassembler \<Rightarrow> nat" where
  "sr_room r = sr_capacity r - length (bs_buffer (sr_output r)) - stored (sr_unassembled_segments r)"

definition sr_append :: "StreamReassembler \<Rightarrow> bytes \<Rightarrow> StreamReassembler" where
  "sr_append r d = r\<lparr>sr_output := fst (bs_write (sr_output r) d),
     sr_first_unassembled := sr_first_unassembled r + length d\<rparr>"

lemma sr_mark_eof_fields [simp]:
  "sr_output (sr_mark_eof r d i e) = sr_output r"
  "sr_capacity (sr_mark_eof r d i e) = sr_capacity r"
  "sr_first_unassembled (sr_mark_eof r d i e) = sr_first_unassembled r"
  "sr_unassembled_segments (sr_mark_eof r d i e) = sr_unassembled_segments r"
  "sr_eof_index (sr_mark_eof r d i e) = (if e then i + length d else sr_eof_index r)"
  "sr_inv (sr_mark_eof r d i e) = sr_inv r" "sr_ok (sr_mark_eof r d i e) = sr_ok r"
  "sr_room (sr_mark_eof r d i e) = sr_room r"
  by (auto simp: sr_mark_eof_def sr_inv_def sr_ok_def sr_room_def)

lemma sr_finish_fields [simp]:
  "sr_capacity (sr_finish r) = sr_capacity r"
  "sr_first_unassembled (sr_finish r) = sr_first_unassembled r"
  "sr_unassembled_segments (sr_finish r) = sr_unassembled_segments r"
  "sr_eof_index (sr_finish r) = sr_eof_index r"
  "bs_buffer (sr_output (sr_finish r)) = bs_buffer (sr_output r)"
  "bs_bytes_read (sr_output (sr_finish r)) = bs_bytes_read (sr_output r)"
  "bs_bytes_written (sr_output (sr_finish r)) = bs_bytes_written (sr_output r)"
  "bs_error (sr_output (sr_finish r)) = bs_error (sr_output r)"
  "sr_inv (sr_finish r) = sr_inv r" "sr_ok (sr_finish r) = sr_ok r"
  "bs.tracks S (sr_output (sr_finish r)) = bs.tracks S (sr_output r)"
  "bs_input_ended (sr_output (sr_finish r)) \<longleftrightarrow> bs_input_ended (sr_output r) \<or>
     sr_empty r \<and> sr_first_unassembled r = sr_eof_index r"
  by (auto simp: sr_finish_def sr_inv_def sr_ok_def bs.tracks_def bs_end_input_def bs_ok_def)

lemma sr_push_unfold:
  assumes "sr_first_unassembled r < two64" "i + length d < two64"
  shows "sr_push_substring r d i eof =
    (let r0 = sr_mark_eof r d i eof; start = sr_first_unassembled r - i in
     if length d \<le> start then
       Some (if sr_empty r0 \<and> sr_eof_index r0 \<le> sr_first_unassembled r
             then r0\<lparr>sr_output := bs_end_input (sr_output r0)\<rparr> else r0)
     else map_option sr_finish
       (if i \<le> sr_first_unassembled r then
          (case bs_write (sr_output r)
                  (sr_truncate_data r0 (drop start d) (sr_first_unassembled r)) of
             (output, written) \<Rightarrow> sr_assemble_loop
               (r0\<lparr>sr_output := output,
                   sr_first_unassembled := add64 (sr_first_unassembled r) written\<rparr>))
        else Some (sr_insert_segment r0 d i)))"
proof -
  let ?fu = "sr_first_unassembled r" and ?r0 = "sr_mark_eof r d i eof"
  have mark: "(if eof then r\<lparr>sr_eof_index := add64 i (length d)\<rparr> else r) = ?r0"
    using assms(2) by (simp add: sr_mark_eof_def add64_id)
  have start: "(if i < ?fu then sub64 ?fu i else 0) = ?fu - i"
    using assms(1) by (simp add: sub64_id)
  have adj: "add64 i (?fu - i) = (if i \<le> ?fu then ?fu else i)" if "\<not> length d \<le> ?fu - i"
    using that assms by (simp add: add64_id)
  show ?thesis
  proof (cases "length d \<le> ?fu - i")
    case True
    then show ?thesis
      unfolding sr_push_substring_def mark Let_def sr_mark_eof_fields start by (simp only: if_True if_distrib[of Some])
  next
    case False
    then show ?thesis
      unfolding sr_push_substring_def mark Let_def sr_mark_eof_fields start adj[OF False]
      by (cases "i \<le> ?fu")
        (simp_all add: substr_def sr_finish_def[abs_def] split_beta option.case_eq_if map_option_case)
  qed
qed

lemma sr_push_old:
  assumes "sr_ok r" "i + length d < two64" "i + length d \<le> sr_first_unassembled r \<or> d = []"
  shows "sr_push_substring r d i eof =
    (let r0 = sr_mark_eof r d i eof in
     Some (if sr_empty r0 \<and> sr_eof_index r0 \<le> sr_first_unassembled r
           then r0\<lparr>sr_output := bs_end_input (sr_output r0)\<rparr> else r0))"
proof -
  have "length d \<le> sr_first_unassembled r - i" using assms(3) by auto
  then show ?thesis
    using sr_push_unfold[OF sr_invD(7)[OF sr_ok_inv[OF assms(1)]] assms(2), of eof] by (simp add: Let_def)
qed

lemma sr_push_ahead:
  assumes "sr_ok r" "i + length d < two64" "d \<noteq> []" "sr_first_unassembled r < i"
  shows "sr_push_substring r d i eof
    = Some (sr_finish (sr_insert_segment (sr_mark_eof r d i eof) d i))"
  using assms(3,4) sr_push_unfold[OF sr_invD(7)[OF sr_ok_inv[OF assms(1)]] assms(2), of eof]
  by (simp add: Let_def)

lemma sr_append_spec:
  assumes "sr_ok r" "sr_first_unassembled r + length d < two64" "length d \<le> sr_room r"
  shows "snd (bs_write (sr_output r) d) = length d" "sr_inv (sr_append r d)"
    "bs_bytes_read (sr_output (sr_append r d)) = bs_bytes_read (sr_output r)"
    "bs.tracks S (sr_output r) \<Longrightarrow> slice_at S (sr_first_unassembled r) d \<Longrightarrow>
      bs.tracks S (sr_output (sr_append r d))"
proof -
  note inv = sr_ok_inv[OF assms(1)]
  have fit: "length (bs_buffer (sr_output r)) + length d + stored (sr_unassembled_segments r)
      \<le> sr_capacity r"
    using assms(3) sr_invD(5)[OF inv] by (simp add: sr_room_def)
  note w = sr_write_inv[OF inv assms(2) sr_invD(4)[OF inv] fit]
  show "snd (bs_write (sr_output r) d) = length d"
    "bs_bytes_read (sr_output (sr_append r d)) = bs_bytes_read (sr_output r)"
    "bs.tracks S (sr_output r) \<Longrightarrow> slice_at S (sr_first_unassembled r) d \<Longrightarrow>
      bs.tracks S (sr_output (sr_append r d))"
    using w by (simp_all add: sr_append_def)
  show "sr_inv (sr_append r d)" using w(2) by (simp add: sr_append_def)
qed

lemma sr_push_next:
  assumes "sr_ok r" "i + length d < two64" "i \<le> sr_first_unassembled r"
    and "sr_first_unassembled r < i + length d"
    and t: "t = take (sr_room r) (drop (sr_first_unassembled r - i) d)"
  shows "sr_push_substring r d i eof
    = map_option sr_finish (sr_assemble_loop (sr_append (sr_mark_eof r d i eof) t))"
proof -
  let ?fu = "sr_first_unassembled r" and ?r0 = "sr_mark_eof r d i eof"
  have fu: "?fu < two64" using sr_invD(7)[OF sr_ok_inv[OF assms(1)]] .
  have inv0: "sr_inv ?r0" using sr_ok_inv[OF assms(1)] by simp
  have trunc: "sr_truncate_data ?r0 (drop (?fu - i) d) ?fu = t"
    using sr_truncate_front[OF inv0, of "drop (?fu - i) d"] by (simp add: t sr_room_def)
  have len: "length t \<le> sr_room r" "?fu + length t < two64" using assms by (auto simp: t)
  have "snd (bs_write (sr_output r) t) = length t"
    using sr_append_spec(1)[OF assms(1) len(2,1)] .
  moreover have "\<not> length d \<le> ?fu - i" using assms(3,4) by linarith
  ultimately show ?thesis
    unfolding sr_push_unfold[OF fu assms(2)] Let_def trunc
    using assms(3) len(2) by (simp add: split_beta sr_append_def add64_id)
qed

text \<open>Contract of a push.\<close>

definition pushes :: "StreamReassembler \<Rightarrow> bytes \<Rightarrow> nat \<Rightarrow> bool \<Rightarrow> StreamReassembler \<Rightarrow> bool" where
  "pushes r d i eof r' \<longleftrightarrow> sr_ok r' \<and> sr_capacity r' = sr_capacity r \<and>
     sr_eof_index r' = (if eof then i + length d else sr_eof_index r) \<and>
     bs_bytes_read (sr_output r') = bs_bytes_read (sr_output r) \<and>
     bs_error (sr_output r') = bs_error (sr_output r) \<and>
     sr_first_unassembled r \<le> sr_first_unassembled r' \<and>
     {..<sr_first_unassembled r'} \<union> covered (sr_unassembled_segments r')
       \<subseteq> {..<sr_first_unassembled r} \<union> covered (sr_unassembled_segments r) \<union> positions i d \<and>
     (\<forall>S. bs.tracks S (sr_output r) \<longrightarrow> agrees S (sr_unassembled_segments r) \<longrightarrow> slice_at S i d \<longrightarrow>
        bs.tracks S (sr_output r') \<and> agrees S (sr_unassembled_segments r')) \<and>
     (bs_input_ended (sr_output r') \<longrightarrow> bs_input_ended (sr_output r) \<or>
        sr_unassembled_segments r' = [] \<and> sr_eof_index r' \<le> sr_first_unassembled r')"

lemma sr_append_fields [simp]:
  "sr_capacity (sr_append r d) = sr_capacity r"
  "sr_first_unassembled (sr_append r d) = sr_first_unassembled r + length d"
  "sr_unassembled_segments (sr_append r d) = sr_unassembled_segments r"
  "sr_eof_index (sr_append r d) = sr_eof_index r"
  "bs_input_ended (sr_output (sr_append r d)) = bs_input_ended (sr_output r)"
  "bs_error (sr_output (sr_append r d)) = bs_error (sr_output r)"
  by (simp_all add: sr_append_def)

lemma sr_push_old_pushes:
  assumes "sr_ok r" "i + length d < two64" "i + length d \<le> sr_first_unassembled r \<or> d = []"
  shows "\<exists>r'. sr_push_substring r d i eof = Some r' \<and> pushes r d i eof r'"
proof -
  let ?r0 = "sr_mark_eof r d i eof"
  let ?r1 = "?r0\<lparr>sr_output := bs_end_input (sr_output ?r0)\<rparr>"
  have "pushes r d i eof ?r0" using assms(1) by (auto simp: pushes_def)
  moreover have "sr_ok ?r1" using assms(1)
    by (auto simp: sr_ok_def sr_inv_def bs_end_input_def bs_ok_def)
  then have "pushes r d i eof ?r1" if "sr_empty ?r0" "sr_eof_index ?r0 \<le> sr_first_unassembled r"
    using that by (auto simp: pushes_def sr_empty_def bs.tracks_def bs_end_input_def)
  ultimately show ?thesis unfolding sr_push_old[OF assms] Let_def by auto
qed

lemma sr_push_ahead_pushes:
  assumes "sr_ok r" "i + length d < two64" "d \<noteq> []" "sr_first_unassembled r < i"
  shows "\<exists>r'. sr_push_substring r d i eof = Some r' \<and> pushes r d i eof r'"
proof -
  let ?r0 = "sr_mark_eof r d i eof" and ?r1 = "sr_insert_segment (sr_mark_eof r d i eof) d i"
  have "sr_inv ?r0" using sr_ok_inv[OF assms(1)] by simp
  note ins = sr_insert_segment_spec[OF this assms(3,2)]
  have "\<forall>k\<in>insert i (om_keys (sr_unassembled_segments ?r0)). sr_first_unassembled r < k"
    using assms(1,4) by (auto simp: sr_ok_def om_keys_def)
  then have "\<forall>k\<in>om_keys (sr_unassembled_segments ?r1). sr_first_unassembled r < k"
    using sr_insert_segment_keys(2)[of ?r0 d i] by blast
  then have "sr_ok ?r1" using ins(1,3) by (auto simp: sr_ok_def om_keys_def)
  then have "pushes r d i eof (sr_finish ?r1)"
    using ins(2-7) by (auto simp: pushes_def sr_empty_def)
  then show ?thesis using sr_push_ahead[OF assms] by simp
qed

lemma sr_push_next_assembles:
  assumes "sr_ok r" "i + length d < two64" "i \<le> sr_first_unassembled r"
    and "sr_first_unassembled r < i + length d"
    and t: "t = take (sr_room r) (drop (sr_first_unassembled r - i) d)"
  obtains r' where "sr_push_substring r d i eof = Some (sr_finish r')"
    "assembles (sr_append (sr_mark_eof r d i eof) t) r'"
proof -
  let ?r0 = "sr_mark_eof r d i eof"
  have len: "sr_first_unassembled ?r0 + length t < two64" "length t \<le> sr_room ?r0"
    using assms by (auto simp: t)
  have "sr_inv (sr_append ?r0 t)" using assms(1) by (intro sr_append_spec(2) len) simp
  then show thesis using that sr_assemble_loop_spec sr_push_next[OF assms] by fastforce
qed

lemma sr_push_next_pushes:
  assumes "sr_ok r" "i + length d < two64" "i \<le> sr_first_unassembled r"
    and "sr_first_unassembled r < i + length d"
  shows "\<exists>r'. sr_push_substring r d i eof = Some r' \<and> pushes r d i eof r'"
proof -
  define t where t: "t = take (sr_room r) (drop (sr_first_unassembled r - i) d)"
  let ?r0 = "sr_mark_eof r d i eof"
  obtain r' where r': "sr_push_substring r d i eof = Some (sr_finish r')" "assembles (sr_append ?r0 t) r'"
    using sr_push_next_assembles[OF assms t] by blast
  have len: "sr_first_unassembled ?r0 + length t < two64" "length t \<le> sr_room ?r0"
    using assms by (auto simp: t)
  have "sr_ok ?r0" using assms(1) by simp
  note app = sr_append_spec[OF this len]
  have "{..<sr_first_unassembled r + length t} \<subseteq> {..<sr_first_unassembled r} \<union> positions i d"
    using assms by (auto simp: t positions_def)
  moreover have "slice_at S i d \<Longrightarrow> slice_at S (sr_first_unassembled r) t" for S
    using slice_at_take[OF slice_at_drop[of S i d "sr_first_unassembled r - i"]] assms(3,4)
    by (simp add: t)
  ultimately have "pushes r d i eof (sr_finish r')"
    using r'(2) app(3,4) by (auto simp: assembles_def pushes_def sr_empty_def)
  then show ?thesis using r'(1) by blast
qed

lemma sr_push_pushes:
  assumes "sr_ok r" "i + length d < two64"
  shows "\<exists>r'. sr_push_substring r d i eof = Some r' \<and> pushes r d i eof r'"
proof -
  consider "i + length d \<le> sr_first_unassembled r \<or> d = []"
    | "d \<noteq> []" "sr_first_unassembled r < i"
    | "i \<le> sr_first_unassembled r" "sr_first_unassembled r < i + length d" by linarith
  then show ?thesis
    using sr_push_old_pushes[OF assms] sr_push_ahead_pushes[OF assms] sr_push_next_pushes[OF assms]
    by cases
qed

section \<open>Nothing inside the window is lost\<close>

definition sr_in_window :: "StreamReassembler \<Rightarrow> bool" where
  "sr_in_window r \<longleftrightarrow> (\<forall>x\<in>set (sr_unassembled_segments r).
     fst x + length (snd x) \<le> bs_bytes_read (sr_output r) + sr_capacity r)"

lemma covered_finite [simp]: "finite (covered segs)"
  by (simp add: covered_def positions_def)

lemma covered_card:
  assumes "segs_ok kept" "\<forall>x\<in>set kept. fst x + length (snd x) \<le> i \<or> i + length d \<le> fst x"
  shows "card (covered kept \<union> positions i d) = stored kept + length d"
proof -
  have c: "card (covered segs) = stored segs" if "segs_ok segs" for segs
    using that
  proof (induction segs)
    case (Cons x rest)
    obtain s sd where x: "x = (s, sd)" by fastforce
    have "positions s sd \<inter> covered rest = {}"
      using Cons.prems by (fastforce simp: x segs_ok_Cons covered_def positions_def)
    then show ?case using Cons by (simp add: x segs_ok_Cons card_Un_disjoint positions_def)
  qed simp
  have "covered kept \<inter> positions i d = {}" using assms(2) by (fastforce simp: covered_def positions_def)
  then show ?thesis using c[OF assms(1)] by (simp add: card_Un_disjoint positions_def)
qed

lemma covered_window:
  assumes "sr_ok r" "sr_in_window r" "i + length d \<le> bs_bytes_read (sr_output r) + sr_capacity r"
    and "sr_first_unassembled r < i"
  shows "covered (sr_unassembled_segments r) \<union> positions i d
    \<subseteq> {sr_first_unassembled r..<bs_bytes_read (sr_output r) + sr_capacity r}"
proof -
  have "positions (fst x) (snd x)
      \<subseteq> {sr_first_unassembled r..<bs_bytes_read (sr_output r) + sr_capacity r}"
    if "x \<in> set (sr_unassembled_segments r)" for x
    using that assms(1,2) by (force simp: sr_ok_def sr_in_window_def positions_def)
  moreover have "positions i d
      \<subseteq> {sr_first_unassembled r..<bs_bytes_read (sr_output r) + sr_capacity r}"
    using assms(3,4) by (auto simp: positions_def)
  ultimately show ?thesis by (auto simp: covered_def)
qed

lemma sr_insert_segment_window:
  assumes ok: "sr_ok r" and win: "sr_in_window r" and d: "d \<noteq> []" and i: "sr_first_unassembled r < i"
    and le: "i + length d \<le> bs_bytes_read (sr_output r) + sr_capacity r"
    and lim: "bs_bytes_read (sr_output r) + sr_capacity r < two64"
  shows "covered (sr_unassembled_segments (sr_insert_segment r d i))
    = covered (sr_unassembled_segments r) \<union> positions i d"
proof -
  note inv = sr_ok_inv[OF ok]
  have "i + length d < two64" using le lim by linarith
  then obtain kept d' i' where post: "loop_post (sr_unassembled_segments r) d i kept d' i'"
    and inv1: "sr_inv (r\<lparr>sr_unassembled_segments := kept\<rparr>)"
    and eq: "sr_insert_segment r d i =
       (let r' = r\<lparr>sr_unassembled_segments := kept\<rparr>; t = sr_truncate_data r' d' i'
        in if t = [] then r' else r'\<lparr>sr_unassembled_segments := om_insert i' t kept\<rparr>)"
    using sr_insert_segment_eq[OF inv d] by blast
  have cov: "covered kept \<union> positions i' d' = covered (sr_unassembled_segments r) \<union> positions i d"
    using post by (simp add: loop_post_def)
  show ?thesis
  proof (cases "d' = []")
    case True
    then have "sr_insert_segment r d i = r\<lparr>sr_unassembled_segments := kept\<rparr>"
      unfolding eq by (simp add: sr_truncate_data_def Let_def substr_def)
    then show ?thesis using cov True by (simp add: positions_def)
  next
    case False
    let ?edge = "bs_bytes_read (sr_output r) + sr_capacity r"
    have dis: "segs_ok kept" "\<forall>x\<in>set kept. fst x + length (snd x) \<le> i' \<or> i' + length d' \<le> fst x"
      and lim': "i' + length d' < two64"
      using post False by (simp_all add: loop_post_def)
    have sub: "covered kept \<union> positions i' d' \<subseteq> {sr_first_unassembled r..<?edge}"
      unfolding cov by (rule covered_window[OF ok win le i])
    then have "i' + length d' - 1 \<in> {sr_first_unassembled r..<?edge}"
      using False by (auto simp: positions_def neq_Nil_conv)
    then have edge: "i' + length d' \<le> ?edge" by auto
    have "stored kept + length d' \<le> ?edge - sr_first_unassembled r"
      using card_mono[OF _ sub] covered_card[OF dis] by simp
    then have room: "length d' \<le> sr_capacity r - length (bs_buffer (sr_output r)) - stored kept"
      using sr_invD(8)[OF inv] by linarith
    have "sub64 (add64 (bs_bytes_read (sr_output r)) (sr_capacity r)) i' = ?edge - i'"
      using lim edge by (simp add: no_wrap)
    moreover have "length d' \<le> ?edge - i'" using edge by linarith
    ultimately have "sr_truncate_data (r\<lparr>sr_unassembled_segments := kept\<rparr>) d' i' = d'"
      using sr_available_eq[OF inv1] room
      by (simp add: sr_truncate_data_def Let_def substr_def min_def)
    then have "sr_insert_segment r d i = r\<lparr>sr_unassembled_segments := om_insert i' d' kept\<rparr>"
      unfolding eq Let_def using False by simp
    moreover have "set (om_insert i' d' kept) = insert (i', d') (set kept)"
      using segs_ok_insert[OF dis(1) False lim' dis(2)] by simp
    ultimately show ?thesis using cov by (auto simp: covered_def)
  qed
qed

section \<open>Sessions\<close>

text \<open>A session: the network pushes substrings, the application reads. \<open>sr_run\<close> threads the state
  and collects the bytes the application has read.\<close>

datatype sr_op = Push bytes nat bool | Take nat

fun sr_run :: "StreamReassembler \<Rightarrow> sr_op list \<Rightarrow> bytes \<Rightarrow> (StreamReassembler \<times> bytes) option" where
  "sr_run r [] out = Some (r, out)"
| "sr_run r (Push d i eof # ops) out =
     (case sr_push_substring r d i eof of None \<Rightarrow> None | Some r' \<Rightarrow> sr_run r' ops out)"
| "sr_run r (Take n # ops) out =
     (case bs_read (sr_output r) n of (s, d) \<Rightarrow> sr_run (r\<lparr>sr_output := s\<rparr>) ops (out @ d))"

fun op_of :: "bytes \<Rightarrow> sr_op \<Rightarrow> bool" where
  "op_of S (Push d i eof) \<longleftrightarrow> slice_at S i d \<and> (eof \<longrightarrow> i + length d = length S)"
| "op_of S (Take n) \<longleftrightarrow> True"

definition session_ok :: "bytes \<Rightarrow> StreamReassembler \<Rightarrow> bytes \<Rightarrow> bool" where
  "session_ok S r out \<longleftrightarrow> sr_ok r \<and> bs.tracks S (sr_output r) \<and> agrees S (sr_unassembled_segments r) \<and>
     sr_eof_index r \<in> {18446744073709551615, length S} \<and>
     out = take (bs_bytes_read (sr_output r)) S \<and>
     (bs_input_ended (sr_output r) \<longrightarrow> sr_first_unassembled r = length S)"

lemma session_ok_new: "cap < two64 \<Longrightarrow> session_ok S (sr_new cap) []"
  using sr_ok_new[of cap] by (simp add: session_ok_def bs.tracks_def) (simp add: sr_new_def bs_new_def)

lemma tracks_le: "bs.tracks S s \<Longrightarrow> bs_bytes_written s \<le> length S"
  by (simp add: bs.tracks_def)

lemma session_ok_push:
  assumes "session_ok S r out" "length S < 18446744073709551615" "op_of S (Push d i eof)"
  obtains r' where "sr_push_substring r d i eof = Some r'" "session_ok S r' out"
    "sr_capacity r' = sr_capacity r"
proof -
  have "sr_ok r" "i + length d < two64"
    using assms by (auto simp: session_ok_def slice_at_def)
  then obtain r' where r': "sr_push_substring r d i eof = Some r'" "pushes r d i eof r'"
    using sr_push_pushes by blast
  have s: "bs.tracks S (sr_output r')" "agrees S (sr_unassembled_segments r')" "sr_ok r'"
    using r'(2) assms(1,3) by (auto simp: pushes_def session_ok_def)
  have "sr_first_unassembled r' \<le> length S"
    using tracks_le[OF s(1)] sr_invD(3)[OF sr_ok_inv[OF s(3)]] by simp
  moreover have idx: "sr_eof_index r' \<in> {18446744073709551615, length S}"
    using r'(2) assms(1,3) by (simp add: pushes_def session_ok_def)
  moreover have "bs_input_ended (sr_output r') \<longrightarrow>
      sr_first_unassembled r' = length S \<or> sr_eof_index r' \<le> sr_first_unassembled r'"
    using r'(2) assms(1) \<open>sr_first_unassembled r' \<le> length S\<close>
    by (auto simp: pushes_def session_ok_def)
  ultimately have "bs_input_ended (sr_output r') \<longrightarrow> sr_first_unassembled r' = length S"
    using assms(2) by auto
  then have "session_ok S r' out"
    using s idx r'(2) assms(1) by (simp add: pushes_def session_ok_def)
  then show thesis using that r' by (simp add: pushes_def)
qed

text \<open>What the application reads are the next bytes of the stream.\<close>

lemma sr_take_ok:
  assumes ok: "sr_ok r" and tr: "bs.tracks S (sr_output r)"
  shows "sr_ok (r\<lparr>sr_output := fst (bs_read (sr_output r) n)\<rparr>)" "bs.tracks S (fst (bs_read (sr_output r) n))"
    "take (bs_bytes_read (sr_output r)) S @ snd (bs_read (sr_output r) n)
      = take (bs_bytes_read (fst (bs_read (sr_output r) n))) S"
proof -
  note inv = sr_invD[OF sr_ok_inv[OF ok]]
  let ?d = "snd (bs_read (sr_output r) n)" and ?s = "fst (bs_read (sr_output r) n)"
  note tr' = bs.get_tracks[OF inv(1) tr, of n] and out = bs.get_total_out[OF inv(1), of n]
  have "length (bs_buffer ?s) \<le> length (bs_buffer (sr_output r))"
    using bs.get_content[OF inv(1)] by simp
  then show "sr_ok (r\<lparr>sr_output := ?s\<rparr>)"
    using ok bs.get_invar[OF inv(1)] bs.get_total_in[OF inv(1)] bs.get_capacity[OF inv(1)]
    by (auto simp: sr_ok_def sr_inv_def)
  show "take (bs_bytes_read (sr_output r)) S @ ?d = take (bs_bytes_read ?s) S"
    using tr'(2) span_append[of 0 "bs_bytes_read (sr_output r)" "bs_bytes_read ?s" S] out
    by (simp add: slice_at_span span_0)
qed (rule bs.get_tracks(1)[OF sr_invD(1)[OF sr_ok_inv[OF ok]] tr])

lemma session_ok_take:
  assumes "session_ok S r out"
  shows "session_ok S (r\<lparr>sr_output := fst (bs_read (sr_output r) n)\<rparr>)
    (out @ snd (bs_read (sr_output r) n))"
proof -
  have ok: "sr_ok r" "bs.tracks S (sr_output r)" using assms by (auto simp: session_ok_def)
  note t = sr_take_ok[OF ok, of n]
  have "bs_input_ended (fst (bs_read (sr_output r) n)) = bs_input_ended (sr_output r)"
    using bs_read_eq[OF sr_invD(1)[OF sr_ok_inv[OF ok(1)]]] by simp
  then show ?thesis using assms t by (simp add: session_ok_def)
qed

lemma session_ok_run:
  "session_ok S r out \<Longrightarrow> length S < 18446744073709551615 \<Longrightarrow> list_all (op_of S) ops \<Longrightarrow>
     \<exists>r' out'. sr_run r ops out = Some (r', out') \<and> session_ok S r' out' \<and> sr_capacity r' = sr_capacity r"
proof (induction r ops out rule: sr_run.induct)
  case (2 r d i eof ops out)
  from 2(4) have "op_of S (Push d i eof)" by simp
  then obtain r' where r': "sr_push_substring r d i eof = Some r'" "session_ok S r' out"
    "sr_capacity r' = sr_capacity r"
    by (rule session_ok_push[OF 2(2,3)])
  then show ?case using "2.IH"[of r'] 2(3,4) by simp
next
  case (3 r n ops out)
  note session_ok_take[OF 3(2), of n]
  then show ?case
    using "3.IH"[of "fst (bs_read (sr_output r) n)" "snd (bs_read (sr_output r) n)"]
      3(3,4) by (simp add: split_beta)
qed simp

section \<open>Properties\<close>

text \<open>C5: In any session in which every substring pushed is a piece of one stream \<open>S\<close> (in any
  order, with any overlaps and repetitions) and \<open>eof\<close> marks only the real end, the reassembler
  never reaches undefined behaviour, what the application has read followed by what is still
  buffered is exactly a prefix of \<open>S\<close>, buffered plus stored bytes stay within the capacity, and
  end of input is signalled only when all of \<open>S\<close> is in the output.\<close>

theorem reassembler_delivers_prefix:
  assumes "cap < two64" "length S < 18446744073709551615" "list_all (op_of S) ops"
  shows "\<exists>r out. sr_run (sr_new cap) ops [] = Some (r, out) \<and>
    out @ bs_buffer (sr_output r) = take (sr_first_unassembled r) S \<and>
    sr_first_unassembled r \<le> length S \<and>
    bs_buffer_size (sr_output r) + sr_unassembled_bytes r \<le> cap \<and>
    (bs_input_ended (sr_output r) \<longrightarrow> out @ bs_buffer (sr_output r) = S)"
proof -
  obtain r out where run: "sr_run (sr_new cap) ops [] = Some (r, out)" and ok: "session_ok S r out"
    and "sr_capacity r = sr_capacity (sr_new cap)"
    using session_ok_run[OF session_ok_new[OF assms(1)] assms(2,3)] by blast
  then have cap: "sr_capacity r = cap" by (simp add: sr_new_def)
  have "sr_ok r" using ok by (simp add: session_ok_def)
  note inv = sr_invD[OF sr_ok_inv[OF this]]
  have le: "sr_first_unassembled r \<le> length S"
    using ok inv(3) by (simp add: session_ok_def bs.tracks_def)
  have pre: "out @ bs_buffer (sr_output r) = take (sr_first_unassembled r) S"
    using ok inv(3,8) span_append[of 0 "bs_bytes_read (sr_output r)" "sr_first_unassembled r" S]
    by (simp add: session_ok_def bs.tracks_def span_0)
  moreover have "bs_input_ended (sr_output r) \<longrightarrow> out @ bs_buffer (sr_output r) = S"
    using pre ok by (simp add: session_ok_def)
  moreover have "bs_buffer_size (sr_output r) + sr_unassembled_bytes r \<le> cap"
    using inv(5,9) cap by (simp add: bs_buffer_size_def sr_unassembled_bytes_eq)
  ultimately show ?thesis using run le by blast
qed

theorem reassembler_delivers_prefix_witness:
  "\<exists>r out. sr_run (sr_new 4)
      [Push [3, 4] 2 True, Push [2, 3] 1 False, Push [1, 2] 0 False, Take 3] [] = Some (r, out) \<and>
    out @ bs_buffer (sr_output r) = take (sr_first_unassembled r) [1, 2, 3, 4] \<and>
    sr_first_unassembled r \<le> length [1, 2, 3, 4 :: byte] \<and>
    bs_buffer_size (sr_output r) + sr_unassembled_bytes r \<le> 4 \<and>
    (bs_input_ended (sr_output r) \<longrightarrow> out @ bs_buffer (sr_output r) = [1, 2, 3, 4])"
  using reassembler_delivers_prefix[of 4 "[1, 2, 3, 4]"
      "[Push [3, 4] 2 True, Push [2, 3] 1 False, Push [1, 2] 0 False, Take 3]"]
  by (simp add: slice_at_def del: sr_run.simps)

text \<open>C9: A substring that continues the output and fits in the free room is delivered completely,
  together with every stored segment it makes contiguous: afterwards exactly the positions before
  its end and those stored before are delivered or stored, and the next byte to deliver is not
  among the stored ones.\<close>

theorem push_assembles_all:
  assumes "sr_ok r" "i + length d < two64" "i \<le> sr_first_unassembled r"
    and "sr_first_unassembled r < i + length d"
    and "i + length d - sr_first_unassembled r \<le> sr_room r"
  shows "\<exists>r'. sr_push_substring r d i eof = Some r' \<and>
    {..<sr_first_unassembled r'} \<union> covered (sr_unassembled_segments r')
      = {..<i + length d} \<union> covered (sr_unassembled_segments r) \<and>
    sr_first_unassembled r' \<notin> covered (sr_unassembled_segments r')"
proof -
  define t where t: "t = take (sr_room r) (drop (sr_first_unassembled r - i) d)"
  obtain r' where r': "sr_push_substring r d i eof = Some (sr_finish r')"
    "assembles (sr_append (sr_mark_eof r d i eof) t) r'"
    using sr_push_next_assembles[OF assms(1-4) t] by blast
  have "length t = i + length d - sr_first_unassembled r" using assms(3-5) by (simp add: t)
  then have "sr_first_unassembled r + length t = i + length d" using assms(4) by simp
  moreover have "sr_first_unassembled r' \<notin> covered (sr_unassembled_segments r')"
    using r'(2) by (force simp: assembles_def sr_ok_def covered_def positions_def)
  ultimately show ?thesis using r' by (simp add: assembles_def)
qed

theorem push_assembles_all_witness:
  "\<exists>r'. sr_push_substring ((sr_new 9)\<lparr>sr_unassembled_segments := [(2, [3, 4])]\<rparr>) [1, 2] 0 False
      = Some r' \<and>
    {..<sr_first_unassembled r'} \<union> covered (sr_unassembled_segments r')
      = {..<length [1, 2 :: byte]} \<union> covered [(2, [3, 4])] \<and>
    sr_first_unassembled r' \<notin> covered (sr_unassembled_segments r')"
  using push_assembles_all[of "(sr_new 9)\<lparr>sr_unassembled_segments := [(2, [3, 4])]\<rparr>" 0 "[1, 2]" False]
  by (simp add: sr_new_def bs_new_def sr_room_def sr_ok_def sr_inv_def bs_ok_def segs_ok_Cons)



text \<open>C11: The window test of \<open>truncate_data\<close> subtracts without a guard: for an index beyond the
  window \<^verbatim>\<open>first_unacceptable - index\<close> wraps to a huge length. A substring beyond the window
  therefore is stored, takes the whole capacity, and from then on data that starts at the next
  expected byte is cut to nothing: the stream can never advance.\<close>

theorem beyond_window_starves:
  assumes "0 < length d" "length d < i" "i + length d < two64"
  shows "\<exists>r. sr_push_substring (sr_new (length d)) d i False = Some r \<and>
    sr_unassembled_segments r = [(i, d)] \<and>
    (\<forall>d'. length d' < i \<longrightarrow>
       map_option sr_first_unassembled (sr_push_substring r d' 0 False) = Some 0)"
proof -
  let ?cap = "length d" let ?r = "(sr_new ?cap)\<lparr>sr_unassembled_segments := [(i, d)]\<rparr>"
  have cap: "?cap < two64" and i: "i < two64" using assms by linarith+
  note ok = sr_ok_new[OF cap]
  have e: "sub64 (add64 i ?cap) 1 = i + ?cap - 1" using assms by (simp add: no_wrap)
  have "sub64 (add64 0 ?cap) i = two64 + ?cap - i" using assms cap i by (simp add: no_wrap sub64_wraps)
  moreover have "sub64 (sub64 ?cap 0) 0 = ?cap" using cap by (simp add: no_wrap)
  moreover have "?cap \<le> two64 + ?cap - i" using i by linarith
  ultimately have "sr_truncate_data (sr_new ?cap) d i = d"
    by (simp add: sr_truncate_data_def sr_new_def bs_new_def bs_buffer_size_def sr_unassembled_bytes_def
        Let_def substr_def)
  then have "sr_insert_segment (sr_new ?cap) d i = ?r"
    using assms(1) by (simp add: sr_insert_segment_def sr_new_def)
  moreover have "sr_finish ?r = ?r" by (simp add: sr_finish_def sr_empty_def)
  ultimately have push: "sr_push_substring (sr_new ?cap) d i False = Some ?r"
    using sr_push_ahead[OF ok assms(3), of False] assms
    by (simp add: sr_mark_eof_def sr_new_def)
  have okr: "sr_ok ?r" using ok assms by (simp add: sr_ok_def sr_inv_def segs_ok_Cons)
      (simp add: sr_new_def bs_new_def)
  have room: "sr_room ?r = 0" by (simp add: sr_room_def sr_new_def bs_new_def)
  have "map_option sr_first_unassembled (sr_push_substring ?r d' 0 False) = Some 0"
    if "length d' < i" for d'
  proof (cases "d' = []")
    case True
    then show ?thesis
      using sr_push_old[OF okr, of 0 "[]" False] by (simp add: Let_def sr_new_def sr_empty_def)
  next
    case False
    have fu: "sr_first_unassembled ?r = 0" by (simp add: sr_new_def)
    have "0 + length d' < two64" using that i by linarith
    then obtain r' where r': "sr_push_substring ?r d' 0 False = Some (sr_finish r')"
      "assembles (sr_append (sr_mark_eof ?r d' 0 False) []) r'"
      using sr_push_next_assembles[OF okr, of 0 d' "[]" False] False fu room by auto
    have "{..<sr_first_unassembled r'} \<subseteq> covered [(i, d)]"
      using r'(2) by (auto simp: assembles_def fu)
    then have "sr_first_unassembled r' = 0" using assms that by (auto simp: positions_def subset_iff)
    then show ?thesis using r'(1) by simp
  qed
  then show ?thesis using push by auto
qed

theorem beyond_window_starves_witness:
  "\<exists>r. sr_push_substring (sr_new 2) [8, 9] 100 False = Some r \<and>
    sr_unassembled_segments r = [(100, [8, 9])] \<and>
    map_option sr_first_unassembled (sr_push_substring r [1, 2] 0 False) = Some 0"
proof -
  have n: "length [8, 9 :: byte] = 2" by simp
  have "0 < length [8, 9 :: byte]" "length [8, 9 :: byte] < 100"
    "100 + length [8, 9 :: byte] < two64" "length [1, 2 :: byte] < 100" by simp_all
  with beyond_window_starves[of "[8, 9]" 100, unfolded n] show ?thesis unfolding n by blast
qed

text \<open>Data that continues the output is cut to the capacity minus all stored bytes, also where
  it repeats stored bytes. With capacity four, one stored byte and a push of the four bytes that
  fit, the last byte is lost although the capacity has room for it.\<close>

lemma overlapping_push_drops_byte:
  "map_option (\<lambda>(r, out). (bs_buffer (sr_output r), sr_unassembled_bytes r))
     (sr_run (sr_new 4) [Push [2] 1 False, Push [1, 2, 3, 4] 0 False] []) = Some ([1, 2, 3], 0)"
  by (simp add: sr_new_def bs_new_def sr_push_substring_def sr_insert_segment_def sr_truncate_data_def
      sr_assemble_loop.simps sr_try_assemble_def sr_unassembled_bytes_def sr_empty_def bs_buffer_size_def
      bs_write_def add64_def sub64_def substr_def om_begin_def om_next_def om_find_def om_erase_def Let_def
      sr_iterator_kept_def cong: prod.case_cong_weak)

end
