(* ===== verification/Net_Buffer.thy ===== *)
theory Net_Buffer
  imports Sponge_Prelude
begin

text \<open>
  Buffers (\<^verbatim>\<open>libsponge/util/buffer.hh\<close> and \<^verbatim>\<open>.cc\<close>). A \<open>Buffer\<close> is a shared string with a starting
  offset; a \<open>BufferList\<close> is a list of them; a \<open>BufferViewList\<close> is a list of string views. The
  exceptions of \<open>remove_prefix\<close> and of the conversion to \<open>Buffer\<close> are the value \<open>None\<close>.

  The lemmas show that every operation acts on the visible bytes only: a buffer behaves as the
  byte string \<open>buf_str\<close> it shows, a buffer list as the list of these strings. The packet
  theories therefore carry byte strings for buffers and lists of byte strings for buffer lists.
\<close>

section \<open>Buffer\<close>

record Buffer =
  buf_storage :: "bytes option"
  buf_starting_offset :: nat

definition buf_empty :: Buffer where
  "buf_empty = \<lparr>buf_storage = None, buf_starting_offset = 0\<rparr>"

definition buf_of :: "bytes \<Rightarrow> Buffer" where
  "buf_of s = \<lparr>buf_storage = Some s, buf_starting_offset = 0\<rparr>"

definition buf_str :: "Buffer \<Rightarrow> bytes" where
  "buf_str b = (case buf_storage b of None \<Rightarrow> [] | Some s \<Rightarrow> drop (buf_starting_offset b) s)"

definition buf_at :: "Buffer \<Rightarrow> nat \<Rightarrow> byte option" where
  "buf_at b n = (if n < length (buf_str b) then Some (buf_str b ! n) else None)"

definition buf_size :: "Buffer \<Rightarrow> nat" where
  "buf_size b = length (buf_str b)"

definition buf_copy :: "Buffer \<Rightarrow> bytes" where
  "buf_copy b = buf_str b"

definition buf_remove_prefix :: "Buffer \<Rightarrow> nat \<Rightarrow> Buffer option" where
  "buf_remove_prefix b n =
     (if n > length (buf_str b) then None
      else let off = add64 (buf_starting_offset b) n in
        Some (case buf_storage b of
                None \<Rightarrow> b\<lparr>buf_starting_offset := off\<rparr>
              | Some s \<Rightarrow> if off = length s then \<lparr>buf_storage = None, buf_starting_offset = off\<rparr>
                         else b\<lparr>buf_starting_offset := off\<rparr>))"

section \<open>BufferList\<close>

type_synonym BufferList = "Buffer list"

definition bl_of_buffer :: "Buffer \<Rightarrow> BufferList" where
  "bl_of_buffer b = [b]"

fun bl_append :: "BufferList \<Rightarrow> BufferList \<Rightarrow> BufferList" where
  "bl_append buffers [] = buffers"
| "bl_append buffers (buf # other) = bl_append (buffers @ [buf]) other"

definition bl_of_string :: "bytes \<Rightarrow> BufferList" where
  "bl_of_string s = bl_append [] (bl_of_buffer (buf_of s))"

definition bl_to_buffer :: "BufferList \<Rightarrow> Buffer option" where
  "bl_to_buffer buffers =
     (if length buffers = 0 then Some buf_empty
      else if length buffers = 1 then Some (buffers ! 0)
      else None)"

fun bl_concat_loop :: "BufferList \<Rightarrow> bytes \<Rightarrow> bytes" where
  "bl_concat_loop [] ret = ret"
| "bl_concat_loop (buf # buffers) ret = bl_concat_loop buffers (ret @ buf_str buf)"

definition bl_concatenate :: "BufferList \<Rightarrow> bytes" where
  "bl_concatenate buffers = bl_concat_loop buffers []"

fun bl_size_loop :: "BufferList \<Rightarrow> nat \<Rightarrow> nat" where
  "bl_size_loop [] ret = ret"
| "bl_size_loop (buf # buffers) ret = bl_size_loop buffers (add64 ret (buf_size buf))"

definition bl_size :: "BufferList \<Rightarrow> nat" where
  "bl_size buffers = bl_size_loop buffers 0"

fun bl_remove_prefix :: "BufferList \<Rightarrow> nat \<Rightarrow> BufferList option" where
  "bl_remove_prefix [] n = (if n > 0 then None else Some [])"
| "bl_remove_prefix (buf # buffers) n =
     (if n > 0 then
        (if n < length (buf_str buf)
         then map_option (\<lambda>b. b # buffers) (buf_remove_prefix buf n)
         else bl_remove_prefix buffers (n - length (buf_str buf)))
      else Some (buf # buffers))"

section \<open>BufferViewList\<close>

type_synonym BufferViewList = "bytes list"

definition bvl_of_string :: "bytes \<Rightarrow> BufferViewList" where
  "bvl_of_string s = [s]"

fun bvl_of_buffers :: "BufferList \<Rightarrow> BufferViewList \<Rightarrow> BufferViewList" where
  "bvl_of_buffers [] views = views"
| "bvl_of_buffers (x # buffers) views = bvl_of_buffers buffers (views @ [buf_str x])"

fun bvl_remove_prefix :: "BufferViewList \<Rightarrow> nat \<Rightarrow> BufferViewList option" where
  "bvl_remove_prefix [] n = (if n > 0 then None else Some [])"
| "bvl_remove_prefix (view # views) n =
     (if n > 0 then
        (if n < length view then Some (drop n view # views)
         else bvl_remove_prefix views (n - length view))
      else Some (view # views))"

fun bvl_size_loop :: "BufferViewList \<Rightarrow> nat \<Rightarrow> nat" where
  "bvl_size_loop [] ret = ret"
| "bvl_size_loop (buf # views) ret = bvl_size_loop views (add64 ret (length buf))"

definition bvl_size :: "BufferViewList \<Rightarrow> nat" where
  "bvl_size views = bvl_size_loop views 0"

text \<open>An \<^verbatim>\<open>iovec\<close> is the memory block and its length.\<close>

definition bvl_as_iovecs :: "BufferViewList \<Rightarrow> (bytes \<times> nat) list" where
  "bvl_as_iovecs views = map (\<lambda>x. (x, length x)) views"

section \<open>Buffers are byte strings\<close>

definition buf_ok :: "Buffer \<Rightarrow> bool" where
  "buf_ok b \<longleftrightarrow> (case buf_storage b of None \<Rightarrow> True
     | Some s \<Rightarrow> buf_starting_offset b \<le> length s \<and> length s < two64)"

lemma buf_ok_simps [simp]: "buf_ok buf_empty" "length s < two64 \<Longrightarrow> buf_ok (buf_of s)"
  by (simp_all add: buf_ok_def buf_empty_def buf_of_def)

lemma buf_str_simps [simp]: "buf_str buf_empty = []" "buf_str (buf_of s) = s"
  by (simp_all add: buf_str_def buf_empty_def buf_of_def)

lemma buf_remove_prefix_str:
  assumes "buf_ok b" "n \<le> length (buf_str b)"
  obtains b' where "buf_remove_prefix b n = Some b'" "buf_ok b'" "buf_str b' = drop n (buf_str b)"
proof (cases "buf_storage b")
  case None
  then show thesis
    using assms that by (simp add: buf_remove_prefix_def buf_str_def buf_ok_def Let_def)
next
  case (Some s)
  then have "buf_starting_offset b + n \<le> length s" "length s < two64"
    using assms by (auto simp: buf_ok_def buf_str_def)
  then show thesis
    using assms Some that by (auto simp: buf_remove_prefix_def buf_str_def buf_ok_def Let_def no_wrap ac_simps)
qed

lemma buf_remove_prefix_None: "buf_remove_prefix b n = None \<longleftrightarrow> length (buf_str b) < n"
  by (simp add: buf_remove_prefix_def Let_def)

lemma bl_append_eq: "bl_append a b = a @ b"
  by (induction a b rule: bl_append.induct) simp_all

lemma bvl_of_buffers_eq: "bvl_of_buffers bs views = views @ map buf_str bs"
  by (induction bs views rule: bvl_of_buffers.induct) simp_all

lemma bl_concatenate_eq: "bl_concatenate bs = concat (map buf_str bs)"
proof -
  have "bl_concat_loop bs ret = ret @ concat (map buf_str bs)" for ret
    by (induction bs ret rule: bl_concat_loop.induct) simp_all
  then show ?thesis by (simp add: bl_concatenate_def)
qed

lemma bvl_size_loop_eq:
  "n + length (concat views) < two64 \<Longrightarrow> bvl_size_loop views n = n + length (concat views)"
  by (induction views n rule: bvl_size_loop.induct) (auto simp: no_wrap)

lemma bvl_size_eq: "length (concat views) < two64 \<Longrightarrow> bvl_size views = length (concat views)"
  by (simp add: bvl_size_def bvl_size_loop_eq)

lemma bl_size_views: "bl_size bs = bvl_size (map buf_str bs)"
proof -
  have "bl_size_loop bs n = bvl_size_loop (map buf_str bs) n" for n
    by (induction bs n rule: bl_size_loop.induct) (simp_all add: buf_size_def)
  then show ?thesis by (simp add: bl_size_def bvl_size_def)
qed

lemma bvl_remove_prefix_concat:
  "(case bvl_remove_prefix views n of None \<Rightarrow> length (concat views) < n
    | Some views' \<Rightarrow> n \<le> length (concat views) \<and> concat views' = drop n (concat views))"
  by (induction views n rule: bvl_remove_prefix.induct) (auto split: option.splits)

lemma bl_remove_prefix_views:
  "list_all buf_ok bs \<Longrightarrow>
     map_option (map buf_str) (bl_remove_prefix bs n) = bvl_remove_prefix (map buf_str bs) n"
proof (induction bs n rule: bl_remove_prefix.induct)
  case (2 buf bs n)
  then have ok: "buf_ok buf" by simp
  show ?case
  proof (cases "n < length (buf_str buf)")
    case True
    then obtain b' where "buf_remove_prefix buf n = Some b'" "buf_str b' = drop n (buf_str buf)"
      using buf_remove_prefix_str[OF ok, of n] by auto
    then show ?thesis using True by simp
  qed (use 2 in simp)
qed simp

section \<open>Properties\<close>

text \<open>Discarding \<open>n\<close> bytes from a buffer list gives a list that shows exactly the
  concatenation without its first \<open>n\<close> bytes, and fails exactly when there are fewer bytes; so
  does the view list built from it.\<close>

lemma buffer_list_remove_prefix:
  assumes "list_all buf_ok bs"
  shows "map_option bl_concatenate (bl_remove_prefix bs n) =
      (if n \<le> length (bl_concatenate bs) then Some (drop n (bl_concatenate bs)) else None) \<and>
    map_option concat (bvl_remove_prefix (bvl_of_buffers bs []) n) =
      map_option bl_concatenate (bl_remove_prefix bs n)"
proof -
  have v: "map_option (map buf_str) (bl_remove_prefix bs n) = bvl_remove_prefix (map buf_str bs) n"
    by (rule bl_remove_prefix_views[OF assms])
  have "map_option bl_concatenate (bl_remove_prefix bs n)
      = map_option concat (bvl_remove_prefix (map buf_str bs) n)"
    unfolding v[symmetric] by (simp add: option.map_comp comp_def bl_concatenate_eq[abs_def])
  then show ?thesis
    using bvl_remove_prefix_concat[of "map buf_str bs" n]
    by (auto simp: bl_concatenate_eq bvl_of_buffers_eq split: option.splits)
qed

end
