(* ===== verification/Net_Parser.thy ===== *)
theory Net_Parser
  imports Net_Buffer
begin

text \<open>
  Reading and writing integers in network byte order (\<^verbatim>\<open>libsponge/util/parser.hh\<close> and
  \<^verbatim>\<open>.cc\<close>). A \<open>NetParser\<close> is the unread bytes and the first error; the three widths are instances
  of one loop, as in the template of the source. \<open>as_string\<close> indexes a table of six names with
  one of seven results; \<open>None\<close> stands for the read past the end of the table.

  The locale \<open>net_int\<close> is the contract of the three integer formats (what is written is read
  back and nothing else is consumed; a short buffer gives 0 and an error); it is interpreted at
  the widths 8, 16 and 32.
\<close>

datatype ParseResult = NoError | BadChecksum | PacketTooShort | WrongIPVersion | HeaderTooShort
  | TruncatedPacket | Unsupported

fun parse_result_index :: "ParseResult \<Rightarrow> nat" where
  "parse_result_index NoError = 0"
| "parse_result_index BadChecksum = 1"
| "parse_result_index PacketTooShort = 2"
| "parse_result_index WrongIPVersion = 3"
| "parse_result_index HeaderTooShort = 4"
| "parse_result_index TruncatedPacket = 5"
| "parse_result_index Unsupported = 6"

definition as_string :: "ParseResult \<Rightarrow> string option" where
  "as_string r =
     (let names = [''NoError'', ''BadChecksum'', ''PacketTooShort'', ''WrongIPVersion'',
                   ''HeaderTooShort'', ''TruncatedPacket'']
      in if parse_result_index r < length names then Some (names ! parse_result_index r) else None)"

record NetParser =
  np_buffer :: bytes
  np_error :: ParseResult

definition np_new :: "bytes \<Rightarrow> NetParser" where
  "np_new buffer = \<lparr>np_buffer = buffer, np_error = NoError\<rparr>"

definition np_is_error :: "NetParser \<Rightarrow> bool" where
  "np_is_error p \<longleftrightarrow> np_error p \<noteq> NoError"

definition np_check_size :: "nat \<Rightarrow> NetParser \<Rightarrow> NetParser" where
  "np_check_size sz p =
     (if sz > length (np_buffer p) then p\<lparr>np_error := PacketTooShort\<rparr> else p)"

fun np_int_loop :: "nat \<Rightarrow> bytes \<Rightarrow> 'a::len word \<Rightarrow> 'a word" where
  "np_int_loop 0 buffer ret = ret"
| "np_int_loop (Suc k) [] ret = ret"
| "np_int_loop (Suc k) (b # buffer) ret = np_int_loop k buffer (push_bit 8 ret + ucast b)"

definition np_parse_int :: "nat \<Rightarrow> NetParser \<Rightarrow> 'a::len word \<times> NetParser" where
  "np_parse_int len p =
     (let p' = np_check_size len p in
      if np_is_error p' then (0, p')
      else (np_int_loop len (np_buffer p') 0, p'\<lparr>np_buffer := drop len (np_buffer p')\<rparr>))"

definition np_u32 :: "NetParser \<Rightarrow> u32 \<times> NetParser" where
  "np_u32 p = np_parse_int 4 p"

definition np_u16 :: "NetParser \<Rightarrow> u16 \<times> NetParser" where
  "np_u16 p = np_parse_int 2 p"

definition np_u8 :: "NetParser \<Rightarrow> u8 \<times> NetParser" where
  "np_u8 p = np_parse_int 1 p"

definition np_remove_prefix :: "nat \<Rightarrow> NetParser \<Rightarrow> NetParser" where
  "np_remove_prefix n p =
     (let p' = np_check_size n p in
      if np_is_error p' then p' else p'\<lparr>np_buffer := drop n (np_buffer p')\<rparr>)"

text \<open>Reading a fixed array of bytes, the \<^verbatim>\<open>for (auto &byte : dst) byte = p.u8();\<close> loops.\<close>

fun np_array :: "nat \<Rightarrow> NetParser \<Rightarrow> bytes \<times> NetParser" where
  "np_array 0 p = ([], p)"
| "np_array (Suc k) p =
     (case np_u8 p of (b, p') \<Rightarrow> case np_array k p' of (bs, p'') \<Rightarrow> (b # bs, p''))"

definition unparse_int :: "nat \<Rightarrow> bytes \<Rightarrow> 'a::len word \<Rightarrow> bytes" where
  "unparse_int len s val =
     s @ map (\<lambda>i. ucast (drop_bit ((len - i - 1) * 8) val AND 0xff)) [0..<len]"

definition unparse_u32 :: "bytes \<Rightarrow> u32 \<Rightarrow> bytes" where
  "unparse_u32 s val = unparse_int 4 s val"

definition unparse_u16 :: "bytes \<Rightarrow> u16 \<Rightarrow> bytes" where
  "unparse_u16 s val = unparse_int 2 s val"

definition unparse_u8 :: "bytes \<Rightarrow> u8 \<Rightarrow> bytes" where
  "unparse_u8 s val = unparse_int 1 s val"

text \<open>Writing an array of bytes, the \<^verbatim>\<open>for (auto &byte : dst) NetUnparser::u8(ret, byte);\<close> loops.\<close>

fun unparse_array :: "bytes \<Rightarrow> bytes \<Rightarrow> bytes" where
  "unparse_array s [] = s"
| "unparse_array s (b # bs) = unparse_array (unparse_u8 s b) bs"

section \<open>Bytes of a word\<close>

named_theorems wire \<open>sizes and closed forms of the wire formats\<close>

definition be8 :: "u8 \<Rightarrow> bytes" where "be8 v = [v]"
definition be16 :: "u16 \<Rightarrow> bytes" where "be16 v = [ucast (drop_bit 8 v), ucast v]"
definition be32 :: "u32 \<Rightarrow> bytes" where
  "be32 v = [ucast (drop_bit 24 v), ucast (drop_bit 16 v), ucast (drop_bit 8 v), ucast v]"

lemma ucast_and_ff: "(ucast (v AND 0xff) :: u8) = ucast (v :: 'a::len word)"
proof (rule bit_eqI)
  fix n assume "possible_bit TYPE(u8) n"
  then have "n < 8" by simp
  moreover have "bit (0xff :: 'a word) n \<longleftrightarrow> n < LENGTH('a) \<and> n < 8"
    using bit_mask_iff[of 8 n, where ?'a = "'a word"] by (simp add: mask_eq_exp_minus_1 conj_commute)
  ultimately show "bit (ucast (v AND 0xff) :: u8) n = bit (ucast v :: u8) n"
    by (auto simp: bit_simps dest: bit_imp_le_length)
qed

lemma unparse_eq [wire]:
  "unparse_u8 s a = s @ be8 a" "unparse_u16 s b = s @ be16 b" "unparse_u32 s c = s @ be32 c"
  unfolding unparse_u8_def unparse_u16_def unparse_u32_def unparse_int_def ucast_and_ff
    be8_def be16_def be32_def
  by (simp_all add: upt_conv_Cons)

lemma unparse_array_eq [wire]: "unparse_array s bs = s @ bs"
  by (induction s bs rule: unparse_array.induct) (simp_all add: wire be8_def)

lemma be_length [simp]: "length (be8 a) = 1" "length (be16 b) = 2" "length (be32 c) = 4"
  by (simp_all add: be8_def be16_def be32_def)

lemma np_is_error_simps [simp]: "np_is_error \<lparr>np_buffer = b, np_error = e\<rparr> \<longleftrightarrow> e \<noteq> NoError"
  by (simp add: np_is_error_def)

lemma push_add_or: "(push_bit 8 v + ucast (b :: u8) :: 'a::len word) = push_bit 8 v OR ucast b"
proof (rule disjunctive_add_eq_or, rule bit_eqI)
  fix n assume "possible_bit TYPE('a word) n"
  show "bit (push_bit 8 v AND ucast b :: 'a word) n = bit (0 :: 'a word) n"
    by (auto simp: bit_simps dest: bit_imp_le_length)
qed

lemma np_int_loop_or:
  "np_int_loop (Suc k) (b # buffer) ret = np_int_loop k buffer (push_bit 8 ret OR ucast b)"
  by (simp only: np_int_loop.simps push_add_or)

lemma nat_4: "(4 :: nat) = Suc (Suc (Suc (Suc 0)))"
  by simp

lemma np_int_be:
  "np_int_loop 1 (be8 a @ rest) 0 = a"
  "np_int_loop 2 (be16 b @ rest) 0 = b"
  "np_int_loop 4 (be32 c @ rest) 0 = c"
proof -
  show "np_int_loop 1 (be8 a @ rest) 0 = a" by (simp add: be8_def)
  show "np_int_loop 2 (be16 b @ rest) 0 = b"
    unfolding be16_def numeral_2_eq_2 append_Cons np_int_loop_or np_int_loop.simps(1)
    by (rule bit_eqI) (auto simp: bit_simps)
  show "np_int_loop 4 (be32 c @ rest) 0 = c"
    unfolding be32_def nat_4 append_Cons np_int_loop_or np_int_loop.simps(1)
  proof (rule bit_eqI)
    fix n assume "possible_bit TYPE(u32) n"
    then have "n < 32" by simp
    then consider "n < 8" | "8 \<le> n" "n < 16" | "16 \<le> n" "n < 24" | "24 \<le> n" "n < 32" by linarith
    then show "bit (push_bit 8 (push_bit 8 (push_bit 8 (push_bit 8 0 OR ucast (ucast (drop_bit 24 c) :: u8))
        OR ucast (ucast (drop_bit 16 c) :: u8)) OR ucast (ucast (drop_bit 8 c) :: u8))
        OR ucast (ucast c :: u8) :: u32) n = bit c n"
      by cases (auto simp: bit_simps)
  qed
qed

section \<open>The contract of an integer format\<close>

text \<open>\<open>consumes n p q\<close>: going from parser \<open>p\<close> to \<open>q\<close> takes exactly \<open>n\<close> bytes, and fails exactly
  when there are fewer or a read had failed before.\<close>

definition consumes :: "nat \<Rightarrow> NetParser \<Rightarrow> NetParser \<Rightarrow> bool" where
  "consumes n p q \<longleftrightarrow>
     (np_error q = NoError \<longleftrightarrow> np_error p = NoError \<and> n \<le> length (np_buffer p)) \<and>
     (np_error q = NoError \<longrightarrow> np_buffer q = drop n (np_buffer p))"

lemma consumes_trans: "consumes n p q \<Longrightarrow> consumes m q r \<Longrightarrow> consumes (n + m) p r"
  unfolding consumes_def by (auto simp: add.commute)

lemma consumes_refl: "consumes 0 p p"
  by (simp add: consumes_def)

locale net_int =
  fixes get :: "NetParser \<Rightarrow> 'v \<times> NetParser"
    and put :: "bytes \<Rightarrow> 'v \<Rightarrow> bytes"
    and code :: "'v \<Rightarrow> bytes"
    and width :: nat
    and zero :: 'v
  assumes put_code: "put s v = s @ code v"
    and code_width: "length (code v) = width"
    and get_code: "get \<lparr>np_buffer = code v @ rest, np_error = NoError\<rparr>
      = (v, \<lparr>np_buffer = rest, np_error = NoError\<rparr>)"
    and get_short: "length (np_buffer p) < width \<Longrightarrow> get p = (zero, p\<lparr>np_error := PacketTooShort\<rparr>)"
    and get_failed: "np_error p \<noteq> NoError \<Longrightarrow>
      fst (get p) = zero \<and> np_buffer (snd (get p)) = np_buffer p \<and> np_error (snd (get p)) \<noteq> NoError"
    and get_enough: "np_error p = NoError \<Longrightarrow> width \<le> length (np_buffer p) \<Longrightarrow>
      snd (get p) = p\<lparr>np_buffer := drop width (np_buffer p)\<rparr> \<and>
      code (fst (get p)) = take width (np_buffer p)"
begin

lemma put_get: "get \<lparr>np_buffer = put [] v @ rest, np_error = NoError\<rparr>
    = (v, \<lparr>np_buffer = rest, np_error = NoError\<rparr>)"
  by (simp add: put_code get_code)

lemma code_inj: "code v = code w \<Longrightarrow> v = w"
  using get_code[of v "[]"] get_code[of w "[]"] by simp

lemma get_put:
  assumes "np_error p = NoError" "width \<le> length (np_buffer p)"
  shows "put [] (fst (get p)) @ np_buffer (snd (get p)) = np_buffer p"
  using get_enough[OF assms] by (simp add: put_code)

lemma get_consumes: "consumes width p (snd (get p))"
  using get_short[of p] get_failed[of p] get_enough[of p]
  by (cases "width \<le> length (np_buffer p)"; cases "np_error p = NoError") (auto simp: consumes_def)

lemma get_ok: "np_error (snd (get p)) = NoError \<longleftrightarrow> np_error p = NoError \<and> width \<le> length (np_buffer p)"
  using get_short[of p] get_failed[of p] get_enough[of p] by (cases "width \<le> length (np_buffer p)") auto

end

lemma bit_u8: "8 \<le> n \<Longrightarrow> \<not> bit (y :: u8) n"
  using bit_imp_le_length[of y n] by auto

lemma be_int:
  "be8 (np_int_loop 1 [x] 0) = [x]"
  "be16 (np_int_loop 2 [x, y] 0) = [x, y]"
  "be32 (np_int_loop 4 [x, y, z, w] 0) = [x, y, z, w]"
proof -
  show "be8 (np_int_loop 1 [x] 0) = [x]" by (simp add: be8_def)
  show "be16 (np_int_loop 2 [x, y] 0) = [x, y]"
    unfolding be16_def numeral_2_eq_2 np_int_loop_or np_int_loop.simps(1)
    by (auto intro!: bit_eqI simp: bit_simps bit_u8)
  show "be32 (np_int_loop 4 [x, y, z, w] 0) = [x, y, z, w]"
    unfolding be32_def nat_4 np_int_loop_or np_int_loop.simps(1)
    by (auto intro!: bit_eqI simp: bit_simps bit_u8)
qed

lemma np_int_loop_take: "len \<le> length xs \<Longrightarrow> np_int_loop len (take len xs) r = np_int_loop len xs r"
  by (induction len xs r rule: np_int_loop.induct) auto

lemma be_int_take:
  "1 \<le> length xs \<Longrightarrow> be8 (np_int_loop 1 xs 0) = take 1 xs"
  "2 \<le> length xs \<Longrightarrow> be16 (np_int_loop 2 xs 0) = take 2 xs"
  "4 \<le> length xs \<Longrightarrow> be32 (np_int_loop 4 xs 0) = take 4 xs"
proof -
  show "1 \<le> length xs \<Longrightarrow> be8 (np_int_loop 1 xs 0) = take 1 xs"
    using be_int(1) np_int_loop_take[of 1 xs 0] by (cases xs) auto
  assume l: "2 \<le> length xs"
  then obtain x y where "take 2 xs = [x, y]"
    by (auto simp: numeral_2_eq_2 Suc_le_length_iff)
  then show "be16 (np_int_loop 2 xs 0) = take 2 xs"
    using be_int(2) np_int_loop_take[OF l, of 0] by metis
next
  assume l: "4 \<le> length xs"
  then obtain x y z w where "take 4 xs = [x, y, z, w]"
    unfolding nat_4 by (auto simp: Suc_le_length_iff)
  then show "be32 (np_int_loop 4 xs 0) = take 4 xs"
    using be_int(3) np_int_loop_take[OF l, of 0] by metis
qed

lemmas np_defs = np_u8_def np_u16_def np_u32_def np_parse_int_def np_check_size_def np_is_error_def
  Let_def

interpretation n8: net_int np_u8 unparse_u8 be8 1 0
  by unfold_locales
    (auto simp: np_defs wire np_int_be(1)[simplified] be_int_take(1)[simplified])

interpretation n16: net_int np_u16 unparse_u16 be16 2 0
  by unfold_locales (auto simp: np_defs wire np_int_be be_int_take)

interpretation n32: net_int np_u32 unparse_u32 be32 4 0
  by unfold_locales (auto simp: np_defs wire np_int_be be_int_take)

lemmas np_get = n8.get_code n16.get_code n32.get_code

lemma np_array_code:
  "length bs = k \<Longrightarrow> np_array k \<lparr>np_buffer = bs @ rest, np_error = NoError\<rparr>
     = (bs, \<lparr>np_buffer = rest, np_error = NoError\<rparr>)"
proof (induction k arbitrary: bs)
  case (Suc k)
  then obtain b bs' where bs: "bs = b # bs'" "length bs' = k" by (cases bs) auto
  have "np_u8 \<lparr>np_buffer = b # bs' @ rest, np_error = NoError\<rparr>
      = (b, \<lparr>np_buffer = bs' @ rest, np_error = NoError\<rparr>)"
    using n8.get_code[of b "bs' @ rest"] by (simp add: be8_def)
  then show ?case using Suc.IH[OF bs(2)] by (simp add: bs)
qed simp

lemma np_array_length: "length (fst (np_array k p)) = k"
  by (induction k arbitrary: p) (simp_all add: split_beta)

lemma np_remove_prefix_consumes: "consumes n p (np_remove_prefix n p)"
  by (auto simp: consumes_def np_remove_prefix_def np_check_size_def np_is_error_def Let_def)

lemma np_array_consumes: "consumes k p (snd (np_array k p))"
proof (induction k arbitrary: p)
  case (Suc k)
  show ?case using consumes_trans[OF n8.get_consumes Suc.IH] by (simp add: split_beta)
qed (simp add: consumes_refl)

section \<open>The contract of a packet format\<close>

text \<open>\<open>same x y\<close>: \<open>y\<close> is \<open>x\<close> as it arrives (computed fields filled in, buffers joined).\<close>

locale wire_format =
  fixes parse :: "'p \<Rightarrow> bytes \<Rightarrow> 'p \<times> ParseResult"
    and serialize :: "'p \<Rightarrow> bytes list option"
    and valid :: "'p \<Rightarrow> bool"
    and same :: "'p \<Rightarrow> 'p \<Rightarrow> bool"
  assumes roundtrip: "valid x \<Longrightarrow>
    \<exists>bl y. serialize x = Some bl \<and> parse x0 (concat bl) = (y, NoError) \<and> same x y"
begin

text \<open>What a receiver gets from the bytes of a valid packet.\<close>

lemma arrives:
  assumes "valid x" "serialize x = Some bl"
  shows "snd (parse x0 (concat bl)) = NoError" "same x (fst (parse x0 (concat bl)))"
  using roundtrip[OF assms(1), of x0] assms(2) by auto

lemma no_confusion:
  assumes "valid x" "valid y" "serialize x = Some bl" "serialize y = Some bl'" "concat bl = concat bl'"
  shows "\<exists>z. same x z \<and> same y z"
  using arrives(2)[OF assms(1,3)] arrives(2)[OF assms(2,4)] assms(5) by metis

end

section \<open>Properties\<close>

text \<open>A 32-bit integer written in network byte order is read back, together with exactly the
  bytes that followed it; and reading any four bytes and writing the result gives the same bytes.\<close>

lemma network_integer_roundtrip:
  "np_u32 (np_new (unparse_u32 [] v @ rest)) = (v, np_new rest) \<and>
   (4 \<le> length data \<longrightarrow>
      unparse_u32 [] (fst (np_u32 (np_new data))) @ np_buffer (snd (np_u32 (np_new data))) = data)"
  using n32.put_get[of v rest] n32.get_put[of "np_new data"] by (simp add: np_new_def)

text \<open>The error names. Every result but the last has its own name; for \<open>Unsupported\<close>, which
  \<open>ARPMessage::parse\<close> returns, the table is read past its end.\<close>

lemma as_string_unsupported:
  "as_string r = None \<longleftrightarrow> r = Unsupported"
  by (cases r) (simp_all add: as_string_def)

end
