(* ===== verification/Internet_Checksum.thy ===== *)
theory Internet_Checksum
  imports Net_Parser
begin

text \<open>
  The Internet checksum (\<open>InternetChecksum\<close> in \<^verbatim>\<open>libsponge/util/util.hh\<close> and \<^verbatim>\<open>util.cc\<close>): bytes are
  added alternately as high and low half of 16-bit numbers into a 32-bit sum, which is folded to
  16 bits and complemented. The lemmas give the folded value as arithmetic modulo \<open>65535\<close>: a
  packet whose checksum field was filled with the computed value checks to zero, and changing
  any one byte of a correct packet is detected.
\<close>

record InternetChecksum =
  ck_sum :: u32
  ck_parity :: bool

definition ck_new :: "u32 \<Rightarrow> InternetChecksum" where
  "ck_new initial_sum = \<lparr>ck_sum = initial_sum, ck_parity = False\<rparr>"

fun ck_add :: "InternetChecksum \<Rightarrow> bytes \<Rightarrow> InternetChecksum" where
  "ck_add c [] = c"
| "ck_add c (b # data) =
     (let val = (ucast b :: u16);
          val' = (if \<not> ck_parity c then push_bit 8 val else val)
      in ck_add (c\<lparr>ck_sum := ck_sum c + ucast val', ck_parity := \<not> ck_parity c\<rparr>) data)"

function ck_fold :: "u32 \<Rightarrow> u32" where
  "ck_fold ret = (if ret > 0xffff then ck_fold (drop_bit 16 ret + (ret AND 0xffff)) else ret)"
  by pat_completeness auto

lemma fold_step_unat:
  "unat (drop_bit 16 ret + (ret AND 0xffff) :: u32) = unat ret div 65536 + unat ret mod 65536"
proof -
  have "unat (ret AND 0xffff) = unat ret mod 65536"
  proof -
    have "ret AND 0xffff = take_bit 16 ret" by (simp add: take_bit_eq_mask mask_eq_exp_minus_1)
    then show ?thesis by (simp only: unsigned_take_bit_eq) (simp add: take_bit_eq_mod)
  qed
  moreover have "unat (drop_bit 16 ret) = unat ret div 65536"
    using unsigned_less[of ret, where ?'a = nat]
    by (simp only: unsigned_drop_bit_eq) (simp add: drop_bit_eq_div take_bit_nat_eq_self)
  moreover have "unat ret < 65536 * 65536" using unsigned_less[of ret, where ?'a = nat] by simp
  then have "unat ret div 65536 < 65536" by (rule less_mult_imp_div_less)
  then have "unat ret div 65536 + unat ret mod 65536 < 2 ^ LENGTH(32)" 
    using mod_less_divisor[of 65536 "unat ret"] by simp
  ultimately show ?thesis by (simp add: unat_word_ariths)
qed

termination ck_fold
proof (relation "measure unat")
  fix ret :: u32 assume "ret > 0xffff"
  then have g: "unat ret > 65535" by (simp add: word_less_nat_alt)
  then have "unat ret div 65536 > 0" by (simp add: div_greater_zero_iff)
  moreover have "unat ret = unat ret div 65536 * 65536 + unat ret mod 65536" by simp
  ultimately have "unat ret div 65536 + unat ret mod 65536 < unat ret" by linarith
  then show "(drop_bit 16 ret + (ret AND 0xffff), ret) \<in> measure unat"
    by (simp only: in_measure fold_step_unat)
qed simp

declare ck_fold.simps [simp del]

definition ck_value :: "InternetChecksum \<Rightarrow> u16" where
  "ck_value c = ucast (NOT (ck_fold (ck_sum c)))"

section \<open>Arithmetic of the fold\<close>

text \<open>The one's-complement residue of a sum: zero stays zero, everything else is brought into
  \<open>1..65535\<close> modulo \<open>65535\<close>.\<close>

definition residue :: "nat \<Rightarrow> nat" where
  "residue s = (if s = 0 then 0 else Suc ((s - 1) mod 65535))"

lemma residue_small: "s \<le> 65535 \<Longrightarrow> residue s = s"
  by (auto simp: residue_def)

lemma residue_cong: "0 < s \<Longrightarrow> 0 < t \<Longrightarrow> s mod 65535 = t mod 65535 \<Longrightarrow> residue s = residue t"
proof -
  have *: "residue s = (if s mod 65535 = 0 then 65535 else s mod 65535)" if pos: "0 < s" for s
  proof -
    obtain k where "s = Suc k" using pos gr0_implies_Suc by blast
    then show ?thesis by (auto simp: residue_def mod_Suc)
  qed
  assume "0 < s" "0 < t" "s mod 65535 = t mod 65535"
  then show ?thesis by (simp add: *)
qed

lemma residue_top: "residue s = 65535 \<longleftrightarrow> 0 < s \<and> s mod 65535 = 0"
  by (cases s) (auto simp: residue_def mod_Suc)

lemma residue_mod: "residue s mod 65535 = s mod 65535"
  by (cases s) (simp_all add: residue_def mod_Suc_eq)

lemma residue_le: "residue s \<le> 65535"
proof -
  have "Suc ((s - 1) mod 65535) \<le> 65535" by (rule Suc_leI) (rule mod_less_divisor, simp)
  then show ?thesis unfolding residue_def by (simp only: split: if_split) simp
qed

lemma ck_fold_unat: "unat (ck_fold s) = residue (unat s)"
proof (induction s rule: ck_fold.induct)
  case (1 s)
  show ?case
  proof (cases "s > 0xffff")
    case True
    then have g: "unat s > 65535" by (simp add: word_less_nat_alt)
    have "unat s div 65536 + unat s mod 65536 = unat s - 65535 * (unat s div 65536)"
      using div_mult_mod_eq[of "unat s" 65536] by linarith
    moreover have "65535 * (unat s div 65536) \<le> unat s"
      using div_mult_mod_eq[of "unat s" 65536] by linarith
    ultimately have "(unat s div 65536 + unat s mod 65536) mod 65535 = unat s mod 65535"
      by (metis mod_mult_self2 le_add_diff_inverse2)
    moreover have "0 < unat s div 65536" using g by (simp add: div_greater_zero_iff)
    ultimately have "residue (unat s div 65536 + unat s mod 65536) = residue (unat s)"
      using g by (intro residue_cong) auto
    then show ?thesis using 1[OF True] True
      by (subst ck_fold.simps) (simp only: if_True fold_step_unat)
  next
    case False
    then have "unat s \<le> 65535" by (simp add: word_less_nat_alt not_less)
    then show ?thesis using False by (subst ck_fold.simps) (simp add: residue_small)
  qed
qed

section \<open>The sum of a byte string\<close>

text \<open>What \<open>add\<close> adds, as a number: bytes at even positions count 256-fold.\<close>

fun byte_sum :: "bool \<Rightarrow> bytes \<Rightarrow> nat" where
  "byte_sum parity [] = 0"
| "byte_sum parity (b # data) = (if parity then unat b else 256 * unat b) + byte_sum (\<not> parity) data"

lemma byte_sum_append:
  "byte_sum parity (xs @ ys) = byte_sum parity xs + byte_sum (parity \<noteq> odd (length xs)) ys"
  by (induction parity xs rule: byte_sum.induct) auto

lemma byte_sum_zeros: "byte_sum parity (replicate n 0) = 0"
  by (induction n arbitrary: parity) auto

lemma byte_sum_bound: "byte_sum parity data \<le> 255 * 256 * length data"
proof (induction parity data rule: byte_sum.induct)
  case (2 parity b data)
  have "unat b \<le> 255" using unsigned_less[of b, where ?'a = nat] by simp
  then show ?case using 2 by (auto simp: algebra_simps)
qed simp

lemma unat_shifted: "unat (ucast (push_bit 8 (ucast (b :: u8) :: u16)) :: u32) = 256 * unat b"
proof -
  have "unat b < 256" using unsigned_less[of b, where ?'a = nat] by simp
  then have "unat (push_bit 8 (ucast b :: u16)) = 256 * unat b"
    by (simp only: unsigned_push_bit_eq unsigned_ucast_eq)
      (simp add: take_bit_eq_mod push_bit_eq_mult mult.commute)
  then show ?thesis using \<open>unat b < 256\<close>
    by (simp only: unsigned_ucast_eq) (simp add: take_bit_eq_mod)
qed

lemma unat_extended: "unat (ucast (ucast (b :: u8) :: u16) :: u32) = unat b"
proof -
  have "unat b < 256" using unsigned_less[of b, where ?'a = nat] by simp
  moreover from this have "unat (ucast b :: u16) = unat b"
    by (simp only: unsigned_ucast_eq) (simp add: take_bit_eq_mod)
  ultimately show ?thesis
    by (simp only: unsigned_ucast_eq[of "ucast b :: u16"]) (simp add: take_bit_eq_mod)
qed

lemma ck_add_sum:
  "unat (ck_sum c) + byte_sum (ck_parity c) data < two32 \<Longrightarrow>
     unat (ck_sum (ck_add c data)) = unat (ck_sum c) + byte_sum (ck_parity c) data \<and>
     ck_parity (ck_add c data) = (ck_parity c \<noteq> odd (length data))"
proof (induction c data rule: ck_add.induct)
  case (2 c b data)
  let ?v = "if \<not> ck_parity c then push_bit 8 (ucast b :: u16) else ucast b"
  have v: "unat (ucast ?v :: u32) = (if ck_parity c then unat b else 256 * unat b)"
    by (simp add: unat_shifted unat_extended)
  have "unat (ck_sum c) + unat (ucast ?v :: u32) < 2 ^ LENGTH(32)" using 2(2) v by simp
  then have "unat (ck_sum c + ucast ?v) = unat (ck_sum c) + unat (ucast ?v :: u32)"
    by (simp add: unat_add_lem[THEN iffD1])
  then show ?case using 2 v by (simp add: Let_def)
qed simp

lemma ck_add_append: "ck_add c (xs @ ys) = ck_add (ck_add c xs) ys"
  by (induction c xs rule: ck_add.induct) (simp_all add: Let_def)

lemma ck_value_unat: "unat (ck_value c) = 65535 - residue (unat (ck_sum c))"
proof -
  let ?r = "ck_fold (ck_sum c)"
  have r: "unat ?r = residue (unat (ck_sum c))" by (rule ck_fold_unat)
  then have le: "unat ?r \<le> 65535" using residue_le by simp
  have "NOT ?r = - 1 - ?r" unfolding not_eq_complement by (rule minus_diff_commute)
  then have "unat (NOT ?r) = unat (- 1 - ?r)" by simp
  also have "\<dots> = unat (- 1 :: u32) - unat ?r" by (rule unat_sub) simp
  finally have "unat (NOT ?r) = 4294967295 - unat ?r" by (simp add: unsigned_minus_1_eq_mask mask_eq_exp_minus_1)
  then have "unat (ck_value c) = (4294967295 - unat ?r) mod 65536"
    unfolding ck_value_def by (simp only: unsigned_ucast_eq) (simp add: take_bit_eq_mod)
  also have "4294967295 - unat ?r = 65535 * 65536 + (65535 - unat ?r)" using le by simp
  also have "(65535 * 65536 + (65535 - unat ?r)) mod 65536 = 65535 - unat ?r"
    unfolding mod_mult_self3 by (rule mod_less) simp
  finally show ?thesis using r by simp
qed

lemma ck_value_0: "ck_value c = 0 \<longleftrightarrow> 0 < unat (ck_sum c) \<and> unat (ck_sum c) mod 65535 = 0"
proof -
  have "ck_value c = 0 \<longleftrightarrow> unat (ck_value c) = 0" by (simp add: unsigned_eq_0_iff)
  also have "\<dots> \<longleftrightarrow> residue (unat (ck_sum c)) = 65535"
    using residue_le[of "unat (ck_sum c)"] by (auto simp: ck_value_unat)
  finally show ?thesis by (simp add: residue_top)
qed

text \<open>Packets are at most 65535 bytes long, so with a start value of the size of a pseudo-header
  sum the 32-bit accumulator does not overflow.\<close>

definition ck_fits :: "u32 \<Rightarrow> bytes \<Rightarrow> bool" where
  "ck_fits initial data \<longleftrightarrow> unat initial \<le> 16842495 \<and> length data \<le> 65535"

lemma ck_fits_bound: "ck_fits initial data \<Longrightarrow> unat initial + byte_sum False data < two32"
  using byte_sum_bound[of False data] by (simp add: ck_fits_def)

lemma ck_new_sum:
  assumes "ck_fits initial data"
  shows "unat (ck_sum (ck_add (ck_new initial) data)) = unat initial + byte_sum False data"
  using ck_add_sum[of "ck_new initial" data] ck_fits_bound[OF assms] by (simp add: ck_new_def)

lemma byte_sum_be16: "byte_sum False (be16 v) = unat v"
proof -
  have l: "unat v < 65536" using unsigned_less[of v, where ?'a = nat] by simp
  have "unat (ucast (drop_bit 8 v) :: u8) = unat (drop_bit 8 v) mod 256"
    by (simp only: unsigned_ucast_eq) (simp add: take_bit_eq_mod)
  also have "unat (drop_bit 8 v) = unat v div 256"
    using l by (simp only: unsigned_drop_bit_eq) (simp add: drop_bit_eq_div take_bit_nat_eq_self)
  also have "unat v div 256 mod 256 = unat v div 256" using l by (simp add: less_mult_imp_div_less)
  finally have hi: "unat (ucast (drop_bit 8 v) :: u8) = unat v div 256" .
  have lo: "unat (ucast v :: u8) = unat v mod 256"
    by (simp only: unsigned_ucast_eq) (simp add: take_bit_eq_mod)
  show ?thesis unfolding be16_def byte_sum.simps hi lo by simp
qed

lemma checksum_fill:
  assumes "ck_fits initial (pre @ [0, 0] @ post)" "even (length pre)"
    and c: "c = ck_value (ck_add (ck_new initial) (pre @ [0, 0] @ post))"
  shows "ck_value (ck_add (ck_new initial) (pre @ be16 c @ post)) = 0"
proof -
  let ?s = "unat initial + byte_sum False (pre @ [0, 0] @ post)"
  have fits: "ck_fits initial (pre @ be16 c @ post)" using assms(1) by (simp add: ck_fits_def)
  have "byte_sum False (pre @ be16 c @ post) = byte_sum False (pre @ [0, 0] @ post) + unat c"
    using assms(2) byte_sum_be16[of c] by (simp add: byte_sum_append)
  then have sum: "unat (ck_sum (ck_add (ck_new initial) (pre @ be16 c @ post))) = ?s + unat c"
    using ck_new_sum[OF fits] by simp
  have c': "unat c = 65535 - residue ?s" unfolding c ck_value_unat ck_new_sum[OF assms(1)] ..
  have "(?s + unat c) mod 65535 = (residue ?s + unat c) mod 65535"
    by (metis mod_add_left_eq residue_mod)
  also have "residue ?s + unat c = 65535" unfolding c' using residue_le[of ?s] by simp
  finally have "(?s + unat c) mod 65535 = 0" by simp
  moreover have "0 < ?s + unat c"
  proof (cases "?s = 0")
    case True
    then have "residue ?s = 0" by (simp add: residue_def)
    then show ?thesis unfolding c' by simp
  qed simp
  ultimately show ?thesis unfolding ck_value_0 sum by blast
qed

lemma mod_add_cancel_small:
  fixes x y :: nat
  assumes "x < m" "y < m" "(a + x) mod m = (a + y) mod m"
  shows "x = y"
proof -
  have *: "x = y" if "x \<le> y" "x < m" "y < m" "(a + x) mod m = (a + y) mod m" for x y
  proof -
    have "m dvd (a + y) - (a + x)" using that mod_eq_dvd_iff_nat[of "a + x" "a + y" m] by simp
    then have "m dvd y - x" by simp
    then show ?thesis using that nat_dvd_not_less[of "y - x" m] by (cases "x = y") auto
  qed
  show ?thesis using *[of x y] *[of y x] assms by (metis linear)
qed

section \<open>Properties\<close>

text \<open>C20: A packet whose 16-bit checksum field (at an even offset) is filled with the value computed
  over the packet with a zero field checks to zero, for every start value of the size of a
  pseudo-header sum and every packet of at most 65535 bytes.\<close>

theorem checksum_verifies:
  assumes "unat initial \<le> 16842495" "length pre + 2 + length post \<le> 65535" "even (length pre)"
  shows "ck_value (ck_add (ck_new initial)
    (pre @ unparse_u16 [] (ck_value (ck_add (ck_new initial) (pre @ [0, 0] @ post))) @ post)) = 0"
  using assms checksum_fill[of initial pre post] by (simp add: ck_fits_def wire)

theorem checksum_verifies_witness:
  "ck_value (ck_add (ck_new 6)
    ([1, 2] @ unparse_u16 [] (ck_value (ck_add (ck_new 6) ([1, 2] @ [0, 0] @ [3]))) @ [3])) = 0"
  by (rule checksum_verifies) simp_all

text \<open>If a packet checks to zero, then replacing any single byte of it by a different one makes
  the check fail.\<close>

lemma checksum_detects_byte:
  assumes "ck_value (ck_add (ck_new initial) (xs @ b # ys)) = 0" "b \<noteq> b'"
    and "unat initial \<le> 16842495" "length xs + 1 + length ys \<le> 65535"
  shows "ck_value (ck_add (ck_new initial) (xs @ b' # ys)) \<noteq> 0"
proof
  assume bad: "ck_value (ck_add (ck_new initial) (xs @ b' # ys)) = 0"
  let ?w = "if odd (length xs) then 1 else 256 :: nat"
  let ?o = "unat initial + byte_sum False xs + byte_sum (even (length xs)) ys"
  have sum: "unat (ck_sum (ck_add (ck_new initial) (xs @ x # ys))) = ?o + ?w * unat x" for x
    using ck_new_sum[of initial "xs @ x # ys"] assms(3,4) by (simp add: ck_fits_def byte_sum_append)
  have eq: "(?o + ?w * unat b) mod 65535 = (?o + ?w * unat b') mod 65535"
    using assms(1) bad unfolding ck_value_0 sum by simp
  have small: "?w * unat x < 65535" for x :: u8
    using unsigned_less[of x, where ?'a = nat] by simp
  have "?w * unat b = ?w * unat b'" by (rule mod_add_cancel_small[OF small small eq])
  then show False using assms(2) by (simp add: word_unat_eq_iff split: if_splits)
qed

end
