(* ===== verification/Wrapping_Integers.thy ===== *)
theory Wrapping_Integers
  imports Sponge_Prelude
begin

text \<open>
  Sequence numbers (\<^verbatim>\<open>libsponge/wrapping_integers.hh\<close> and \<^verbatim>\<open>.cc\<close>): the class
  \<open>WrappingInt32\<close>, its operators, and the two conversions \<open>wrap\<close> and \<open>unwrap\<close>
  between absolute 64-bit and relative 32-bit sequence numbers. The lemmas show that
  \<open>unwrap\<close> is a right inverse of \<open>wrap\<close>, that it picks the representable candidate
  closest to the checkpoint for every input, and that it recovers every absolute number
  less than \<open>2^31\<close> away from the checkpoint.
\<close>

section \<open>Definitions\<close>

datatype WrappingInt32 = WrappingInt32 (raw_value: u32)

definition wi_plus :: "WrappingInt32 \<Rightarrow> u32 \<Rightarrow> WrappingInt32" where
  "wi_plus a b = WrappingInt32 (raw_value a + b)"

definition wi_minus :: "WrappingInt32 \<Rightarrow> u32 \<Rightarrow> WrappingInt32" where
  "wi_minus a b = wi_plus a (- b)"

definition wi_diff :: "WrappingInt32 \<Rightarrow> WrappingInt32 \<Rightarrow> int" where
  "wi_diff a b = sint (raw_value a - raw_value b)"

definition wrap :: "nat \<Rightarrow> WrappingInt32 \<Rightarrow> WrappingInt32" where
  "wrap n isn = wi_plus isn (word_of_nat n)"

definition distance64 :: "nat \<Rightarrow> nat \<Rightarrow> nat" where
  "distance64 a checkpoint = (if a > checkpoint then sub64 a checkpoint else sub64 checkpoint a)"

definition unwrap :: "WrappingInt32 \<Rightarrow> WrappingInt32 \<Rightarrow> nat \<Rightarrow> nat" where
  "unwrap n isn checkpoint =
     (let offset = raw_value n - raw_value isn;
          offset_64 = unat offset;
          WRAP_MOD = two32;
          checkpoint_wraps = checkpoint div WRAP_MOD;
          base = add64 (mul64 checkpoint_wraps WRAP_MOD) offset_64;
          prev = (if checkpoint_wraps > 0
                  then add64 (mul64 (sub64 checkpoint_wraps 1) WRAP_MOD) offset_64
                  else offset_64);
          nxt = add64 (mul64 (add64 checkpoint_wraps 1) WRAP_MOD) offset_64;
          d0 = distance64 base checkpoint;
          d1 = distance64 prev checkpoint;
          d2 = distance64 nxt checkpoint
      in if d0 \<le> d1 \<and> d0 \<le> d2 then base
         else if d1 \<le> d2 then prev
         else nxt)"

section \<open>Congruence\<close>

lemma unat_word32_less: "unat (w :: u32) < two32"
  using unsigned_less[of w] by simp

lemma unat_u32_of_nat: "unat (word_of_nat n :: u32) = n mod two32"
  by (simp add: unat_of_nat)

lemma wrap_eq_iff: "wrap m isn = n \<longleftrightarrow> m mod two32 = unat (raw_value n - raw_value isn)"
proof -
  have "wrap m isn = n \<longleftrightarrow> word_of_nat m = raw_value n - raw_value isn"
    by (cases n) (auto simp: wrap_def wi_plus_def)
  also have "\<dots> \<longleftrightarrow> unat (word_of_nat m :: u32) = unat (raw_value n - raw_value isn)"
    by (rule word_unat_eq_iff)
  finally show ?thesis by (simp add: unat_u32_of_nat)
qed

lemma wrap_0 [simp]: "wrap 0 isn = isn"
  by (cases isn) (simp add: wrap_def wi_plus_def)

lemma wi_minus_wrap: "0 < n \<Longrightarrow> wi_minus (wrap n isn) 1 = wrap (n - 1) isn"
  by (cases n) (auto simp: wrap_def wi_minus_def wi_plus_def)

lemma wi_plus_wrap: "wi_plus (wrap n isn) (word_of_nat k) = wrap (n + k) isn"
  by (simp add: wrap_def wi_plus_def add.assoc)

lemma wrap_inj: "wrap m isn = wrap n isn \<longleftrightarrow> m mod two32 = n mod two32"
  unfolding wrap_eq_iff by (simp add: wrap_def wi_plus_def unat_u32_of_nat)

section \<open>The three candidates\<close>

text \<open>
  With \<open>q = checkpoint div 2^32\<close> and \<open>off\<close> the offset, the candidates are
  \<open>q * 2^32 + off\<close>, \<open>(q - 1) * 2^32 + off\<close> and \<open>(q + 1) * 2^32 + off\<close>. Only the
  last can leave the 64-bit range, and then it wraps to \<open>off\<close>, which is never closest.
\<close>

lemma distance64_dist:
  "a < two64 \<Longrightarrow> c < two64 \<Longrightarrow> distance64 a c = (if a > c then a - c else c - a)"
  by (simp add: distance64_def no_wrap)

lemma unwrap_cases:
  fixes off q :: nat
  assumes cp: "cp < two64"
    and off_def: "off = unat (raw_value n - raw_value isn)" and q_def: "q = cp div two32"
  shows "unwrap n isn cp =
    (let base = q * two32 + off;
         prev = (if 0 < q then (q - 1) * two32 + off else off);
         nxt = (if q + 1 < two32 then (q + 1) * two32 + off else off);
         d = (\<lambda>a. if a > cp then a - cp else cp - a)
     in if d base \<le> d prev \<and> d base \<le> d nxt then base
        else if d prev \<le> d nxt then prev else nxt)"
proof -
  have off: "off < two32" using unat_word32_less by (simp add: off_def)
  have q: "q < two32" using cp by (simp add: q_def less_mult_imp_div_less)
  have base: "add64 (mul64 q two32) off = q * two32 + off"
    using q off by (simp add: no_wrap)
  have prev: "(if 0 < q then add64 (mul64 (sub64 q 1) two32) off else off)
      = (if 0 < q then (q - 1) * two32 + off else off)"
    using q off by (simp add: no_wrap)
  have nxt: "add64 (mul64 (add64 q 1) two32) off
      = (if q + 1 < two32 then (q + 1) * two32 + off else off)"
  proof (cases "q + 1 < two32")
    case True
    then show ?thesis using off by (simp add: no_wrap)
  next
    case False
    with q have "q = two32 - 1" by simp
    then show ?thesis using off by (simp add: add64_def mul64_def)
  qed
  have b: "q * two32 + off < two64" "(if 0 < q then (q - 1) * two32 + off else off) < two64"
    "(if q + 1 < two32 then (q + 1) * two32 + off else off) < two64"
    using q off by auto
  show ?thesis
    unfolding unwrap_def off_def[symmetric] q_def[symmetric] Let_def base prev nxt
    by (simp only: distance64_dist[OF b(1) cp] distance64_dist[OF b(2) cp]
        distance64_dist[OF b(3) cp])
qed

lemma unwrap_mod: 
  assumes "cp < two64"
  shows "unwrap n isn cp mod two32 = unat (raw_value n - raw_value isn)"
proof -
  define off where "off = unat (raw_value n - raw_value isn)"
  have off: "off < two32" using unat_word32_less by (simp add: off_def)
  define q where "q = cp div two32"
  have "unwrap n isn cp \<in> {q * two32 + off, (q - 1) * two32 + off, (q + 1) * two32 + off, off}"
    unfolding unwrap_cases[OF assms off_def q_def] Let_def by (auto split: if_splits)
  moreover have "(k * two32 + off) mod two32 = off" for k
    using off by simp
  ultimately show ?thesis using off unfolding off_def[symmetric]
    by (elim insertE emptyE) (simp_all only: mod_less)
qed

lemma unwrap_less: "cp < two64 \<Longrightarrow> unwrap n isn cp < two64"
  using unat_word32_less[of "raw_value n - raw_value isn"] by (simp add: unwrap_def Let_def)

text \<open>Any other number with the same residue is at least as far away.\<close>

lemma unwrap_le_candidates:
  fixes off q :: nat
  assumes "cp < two64" "off = unat (raw_value n - raw_value isn)" "q = cp div two32"
  shows "\<bar>int (unwrap n isn cp) - int cp\<bar> \<le> \<bar>int (q * two32 + off) - int cp\<bar>"
    and "0 < q \<Longrightarrow>
      \<bar>int (unwrap n isn cp) - int cp\<bar> \<le> \<bar>int ((q - 1) * two32 + off) - int cp\<bar>"
    and "q + 1 < two32 \<Longrightarrow>
      \<bar>int (unwrap n isn cp) - int cp\<bar> \<le> \<bar>int ((q + 1) * two32 + off) - int cp\<bar>"
proof -
  define d where "d a = (if a > cp then a - cp else cp - a)" for a
  have d: "\<bar>int a - int cp\<bar> = int (d a)" for a by (simp add: d_def)
  show "\<bar>int (unwrap n isn cp) - int cp\<bar> \<le> \<bar>int (q * two32 + off) - int cp\<bar>"
    and "0 < q \<Longrightarrow>
      \<bar>int (unwrap n isn cp) - int cp\<bar> \<le> \<bar>int ((q - 1) * two32 + off) - int cp\<bar>"
    and "q + 1 < two32 \<Longrightarrow>
      \<bar>int (unwrap n isn cp) - int cp\<bar> \<le> \<bar>int ((q + 1) * two32 + off) - int cp\<bar>"
    unfolding d unwrap_cases[OF assms] Let_def d_def[symmetric] by auto
qed

lemma unwrap_nearest:
  assumes "cp < two64" "m < two64" "m mod two32 = unat (raw_value n - raw_value isn)"
  shows "\<bar>int (unwrap n isn cp) - int cp\<bar> \<le> \<bar>int m - int cp\<bar>"
proof -
  define off where "off = unat (raw_value n - raw_value isn)"
  define q where "q = cp div two32"
  define p where "p = m div two32"
  have off: "off < two32" using unat_word32_less by (simp add: off_def)
  have m: "m = p * two32 + off"
    using div_mult_mod_eq[of m two32] assms(3) by (simp add: p_def off_def)
  have q: "q * two32 \<le> cp" "cp < q * two32 + two32"
    using div_times_less_eq_dividend[of cp two32] dividend_less_div_times[of two32 cp]
    by (simp_all add: q_def)
  have p: "p < two32" using assms(2) m by linarith
  note le = unwrap_le_candidates[OF assms(1) off_def q_def]
  consider "p = q" | "p + 1 = q" | "p = q + 1" | "p + 2 \<le> q" | "q + 2 \<le> p" by linarith
  then show ?thesis
  proof cases
    case 1 then show ?thesis using le(1) m by simp
  next
    case 2 then have "p = q - 1" "0 < q" by simp_all
    with le(2) m show ?thesis by (simp only:)
  next
    case 3 with le(3) m p show ?thesis by (simp only:)
  next
    case 4
    then have "m \<le> (q - 1) * two32 + off" "(q - 1) * two32 + off \<le> cp" "0 < q"
      using m q off by simp_all
    then show ?thesis using le(2) by linarith
  next
    case 5
    then have "(q + 1) * two32 + off \<le> m" "cp \<le> (q + 1) * two32 + off" "q + 1 < two32"
      using m q off p by simp_all
    then show ?thesis using le(3) by linarith
  qed
qed

lemma unwrap_wrap_near:
  assumes "cp < two64" "m < two64" "m < cp + 2147483648" "cp < m + 2147483648"
  shows "unwrap (wrap m isn) isn cp = m"
proof -
  define u where "u = unwrap (wrap m isn) isn cp"
  have m: "m mod two32 = unat (raw_value (wrap m isn) - raw_value isn)"
    using wrap_eq_iff[of m isn "wrap m isn"] by simp
  have "\<bar>int u - int cp\<bar> \<le> \<bar>int m - int cp\<bar>"
    unfolding u_def by (rule unwrap_nearest[OF assms(1,2) m])
  then have "\<bar>int u - int m\<bar> < int two32" using assms(3,4) by linarith
  moreover have "int u mod int two32 = int m mod int two32"
    using unwrap_mod[OF assms(1), of "wrap m isn" isn] m unfolding u_def zmod_int[symmetric]
    by simp
  then have "int two32 dvd (int u - int m)" by (simp only: mod_eq_dvd_iff)
  ultimately have "int u = int m" using zdvd_imp_le[of "int two32" "\<bar>int u - int m\<bar>"] by force
  then show ?thesis by (simp add: u_def)
qed

section \<open>Properties\<close>

text \<open>C6: \<open>unwrap n isn checkpoint\<close> is, for every 64-bit checkpoint, a 64-bit number that
  wraps to \<open>n\<close>, and no 64-bit number that wraps to \<open>n\<close> is closer to the checkpoint. The
  candidate that overflows the 64-bit range near the top never wins.\<close>

theorem unwrap_closest:
  assumes "checkpoint < two64"
  shows "wrap (unwrap n isn checkpoint) isn = n \<and> unwrap n isn checkpoint < two64 \<and>
    (\<forall>m < two64. wrap m isn = n \<longrightarrow>
       \<bar>int (unwrap n isn checkpoint) - int checkpoint\<bar> \<le> \<bar>int m - int checkpoint\<bar>)"
proof (intro conjI allI impI)
  show "wrap (unwrap n isn checkpoint) isn = n"
    unfolding wrap_eq_iff by (rule unwrap_mod[OF assms])
  show "unwrap n isn checkpoint < two64" by (rule unwrap_less[OF assms])
  fix m assume "m < two64" "wrap m isn = n"
  then show "\<bar>int (unwrap n isn checkpoint) - int checkpoint\<bar> \<le> \<bar>int m - int checkpoint\<bar>"
    unfolding wrap_eq_iff by (rule unwrap_nearest[OF assms])
qed

theorem unwrap_closest_witness:
  "wrap (unwrap (WrappingInt32 20) (WrappingInt32 16) 8000000000) (WrappingInt32 16)
     = WrappingInt32 20 \<and>
   unwrap (WrappingInt32 20) (WrappingInt32 16) 8000000000 = 8589934596"
proof
  show "wrap (unwrap (WrappingInt32 20) (WrappingInt32 16) 8000000000) (WrappingInt32 16)
     = WrappingInt32 20"
    by (rule unwrap_closest[THEN conjunct1]) simp
  show "unwrap (WrappingInt32 20) (WrappingInt32 16) 8000000000 = 8589934596"
    by (simp add: unwrap_def Let_def distance64_def add64_def sub64_def mul64_def)
qed

text \<open>C7: an absolute sequence number survives the trip through its 32-bit form whenever it is
  less than \<open>2^31\<close> away from the checkpoint, whatever the initial sequence number.\<close>

theorem unwrap_wrap_roundtrip:
  assumes "n < two64" "checkpoint < two64"
    and "\<bar>int n - int checkpoint\<bar> < 2147483648"
  shows "unwrap (wrap n isn) isn checkpoint = n"
  by (rule unwrap_wrap_near) (use assms in linarith)+

theorem unwrap_wrap_roundtrip_witness:
  "unwrap (wrap 5000000000 (WrappingInt32 4294967295)) (WrappingInt32 4294967295) 4900000000
     = 5000000000"
  by (rule unwrap_wrap_roundtrip) simp_all

end
