(* ===== verification/TCP_Segment.thy ===== *)
theory TCP_Segment
  imports Internet_Checksum Wrapping_Integers
begin

text \<open>
  TCP headers and segments (\<^verbatim>\<open>libsponge/tcp_helpers/tcp_header.hh\<close>, \<^verbatim>\<open>tcp_header.cc\<close>,
  \<^verbatim>\<open>tcp_segment.hh\<close>, \<^verbatim>\<open>tcp_segment.cc\<close>). Parsing passes the parser along field by field in the
  order of the source; the exception of \<open>serialize\<close> is \<open>None\<close>. A serialized segment is the list of
  its two buffers. The lemmas: a segment with a legal data offset is read back from its wire
  form, checksum included, and the exact set of byte strings that \<open>TCPSegment::parse\<close> accepts.
\<close>

section \<open>Header\<close>

record TCPHeader =
  th_sport :: u16
  th_dport :: u16
  th_seqno :: WrappingInt32
  th_ackno :: WrappingInt32
  th_doff :: u8
  th_urg :: bool
  th_ack :: bool
  th_psh :: bool
  th_rst :: bool
  th_syn :: bool
  th_fin :: bool
  th_win :: u16
  th_cksum :: u16
  th_uptr :: u16

abbreviation TCP_LENGTH :: nat where
  "TCP_LENGTH \<equiv> 20"

definition th_default :: TCPHeader where
  "th_default = \<lparr>th_sport = 0, th_dport = 0, th_seqno = WrappingInt32 0, th_ackno = WrappingInt32 0,
     th_doff = 5, th_urg = False, th_ack = False, th_psh = False, th_rst = False, th_syn = False,
     th_fin = False, th_win = 0, th_cksum = 0, th_uptr = 0\<rparr>"

definition th_parse :: "NetParser \<Rightarrow> TCPHeader \<times> NetParser \<times> ParseResult" where
  "th_parse p =
     (case np_u16 p of (sport, p) \<Rightarrow>
      case np_u16 p of (dport, p) \<Rightarrow>
      case np_u32 p of (seqno, p) \<Rightarrow>
      case np_u32 p of (ackno, p) \<Rightarrow>
      case np_u8 p of (off_b, p) \<Rightarrow>
      case np_u8 p of (fl_b, p) \<Rightarrow>
      case np_u16 p of (win, p) \<Rightarrow>
      case np_u16 p of (cksum, p) \<Rightarrow>
      case np_u16 p of (uptr, p) \<Rightarrow>
        (let doff = drop_bit 4 off_b;
             h = \<lparr>th_sport = sport, th_dport = dport, th_seqno = WrappingInt32 seqno,
                  th_ackno = WrappingInt32 ackno, th_doff = doff,
                  th_urg = (fl_b AND 0x20 \<noteq> 0), th_ack = (fl_b AND 0x10 \<noteq> 0),
                  th_psh = (fl_b AND 0x08 \<noteq> 0), th_rst = (fl_b AND 0x04 \<noteq> 0),
                  th_syn = (fl_b AND 0x02 \<noteq> 0), th_fin = (fl_b AND 0x01 \<noteq> 0),
                  th_win = win, th_cksum = cksum, th_uptr = uptr\<rparr>
         in if doff < 5 then (h, p, HeaderTooShort)
            else let p' = np_remove_prefix (unat doff * 4 - TCP_LENGTH) p
                 in if np_is_error p' then (h, p', np_error p') else (h, p', NoError)))"

definition th_flags :: "TCPHeader \<Rightarrow> u8" where
  "th_flags h = (if th_urg h then 0x20 else 0) OR (if th_ack h then 0x10 else 0) OR
     (if th_psh h then 0x08 else 0) OR (if th_rst h then 0x04 else 0) OR
     (if th_syn h then 0x02 else 0) OR (if th_fin h then 0x01 else 0)"

definition resize :: "bytes \<Rightarrow> nat \<Rightarrow> bytes" where
  "resize s n = take n s @ replicate (n - length s) 0"

definition th_serialize :: "TCPHeader \<Rightarrow> bytes option" where
  "th_serialize h =
     (if th_doff h < 5 then None
      else let ret = unparse_u16 [] (th_sport h);
               ret = unparse_u16 ret (th_dport h);
               ret = unparse_u32 ret (raw_value (th_seqno h));
               ret = unparse_u32 ret (raw_value (th_ackno h));
               ret = unparse_u8 ret (push_bit 4 (th_doff h));
               ret = unparse_u8 ret (th_flags h);
               ret = unparse_u16 ret (th_win h);
               ret = unparse_u16 ret (th_cksum h);
               ret = unparse_u16 ret (th_uptr h)
           in Some (resize ret (4 * unat (th_doff h))))"

definition th_equal :: "TCPHeader \<Rightarrow> TCPHeader \<Rightarrow> bool" where
  "th_equal h k \<longleftrightarrow> th_seqno h = th_seqno k \<and> th_ackno h = th_ackno k \<and> th_doff h = th_doff k \<and>
     th_urg h = th_urg k \<and> th_ack h = th_ack k \<and> th_psh h = th_psh k \<and> th_rst h = th_rst k \<and>
     th_syn h = th_syn k \<and> th_fin h = th_fin k \<and> th_win h = th_win k \<and> th_uptr h = th_uptr k"

section \<open>Segment\<close>

record TCPSegment =
  ts_header :: TCPHeader
  ts_payload :: bytes

definition ts_default :: TCPSegment where
  "ts_default = \<lparr>ts_header = th_default, ts_payload = []\<rparr>"

definition ts_parse :: "TCPSegment \<Rightarrow> bytes \<Rightarrow> u32 \<Rightarrow> TCPSegment \<times> ParseResult" where
  "ts_parse seg buffer datagram_layer_checksum =
     (if ck_value (ck_add (ck_new datagram_layer_checksum) buffer) \<noteq> 0 then (seg, BadChecksum)
      else case th_parse (np_new buffer) of (h, p, _) \<Rightarrow>
        (\<lparr>ts_header = h, ts_payload = np_buffer p\<rparr>, np_error p))"

definition ts_length_in_sequence_space :: "TCPSegment \<Rightarrow> nat" where
  "ts_length_in_sequence_space seg = length (ts_payload seg)
     + (if th_syn (ts_header seg) then 1 else 0) + (if th_fin (ts_header seg) then 1 else 0)"

definition ts_serialize :: "TCPSegment \<Rightarrow> u32 \<Rightarrow> bytes list option" where
  "ts_serialize seg datagram_layer_checksum =
     (let header_out = (ts_header seg)\<lparr>th_cksum := 0\<rparr>
      in case th_serialize header_out of
           None \<Rightarrow> None
         | Some zero_form \<Rightarrow>
             (let check = ck_add (ck_new datagram_layer_checksum) zero_form;
                  check' = ck_add check (ts_payload seg);
                  header_out' = header_out\<lparr>th_cksum := ck_value check'\<rparr>
              in case th_serialize header_out' of
                   None \<Rightarrow> None
                 | Some form \<Rightarrow> Some ([] @ [form] @ [ts_payload seg])))"

section \<open>Wire form\<close>

lemma drop_push_4: "d < 16 \<Longrightarrow> drop_bit 4 (push_bit 4 d :: u8) = d"
proof -
  assume d: "d < 16"
  then have "take_bit 4 d = d"
    by (simp add: take_bit_eq_mod mod_word_less)
  moreover have "drop_bit 4 (push_bit 4 d :: u8) = take_bit 4 d"
    by (rule bit_eqI) (auto simp: bit_simps)
  ultimately show ?thesis by simp
qed

lemma th_flags_bits:
  "(th_flags h AND 0x20 \<noteq> 0) = th_urg h" "(th_flags h AND 0x10 \<noteq> 0) = th_ack h"
  "(th_flags h AND 0x08 \<noteq> 0) = th_psh h" "(th_flags h AND 0x04 \<noteq> 0) = th_rst h"
  "(th_flags h AND 0x02 \<noteq> 0) = th_syn h" "(th_flags h AND 0x01 \<noteq> 0) = th_fin h"
  unfolding th_flags_def
  by (cases "th_urg h"; cases "th_ack h"; cases "th_psh h"; cases "th_rst h"; cases "th_syn h";
      cases "th_fin h"; simp)+

text \<open>The 16 bytes before the checksum, and what follows it.\<close>

definition th_front :: "TCPHeader \<Rightarrow> bytes" where
  "th_front h = be16 (th_sport h) @ be16 (th_dport h) @ be32 (raw_value (th_seqno h)) @
     be32 (raw_value (th_ackno h)) @ be8 (push_bit 4 (th_doff h)) @ be8 (th_flags h) @ be16 (th_win h)"

definition th_back :: "TCPHeader \<Rightarrow> bytes" where
  "th_back h = be16 (th_uptr h) @ replicate (4 * unat (th_doff h) - 20) 0"

lemma th_front_length [simp]: "length (th_front h) = 16"
  by (simp add: th_front_def)

lemma th_front_cksum [simp]: "th_front (h\<lparr>th_cksum := c\<rparr>) = th_front h"
  by (simp add: th_front_def th_flags_def)

lemma th_back_cksum [simp]: "th_back (h\<lparr>th_cksum := c\<rparr>) = th_back h"
  by (simp add: th_back_def)

lemma doff_unat: "\<not> d < (5 :: u8) \<Longrightarrow> 5 \<le> unat d"
  by (simp add: word_less_nat_alt not_less)

lemma th_serialize_eq:
  "th_serialize h =
     (if th_doff h < 5 then None else Some (th_front h @ be16 (th_cksum h) @ th_back h))"
proof (cases "th_doff h < 5")
  case False
  have "resize s n = s @ replicate (n - length s) 0" if "length s \<le> n" for s n
    using that by (simp add: resize_def)
  then show ?thesis
    using doff_unat[OF False] False by (simp add: th_serialize_def Let_def wire th_front_def th_back_def)
qed (simp add: th_serialize_def)

lemma np_remove_prefix_code:
  "length s = n \<Longrightarrow> np_remove_prefix n \<lparr>np_buffer = s @ rest, np_error = NoError\<rparr>
     = \<lparr>np_buffer = rest, np_error = NoError\<rparr>"
  by (simp add: np_remove_prefix_def np_check_size_def Let_def)

lemma th_parse_wire:
  assumes "5 \<le> th_doff h" "th_doff h < 16"
  shows "th_parse (np_new (th_front h @ be16 (th_cksum h) @ th_back h @ rest)) = (h, np_new rest, NoError)"
proof -
  have d: "drop_bit 4 (push_bit 4 (th_doff h)) = th_doff h" using drop_push_4[OF assms(2)] .
  have "\<not> th_doff h < 5" using assms(1) by simp
  moreover from doff_unat[OF this] have "unat (th_doff h) * 4 - 20 = length (replicate (4 * unat (th_doff h) - 20) (0 :: u8))"
    by simp
  ultimately show ?thesis
    unfolding th_parse_def np_new_def th_front_def th_back_def append_assoc np_get prod.case Let_def d
      th_flags_bits
    by (simp add: np_remove_prefix_code)
qed

lemma th_parse_serialize:
  assumes "5 \<le> th_doff h" "th_doff h < 16"
  obtains bs where "th_serialize h = Some bs" "length bs = 4 * unat (th_doff h)"
    "th_parse (np_new (bs @ rest)) = (h, np_new rest, NoError)"
proof -
  have "\<not> th_doff h < 5" using assms(1) by simp
  with doff_unat[OF this] show thesis
    using that[of "th_front h @ be16 (th_cksum h) @ th_back h"] th_parse_wire[OF assms, of rest]
    by (simp add: th_serialize_eq th_back_def)
qed

lemma ts_serialize_eq:
  assumes "\<not> th_doff (ts_header s) < 5"
  shows "ts_serialize s init =
    (let h = ts_header s;
         c = ck_value (ck_add (ck_new init) (th_front h @ [0, 0] @ th_back h @ ts_payload s))
     in Some [th_front h @ be16 c @ th_back h, ts_payload s])"
proof -
  have "be16 0 = [0, 0]" by (simp add: be16_def)
  then show ?thesis
    using assms by (simp add: ts_serialize_def th_serialize_eq Let_def ck_add_append[symmetric])
qed

text \<open>The parser after the nine fixed fields, and the byte that holds the data offset.\<close>

lemma th_fields_consume:
  "consumes 12 p (snd (np_u32 (snd (np_u32 (snd (np_u16 (snd (np_u16 p))))))))"
  "consumes 8 q (snd (np_u16 (snd (np_u16 (snd (np_u16 (snd (np_u8 (snd (np_u8 q))))))))))"
  using consumes_trans[OF consumes_trans[OF consumes_trans[OF n16.get_consumes n16.get_consumes]
        n32.get_consumes] n32.get_consumes, of p]
    consumes_trans[OF consumes_trans[OF consumes_trans[OF consumes_trans[OF n8.get_consumes
          n8.get_consumes] n16.get_consumes] n16.get_consumes] n16.get_consumes, of q]
  by (simp_all add: eval_nat_numeral)

lemma np_u8_hd:
  assumes "np_error q = NoError" "np_buffer q \<noteq> []"
  shows "fst (np_u8 q) = hd (np_buffer q)"
  using n8.get_enough[OF assms(1)] assms(2) by (cases "np_buffer q") (auto simp: be8_def)

lemma th_parse_error:
  assumes "th_parse (np_new buffer) = (h, p, r)"
  shows "np_error p = NoError \<longleftrightarrow> 20 \<le> length buffer \<and>
    (drop_bit 4 (buffer ! 12) < 5 \<or> 4 * unat (drop_bit 4 (buffer ! 12)) \<le> length buffer)"
proof -
  let ?p0 = "np_new buffer"
  define q where "q = snd (np_u32 (snd (np_u32 (snd (np_u16 (snd (np_u16 ?p0)))))))"
  define p9 where "p9 = snd (np_u16 (snd (np_u16 (snd (np_u16 (snd (np_u8 (snd (np_u8 q)))))))))"
  define off where "off = drop_bit 4 (fst (np_u8 q))"
  note c12 = th_fields_consume(1)[of ?p0, folded q_def] and c8 = th_fields_consume(2)[of q, folded p9_def]
  note c20 = consumes_trans[OF c12 c8]
  have p: "p = (if off < 5 then p9 else np_remove_prefix (unat off * 4 - 20) p9)"
    using assms unfolding th_parse_def split_beta q_def[symmetric] p9_def[symmetric]
      off_def[symmetric] Let_def by (auto split: if_splits)
  show ?thesis
  proof (cases "20 \<le> length buffer")
    case True
    then have e9: "np_error p9 = NoError" "np_buffer p9 = drop 20 buffer"
      using c20 by (auto simp: consumes_def np_new_def)
    have "np_error q = NoError" "np_buffer q = drop 12 buffer"
      using c12 True by (auto simp: consumes_def np_new_def)
    then have off: "off = drop_bit 4 (buffer ! 12)"
      using True np_u8_hd[of q] unfolding off_def by (simp add: hd_drop_conv_nth)
    show ?thesis
    proof (cases "off < 5")
      case False
      have "5 \<le> unat off" by (rule doff_unat[OF False])
      then show ?thesis
        using np_remove_prefix_consumes[of "unat off * 4 - 20" p9] e9 True False
        unfolding p off consumes_def by auto
    qed (use e9 True off p in simp)
  next
    case False
    then have "np_error p9 \<noteq> NoError" using c20 by (auto simp: consumes_def np_new_def)
    then show ?thesis
      using False np_remove_prefix_consumes[of "unat off * 4 - 20" p9] unfolding p consumes_def by auto
  qed
qed

lemma ts_parse_serialize:
  assumes "5 \<le> th_doff (ts_header s)" "th_doff (ts_header s) < 16"
    and "length (ts_payload s) \<le> 65475" "unat psum \<le> 16842495"
  shows "\<exists>bl c. ts_serialize s psum = Some bl \<and>
    ts_parse s0 (concat bl) psum = (s\<lparr>ts_header := (ts_header s)\<lparr>th_cksum := c\<rparr>\<rparr>, NoError)"
proof -
  let ?h = "ts_header s"
  define c where "c = ck_value (ck_add (ck_new psum) (th_front ?h @ [0, 0] @ th_back ?h @ ts_payload s))"
  have "unat (th_doff ?h) < 16" using assms(2) by (simp add: word_less_nat_alt)
  then have "ck_fits psum (th_front ?h @ [0, 0] @ th_back ?h @ ts_payload s)"
    using assms(3,4) by (simp add: ck_fits_def th_back_def)
  then have zero: "ck_value (ck_add (ck_new psum) (th_front ?h @ be16 c @ th_back ?h @ ts_payload s)) = 0"
    by (rule checksum_fill) (simp_all add: c_def)
  have "th_parse (np_new (th_front ?h @ be16 c @ th_back ?h @ ts_payload s))
      = (?h\<lparr>th_cksum := c\<rparr>, np_new (ts_payload s), NoError)"
    using th_parse_wire[of "?h\<lparr>th_cksum := c\<rparr>" "ts_payload s"] assms(1,2) by simp
  then have "ts_parse s0 (concat [th_front ?h @ be16 c @ th_back ?h, ts_payload s]) psum
      = (s\<lparr>ts_header := ?h\<lparr>th_cksum := c\<rparr>\<rparr>, NoError)"
    using zero by (simp add: ts_parse_def np_new_def)
  moreover have "ts_serialize s psum = Some [th_front ?h @ be16 c @ th_back ?h, ts_payload s]"
    using ts_serialize_eq[of s psum] assms(1) by (simp add: c_def Let_def)
  ultimately show ?thesis by blast
qed

text \<open>Segments as a packet format, for a fixed pseudo-header sum.\<close>

definition ts_valid :: "u32 \<Rightarrow> TCPSegment \<Rightarrow> bool" where
  "ts_valid psum s \<longleftrightarrow> 5 \<le> th_doff (ts_header s) \<and> th_doff (ts_header s) < 16 \<and>
     length (ts_payload s) \<le> 65475 \<and> unat psum \<le> 16842495"

definition ts_same :: "TCPSegment \<Rightarrow> TCPSegment \<Rightarrow> bool" where
  "ts_same s t \<longleftrightarrow> (\<exists>c. t = s\<lparr>ts_header := (ts_header s)\<lparr>th_cksum := c\<rparr>\<rparr>)"

interpretation tcp: wire_format "\<lambda>s b. ts_parse s b psum" "\<lambda>s. ts_serialize s psum" "ts_valid psum" ts_same
  by unfold_locales (use ts_parse_serialize in \<open>fastforce simp: ts_valid_def ts_same_def\<close>)

section \<open>Honest segments\<close>

text \<open>A segment is honest for a stream \<open>S\<close> with initial sequence number \<open>isn\<close> if a SYN carries
  \<open>isn\<close> and a payload is the piece of \<open>S\<close> at the index that its sequence number stands for.\<close>

definition segment_of :: "bytes \<Rightarrow> WrappingInt32 \<Rightarrow> TCPSegment \<Rightarrow> bool" where
  "segment_of S isn seg \<longleftrightarrow>
     (th_syn (ts_header seg) \<longrightarrow> th_seqno (ts_header seg) = isn) \<and>
     (ts_payload seg \<noteq> [] \<longrightarrow>
        (\<exists>i. th_seqno (ts_header seg) = wrap (if th_syn (ts_header seg) then 0 else Suc i) isn \<and>
             (th_syn (ts_header seg) \<longrightarrow> i = 0) \<and> slice_at S i (ts_payload seg)))"

lemma segment_of_mono: "segment_of S isn seg \<Longrightarrow> segment_of (S @ T) isn seg"
  unfolding segment_of_def using slice_at_prefix by fastforce

section \<open>Properties\<close>

text \<open>C17: A segment with a legal data offset, serialized with a pseudo-header sum and parsed with
  the same sum, is accepted and comes back unchanged except for the checksum field, which holds
  the value that was computed.\<close>

theorem tcp_segment_roundtrip:
  assumes "5 \<le> th_doff (ts_header s)" "th_doff (ts_header s) < 16"
    and "length (ts_payload s) \<le> 65475" "unat psum \<le> 16842495"
  shows "\<exists>bl c. ts_serialize s psum = Some bl \<and>
    ts_parse s0 (concat bl) psum = (s\<lparr>ts_header := (ts_header s)\<lparr>th_cksum := c\<rparr>\<rparr>, NoError)"
  using assms by (rule ts_parse_serialize)

theorem tcp_segment_roundtrip_witness:
  "\<exists>bl c. ts_serialize \<lparr>ts_header = th_default\<lparr>th_syn := True\<rparr>, ts_payload = [1, 2, 3]\<rparr> 77 = Some bl \<and>
    ts_parse ts_default (concat bl) 77 =
      (\<lparr>ts_header = th_default\<lparr>th_syn := True, th_cksum := c\<rparr>, ts_payload = [1, 2, 3]\<rparr>, NoError)"
  using tcp_segment_roundtrip[of "\<lparr>ts_header = th_default\<lparr>th_syn := True\<rparr>, ts_payload = [1, 2, 3]\<rparr>" 77 ts_default]
  by (simp add: th_default_def)

text \<open>Exactly which byte strings \<open>TCPSegment::parse\<close> accepts: the checksum is right, there are
  twenty bytes, and either all of the header that the data offset claims is there or the data
  offset is below the legal minimum. The last case is accepted because the \<open>HeaderTooShort\<close>
  result of \<open>TCPHeader::parse\<close> is discarded.\<close>

lemma tcp_segment_accepts:
  "snd (ts_parse s buffer psum) = NoError \<longleftrightarrow>
     ck_value (ck_add (ck_new psum) buffer) = 0 \<and> 20 \<le> length buffer \<and>
     (drop_bit 4 (buffer ! 12) < 5 \<or> 4 * unat (drop_bit 4 (buffer ! 12)) \<le> length buffer)"
proof -
  obtain h p r where "th_parse (np_new buffer) = (h, p, r)" by (metis prod_cases3)
  then show ?thesis using th_parse_error[of buffer h p r] by (simp add: ts_parse_def)
qed

end
