(* ===== verification/TCP_Receiver.thy ===== *)
theory TCP_Receiver
  imports Stream_Reassembler TCP_Segment
begin

text \<open>
  The receiving half of a TCP endpoint (\<^verbatim>\<open>libsponge/tcp_receiver.hh\<close> and \<^verbatim>\<open>.cc\<close>): it takes the
  initial sequence number from the first SYN, turns sequence numbers into stream indices and
  pushes payloads into the reassembler. \<open>None\<close> is the undefined behaviour of the reassembler,
  which is excluded for honest segments.

  A segment is honest for a stream \<open>S\<close> (\<open>segment_of\<close>) if its payload is the piece of \<open>S\<close> its
  sequence number says. For honest segments in any order the output is a prefix of \<open>S\<close>. A FIN is
  not checked against its sequence number: the last property shows what that leads to.
\<close>

record TCPReceiver =
  tr_reassembler :: StreamReassembler
  tr_capacity :: nat
  tr_syn :: bool
  tr_fin :: bool
  tr_isn :: WrappingInt32

definition tr_new :: "nat \<Rightarrow> TCPReceiver" where
  "tr_new capacity = \<lparr>tr_reassembler = sr_new capacity, tr_capacity = capacity, tr_syn = False,
     tr_fin = False, tr_isn = WrappingInt32 0\<rparr>"

definition tr_stream_out :: "TCPReceiver \<Rightarrow> ByteStream" where
  "tr_stream_out r = sr_output (tr_reassembler r)"

definition tr_unassembled_bytes :: "TCPReceiver \<Rightarrow> nat" where
  "tr_unassembled_bytes r = sr_unassembled_bytes (tr_reassembler r)"

definition tr_push :: "TCPReceiver \<Rightarrow> TCPSegment \<Rightarrow> TCPReceiver option" where
  "tr_push r seg =
     (let header = ts_header seg;
          data = ts_payload seg
      in if length data > 0 then
           (if th_syn header \<or> th_seqno header \<noteq> tr_isn r then
              (let index = unwrap (wi_minus (th_seqno header) (if \<not> th_syn header then 1 else 0))
                             (tr_isn r) (sr_first_unassembled (tr_reassembler r))
               in map_option (\<lambda>a. r\<lparr>tr_reassembler := a\<rparr>)
                    (sr_push_substring (tr_reassembler r) data index (th_fin header)))
            else Some r)
         else Some r)"

definition tr_finish :: "TCPReceiver \<Rightarrow> TCPSegment \<Rightarrow> TCPReceiver" where
  "tr_finish r seg =
     (if th_fin (ts_header seg) \<or> tr_fin r then
        (let r' = r\<lparr>tr_fin := True\<rparr>
         in if sr_unassembled_bytes (tr_reassembler r') = 0
            then r'\<lparr>tr_reassembler := (tr_reassembler r')\<lparr>sr_output :=
                   bs_end_input (sr_output (tr_reassembler r'))\<rparr>\<rparr>
            else r')
      else r)"

definition tr_segment_received :: "TCPReceiver \<Rightarrow> TCPSegment \<Rightarrow> TCPReceiver option" where
  "tr_segment_received r seg =
     (let header = ts_header seg
      in if \<not> tr_syn r \<and> \<not> th_syn header then Some r
         else let r1 = (if \<not> tr_syn r then r\<lparr>tr_isn := th_seqno header, tr_syn := True\<rparr> else r)
              in if \<not> tr_syn r1 then Some r1
                 else map_option (\<lambda>r2. tr_finish r2 seg) (tr_push r1 seg))"

definition tr_ackno :: "TCPReceiver \<Rightarrow> WrappingInt32 option" where
  "tr_ackno r =
     (if tr_syn r then
        (let index = add64 (sr_first_unassembled (tr_reassembler r)) 1;
             index = (if bs_input_ended (tr_stream_out r) then add64 index 1 else index)
         in Some (wrap index (tr_isn r)))
      else None)"

definition tr_window_size :: "TCPReceiver \<Rightarrow> nat" where
  "tr_window_size r = sub64 (tr_capacity r) (bs_buffer_size (tr_stream_out r))"

section \<open>Invariant\<close>

definition recv_ok :: "bytes \<Rightarrow> WrappingInt32 \<Rightarrow> TCPReceiver \<Rightarrow> bool" where
  "recv_ok S isn r \<longleftrightarrow> sr_ok (tr_reassembler r) \<and> bs.tracks S (sr_output (tr_reassembler r)) \<and>
     agrees S (sr_unassembled_segments (tr_reassembler r)) \<and>
     (tr_syn r \<longrightarrow> tr_isn r = isn) \<and> sr_capacity (tr_reassembler r) = tr_capacity r"

lemma recv_ok_new: "capacity < two64 \<Longrightarrow> recv_ok S isn (tr_new capacity)"
  using sr_ok_new[of capacity]
  by (simp add: recv_ok_def tr_new_def bs.tracks_def) (simp add: sr_new_def bs_new_def)

lemma recv_ok_mono: "recv_ok S isn r \<Longrightarrow> recv_ok (S @ T) isn r"
  by (auto simp: recv_ok_def bs.tracks_def span_prefix agrees_def intro: slice_at_prefix)

lemma recv_ok_fu: "recv_ok S isn r \<Longrightarrow> sr_first_unassembled (tr_reassembler r) \<le> length S"
  using sr_invD(3)[OF sr_ok_inv] by (auto simp: recv_ok_def bs.tracks_def)

lemma sr_ok_end_input: "sr_ok (a\<lparr>sr_output := bs_end_input (sr_output a)\<rparr>) = sr_ok a"
  by (auto simp: sr_ok_def sr_inv_def bs_end_input_def bs_ok_def)

lemma tr_finish_ok:
  "recv_ok S isn r \<Longrightarrow> recv_ok S isn (tr_finish r seg)"
  "bs_bytes_read (sr_output (tr_reassembler (tr_finish r seg))) = bs_bytes_read (sr_output (tr_reassembler r))"
  "tr_capacity (tr_finish r seg) = tr_capacity r"
  by (auto simp: recv_ok_def tr_finish_def Let_def sr_ok_end_input bs.tracks_def)
    (simp_all add: bs_end_input_def)

lemma tr_push_ok:
  assumes ok: "recv_ok S isn r" and seg: "segment_of S isn seg" and syn: "tr_syn r"
    and len: "length S < 2147483648"
  obtains r' where "tr_push r seg = Some r'" "recv_ok S isn r'" "tr_syn r'"
    "bs_bytes_read (sr_output (tr_reassembler r')) = bs_bytes_read (sr_output (tr_reassembler r))"
    "tr_capacity r' = tr_capacity r"
proof (cases "ts_payload seg = [] \<or> \<not> th_syn (ts_header seg) \<and> th_seqno (ts_header seg) = isn")
  case True
  moreover have "tr_isn r = isn" using ok syn by (simp add: recv_ok_def)
  ultimately have "tr_push r seg = Some r" by (auto simp: tr_push_def Let_def)
  then show thesis using ok syn by (intro that) simp_all
next
  case False
  let ?h = "ts_header seg" and ?a = "tr_reassembler r" and ?d = "ts_payload seg"
  obtain i where i: "th_seqno ?h = wrap (if th_syn ?h then 0 else Suc i) isn" "th_syn ?h \<longrightarrow> i = 0"
    "slice_at S i ?d"
    using seg False by (auto simp: segment_of_def)
  have isn: "tr_isn r = isn" using ok syn by (simp add: recv_ok_def)
  have "wi_minus (th_seqno ?h) (if \<not> th_syn ?h then 1 else 0) = wrap i isn"
  proof (cases "th_syn ?h")
    case True
    have "wi_minus isn 0 = isn" by (cases isn) (simp add: wi_minus_def wi_plus_def)
    then show ?thesis using True i(1,2) by simp
  next
    case False
    then show ?thesis using i(1) wi_minus_wrap[of "Suc i" isn] by simp
  qed
  moreover have il: "i + length ?d \<le> length S" using i(3) by (simp add: slice_at_def)
  moreover have "unwrap (wrap i isn) isn (sr_first_unassembled ?a) = i"
    using il len recv_ok_fu[OF ok] by (intro unwrap_wrap_near) linarith+
  ultimately have push: "tr_push r seg =
      map_option (\<lambda>a. r\<lparr>tr_reassembler := a\<rparr>) (sr_push_substring ?a ?d i (th_fin ?h))"
    using False isn by (simp add: tr_push_def Let_def)
  have "sr_ok ?a" "i + length ?d < two64" using ok il len by (simp_all add: recv_ok_def)
  then obtain a' where a': "sr_push_substring ?a ?d i (th_fin ?h) = Some a'" "pushes ?a ?d i (th_fin ?h) a'"
    using sr_push_pushes by blast
  have "recv_ok S isn (r\<lparr>tr_reassembler := a'\<rparr>)"
    using a'(2) ok i(3) by (simp add: recv_ok_def pushes_def)
  then show thesis using that push a' syn by (simp add: pushes_def)
qed

lemma tr_push_syn: "tr_push r seg = Some r' \<Longrightarrow> tr_syn r' = tr_syn r"
  by (auto simp: tr_push_def Let_def split: if_splits)

lemma tr_segment_received_syn:
  "tr_segment_received r seg = Some r' \<Longrightarrow> tr_syn r' \<longleftrightarrow> tr_syn r \<or> th_syn (ts_header seg)"
  by (auto simp: tr_segment_received_def tr_finish_def Let_def dest!: tr_push_syn split: if_splits)

lemma tr_segment_received_ok:
  assumes ok: "recv_ok S isn r" and seg: "segment_of S isn seg" and len: "length S < 2147483648"
  obtains r' where "tr_segment_received r seg = Some r'" "recv_ok S isn r'"
    "bs_bytes_read (sr_output (tr_reassembler r')) = bs_bytes_read (sr_output (tr_reassembler r))"
    "tr_capacity r' = tr_capacity r"
proof (cases "\<not> tr_syn r \<and> \<not> th_syn (ts_header seg)")
  case True
  then show thesis using that ok by (simp add: tr_segment_received_def)
next
  case False
  define r1 where "r1 = (if \<not> tr_syn r then r\<lparr>tr_isn := th_seqno (ts_header seg), tr_syn := True\<rparr> else r)"
  have r1: "recv_ok S isn r1" "tr_syn r1" using ok seg False by (auto simp: r1_def recv_ok_def segment_of_def)
  then obtain r2 where r2: "tr_push r1 seg = Some r2" "recv_ok S isn r2"
    "bs_bytes_read (sr_output (tr_reassembler r2)) = bs_bytes_read (sr_output (tr_reassembler r1))"
    "tr_capacity r2 = tr_capacity r1"
    using tr_push_ok[OF r1(1) seg r1(2) len] by metis
  have "tr_segment_received r seg = Some (tr_finish r2 seg)"
    unfolding tr_segment_received_def Let_def r1_def[symmetric] using False r1(2) r2(1) by auto
  then show thesis using that tr_finish_ok(1)[OF r2(2)] r2(3,4) tr_finish_ok(2,3)[of r2 seg]
    by (simp add: r1_def split: if_splits)
qed

text \<open>The first segment, when it carries nothing but the SYN.\<close>

lemma tr_syn_received:
  assumes "th_syn (ts_header seg)" "\<not> th_fin (ts_header seg)" "ts_payload seg = []"
  shows "tr_segment_received (tr_new cap) seg
      = Some ((tr_new cap)\<lparr>tr_isn := th_seqno (ts_header seg), tr_syn := True\<rparr>)"
    "tr_ackno ((tr_new cap)\<lparr>tr_isn := isn, tr_syn := True\<rparr>) = Some (wrap 1 isn)"
  using assms
  by (simp_all add: tr_segment_received_def tr_push_def tr_finish_def tr_new_def tr_ackno_def
      tr_stream_out_def sr_new_def bs_new_def Let_def no_wrap)

section \<open>Properties\<close>

text \<open>C16: A segment with FIN and no payload ends the input whenever no out-of-order bytes are stored,
  whatever its sequence number is: a FIN that overtakes the data before it cuts the stream short,
  and the acknowledgment number then also covers a byte that has not arrived.\<close>

theorem early_fin_ends_input:
  assumes "tr_syn r" "tr_unassembled_bytes r = 0" "th_fin (ts_header seg)" "ts_payload seg = []"
    and "sr_first_unassembled (tr_reassembler r) + 2 < two64"
  shows "\<exists>r'. tr_segment_received r seg = Some r' \<and> bs_input_ended (tr_stream_out r') \<and>
    sr_first_unassembled (tr_reassembler r') = sr_first_unassembled (tr_reassembler r) \<and>
    tr_ackno r' = Some (wrap (sr_first_unassembled (tr_reassembler r) + 2) (tr_isn r))"
  using assms
  by (simp add: tr_segment_received_def tr_push_def tr_finish_def tr_unassembled_bytes_def tr_ackno_def
      tr_stream_out_def sr_unassembled_bytes_def bs_end_input_def Let_def no_wrap)

theorem early_fin_ends_input_witness:
  "\<exists>r'. tr_segment_received ((tr_new 8)\<lparr>tr_syn := True, tr_isn := WrappingInt32 10\<rparr>)
      (ts_default\<lparr>ts_header := th_default\<lparr>th_fin := True, th_seqno := WrappingInt32 16\<rparr>\<rparr>) = Some r' \<and>
    bs_input_ended (tr_stream_out r') \<and> sr_first_unassembled (tr_reassembler r') = 0 \<and>
    tr_ackno r' = Some (WrappingInt32 12)"
proof -
  let ?r = "(tr_new 8)\<lparr>tr_syn := True, tr_isn := WrappingInt32 10\<rparr>"
  let ?s = "ts_default\<lparr>ts_header := th_default\<lparr>th_fin := True, th_seqno := WrappingInt32 16\<rparr>\<rparr>"
  have "tr_unassembled_bytes ?r = 0" "sr_first_unassembled (tr_reassembler ?r) = 0"
    by (simp_all add: tr_new_def sr_new_def tr_unassembled_bytes_def sr_unassembled_bytes_def)
  then show ?thesis
    using early_fin_ends_input[of ?r ?s] by (simp add: ts_default_def wrap_def wi_plus_def)
qed

end
