(* ===== verification/TCP_Sender.thy ===== *)
theory TCP_Sender
  imports Byte_Stream TCP_Segment
begin

text \<open>
  The sending half of a TCP endpoint (\<^verbatim>\<open>libsponge/tcp_sender.hh\<close> and \<^verbatim>\<open>.cc\<close>) with its
  retransmission timer, and the constants of \<^verbatim>\<open>tcp_helpers/tcp_config.hh\<close>. One round of the
  \<^verbatim>\<open>while (true)\<close> loop of \<open>fill_window\<close> is \<open>sn_fill_step\<close>, which also says whether the loop goes on;
  the loop is a total function. The random initial sequence number is an argument of the
  constructor. Times and timeouts are \<open>unsigned int\<close> in the timer and \<open>size_t\<close> in the sender;
  the conversions are written out.
\<close>

section \<open>Configuration\<close>

abbreviation DEFAULT_CAPACITY :: nat where "DEFAULT_CAPACITY \<equiv> 64000"
abbreviation MAX_PAYLOAD_SIZE :: nat where "MAX_PAYLOAD_SIZE \<equiv> 1000"
abbreviation TIMEOUT_DFLT :: nat where "TIMEOUT_DFLT \<equiv> 1000"
abbreviation MAX_RETX_ATTEMPTS :: nat where "MAX_RETX_ATTEMPTS \<equiv> 8"

record TCPConfig =
  cfg_rt_timeout :: nat
  cfg_recv_capacity :: nat
  cfg_send_capacity :: nat
  cfg_fixed_isn :: "WrappingInt32 option"

definition cfg_default :: TCPConfig where
  "cfg_default = \<lparr>cfg_rt_timeout = TIMEOUT_DFLT, cfg_recv_capacity = DEFAULT_CAPACITY,
     cfg_send_capacity = DEFAULT_CAPACITY, cfg_fixed_isn = None\<rparr>"

section \<open>Timer\<close>

record Timer =
  tm_active :: bool
  tm_is_expired :: bool
  tm_current_time :: nat
  tm_timeout :: nat

definition tm_new :: Timer where
  "tm_new = \<lparr>tm_active = False, tm_is_expired = False, tm_current_time = 0, tm_timeout = 0\<rparr>"

definition tm_start :: "nat \<Rightarrow> Timer \<Rightarrow> Timer" where
  "tm_start timeout t = \<lparr>tm_active = True, tm_is_expired = False, tm_current_time = 0,
     tm_timeout = timeout\<rparr>"

definition tm_update :: "nat \<Rightarrow> Timer \<Rightarrow> Timer" where
  "tm_update time_elapsed t =
     (if \<not> tm_active t then t
      else let t' = t\<lparr>tm_current_time := add32 (tm_current_time t) time_elapsed\<rparr>
           in if tm_current_time t' \<ge> tm_timeout t' then t'\<lparr>tm_is_expired := True\<rparr> else t')"

definition tm_reset :: "Timer \<Rightarrow> Timer" where
  "tm_reset t = \<lparr>tm_active = False, tm_is_expired = False, tm_current_time = 0, tm_timeout = 0\<rparr>"

definition tm_expired :: "Timer \<Rightarrow> bool" where
  "tm_expired t \<longleftrightarrow> tm_active t \<and> tm_is_expired t"

section \<open>Sender\<close>

record TCPSender =
  sn_isn :: WrappingInt32
  sn_segments_out :: "TCPSegment list"
  sn_initial_retransmission_timeout :: nat
  sn_stream :: ByteStream
  sn_timer :: Timer
  sn_next_seqno :: nat
  sn_abs_ackno :: nat
  sn_window_size :: nat
  sn_outstanding_segments :: "(nat \<times> TCPSegment) list"
  sn_in_flight :: nat
  sn_elapsed_time :: nat
  sn_time_expired :: nat
  sn_retransmission_timeout :: nat
  sn_consecutive_retransmissions :: nat

text \<open>\<open>rnd\<close> is the value of \<^verbatim>\<open>random_device()()\<close>.\<close>

definition sn_new :: "u32 \<Rightarrow> nat \<Rightarrow> nat \<Rightarrow> WrappingInt32 option \<Rightarrow> TCPSender" where
  "sn_new rnd capacity retx_timeout fixed_isn =
     \<lparr>sn_isn = (case fixed_isn of Some isn \<Rightarrow> isn | None \<Rightarrow> WrappingInt32 rnd),
      sn_segments_out = [], sn_initial_retransmission_timeout = retx_timeout,
      sn_stream = bs_new capacity, sn_timer = tm_new, sn_next_seqno = 0, sn_abs_ackno = 0,
      sn_window_size = 1, sn_outstanding_segments = [], sn_in_flight = 0, sn_elapsed_time = 0,
      sn_time_expired = 0, sn_retransmission_timeout = retx_timeout,
      sn_consecutive_retransmissions = 0\<rparr>"

fun sn_flight_loop :: "(nat \<times> TCPSegment) list \<Rightarrow> nat \<Rightarrow> nat" where
  "sn_flight_loop [] res = res"
| "sn_flight_loop (front # tmp_queue) res =
     sn_flight_loop tmp_queue (add64 res (ts_length_in_sequence_space (snd front)))"

definition sn_bytes_in_flight :: "TCPSender \<Rightarrow> nat" where
  "sn_bytes_in_flight s = sn_flight_loop (sn_outstanding_segments s) 0"

definition sn_available_space :: "TCPSender \<Rightarrow> nat" where
  "sn_available_space s =
     (let effective_window_size = (if sn_window_size s = 0 then 1 else sn_window_size s);
          d = sub64 (add64 (sn_abs_ackno s) effective_window_size) (sn_next_seqno s)
      in if d > 0 then d else 0)"

text \<open>The segment of one round: what it takes from the stream, and the stream after that.\<close>

definition sn_make_segment :: "TCPSender \<Rightarrow> nat \<Rightarrow> bool \<Rightarrow> TCPSegment \<times> ByteStream" where
  "sn_make_segment s available_space syn_needed =
     (let h = th_default\<lparr>th_seqno := wrap (sn_next_seqno s) (sn_isn s), th_syn := syn_needed\<rparr>;
          room = sub64 available_space (if th_syn h then 1 else 0);
          max_payload_size = min MAX_PAYLOAD_SIZE room;
          (stream, payload) = bs_read (sn_stream s) max_payload_size;
          fin_space = sub64 room (length payload) > 0;
          h = (if bs_eof stream \<and> bs_buffer_empty stream \<and> fin_space then h\<lparr>th_fin := True\<rparr> else h)
      in (\<lparr>ts_header = h, ts_payload = payload\<rparr>, stream))"

definition sn_fill_step :: "TCPSender \<Rightarrow> TCPSender \<times> bool" where
  "sn_fill_step s =
     (let available_space = sn_available_space s in
      if available_space = 0 then (s, False)
      else
        let syn_needed = (sn_next_seqno s = 0);
            data_available = (\<not> bs_buffer_empty (sn_stream s));
            fin_needed = ((bs_eof (sn_stream s) \<and> bs_buffer_empty (sn_stream s)) \<and>
                          sn_next_seqno s < add64 (bs_bytes_written (sn_stream s)) 2)
        in if \<not> syn_needed \<and> \<not> data_available \<and> \<not> fin_needed then (s, False)
           else
             case sn_make_segment s available_space syn_needed of (seg, stream) \<Rightarrow>
               (let s1 = s\<lparr>sn_stream := stream\<rparr>;
                    seg_size = ts_length_in_sequence_space seg
                in if seg_size = 0 \<or> seg_size > available_space then (s1, False)
                   else
                     (s1\<lparr>sn_segments_out := sn_segments_out s1 @ [seg],
                         sn_outstanding_segments :=
                           sn_outstanding_segments s1 @ [(sn_next_seqno s1, seg)],
                         sn_in_flight := add64 (sn_in_flight s1) seg_size,
                         sn_next_seqno := add64 (sn_next_seqno s1) seg_size,
                         sn_timer := (if \<not> tm_active (sn_timer s1)
                                      then tm_start (sn_retransmission_timeout s1 mod two32) (sn_timer s1)
                                      else sn_timer s1)\<rparr>, True)))"

lemma bs_read_parts:
  "snd (bs_read t n) = take n (bs_buffer t)" "bs_buffer (fst (bs_read t n)) = drop n (bs_buffer t)"
  "bs_bytes_written (fst (bs_read t n)) = bs_bytes_written t"
  "bs_input_ended (fst (bs_read t n)) = bs_input_ended t"
  "bs_capacity (fst (bs_read t n)) = bs_capacity t"
  by (simp_all add: bs_read_def bs_pop_output_def bs_peek_output_eq bs_pop_loop_eq Let_def min_def)

lemma sn_make_segment_parts:
  assumes "sn_make_segment s av syn = (seg, stream)"
  shows "stream = fst (bs_read (sn_stream s) (min MAX_PAYLOAD_SIZE (sub64 av (if syn then 1 else 0))))"
    "ts_payload seg = take (min MAX_PAYLOAD_SIZE (sub64 av (if syn then 1 else 0))) (bs_buffer (sn_stream s))"
    "th_seqno (ts_header seg) = wrap (sn_next_seqno s) (sn_isn s)" "th_syn (ts_header seg) = syn"
    "th_fin (ts_header seg) \<longleftrightarrow> bs_eof stream \<and> bs_buffer_empty stream \<and>
       sub64 (sub64 av (if syn then 1 else 0)) (length (ts_payload seg)) > 0"
proof -
  define room where "room = sub64 av (if syn then 1 else 0)"
  define t where "t = fst (bs_read (sn_stream s) (min MAX_PAYLOAD_SIZE room))"
  define pl where "pl = take (min MAX_PAYLOAD_SIZE room) (bs_buffer (sn_stream s))"
  define c where "c \<longleftrightarrow> bs_eof t \<and> bs_buffer_empty t \<and> sub64 room (length pl) > 0"
  let ?h = "th_default\<lparr>th_seqno := wrap (sn_next_seqno s) (sn_isn s), th_syn := syn\<rparr>"
  have room: "sub64 av (if th_syn ?h then 1 else 0) = room" by (simp add: room_def)
  have eq: "\<lparr>ts_header = if c then ?h\<lparr>th_fin := True\<rparr> else ?h, ts_payload = pl\<rparr> = seg" "t = stream"
    using assms unfolding sn_make_segment_def Let_def split_beta room bs_read_parts(1)
      pl_def[symmetric] t_def[symmetric] c_def[symmetric] by simp_all
  show "stream = fst (bs_read (sn_stream s) (min MAX_PAYLOAD_SIZE (sub64 av (if syn then 1 else 0))))"
    unfolding eq(2)[symmetric] t_def room_def ..
  have f: "th_fin ?h = False" by (simp add: th_default_def)
  show "ts_payload seg = take (min MAX_PAYLOAD_SIZE (sub64 av (if syn then 1 else 0))) (bs_buffer (sn_stream s))"
    unfolding eq(1)[symmetric] pl_def room_def by simp
  show "th_seqno (ts_header seg) = wrap (sn_next_seqno s) (sn_isn s)" "th_syn (ts_header seg) = syn"
    unfolding eq(1)[symmetric] by (cases c; simp)+
  have "th_fin (ts_header seg) = c" unfolding eq(1)[symmetric] using f by (cases c) simp_all
  then show "th_fin (ts_header seg) \<longleftrightarrow> bs_eof stream \<and> bs_buffer_empty stream \<and>
       sub64 (sub64 av (if syn then 1 else 0)) (length (ts_payload seg)) > 0"
    unfolding eq(1,2)[symmetric] c_def room_def by simp
qed

lemma sn_available_less: "sn_available_space s < two64"
  by (simp add: sn_available_space_def Let_def)

definition fill_rest :: "TCPSender \<Rightarrow> nat" where
  "fill_rest s = (if sn_next_seqno s = 0 then Suc two64
     else add64 (bs_bytes_written (sn_stream s)) 2 - sn_next_seqno s)"

text \<open>What one round that goes on has done.\<close>

lemma sn_fill_step_True:
  assumes "sn_fill_step s = (s', True)"
  obtains seg stream where "sn_make_segment s (sn_available_space s) (sn_next_seqno s = 0) = (seg, stream)"
    "0 < sn_available_space s" "0 < ts_length_in_sequence_space seg"
    "ts_length_in_sequence_space seg \<le> sn_available_space s"
    "sn_next_seqno s = 0 \<or> \<not> bs_buffer_empty (sn_stream s) \<or>
       bs_eof (sn_stream s) \<and> sn_next_seqno s < add64 (bs_bytes_written (sn_stream s)) 2"
    "s' = s\<lparr>sn_stream := stream, sn_segments_out := sn_segments_out s @ [seg],
       sn_outstanding_segments := sn_outstanding_segments s @ [(sn_next_seqno s, seg)],
       sn_in_flight := add64 (sn_in_flight s) (ts_length_in_sequence_space seg),
       sn_next_seqno := add64 (sn_next_seqno s) (ts_length_in_sequence_space seg),
       sn_timer := (if \<not> tm_active (sn_timer s)
          then tm_start (sn_retransmission_timeout s mod two32) (sn_timer s) else sn_timer s)\<rparr>"
proof -
  obtain seg stream where m: "sn_make_segment s (sn_available_space s) (sn_next_seqno s = 0) = (seg, stream)"
    by fastforce
  show thesis
    using assms that[OF m] unfolding sn_fill_step_def Let_def m
    by (auto split: if_splits)
qed

lemma sn_fill_step_decreases:
  assumes "sn_fill_step s = (s', True)"
  shows "(s', s) \<in> measures [\<lambda>s. length (bs_buffer (sn_stream s)), fill_rest]"
proof -
  obtain seg stream where st: "sn_make_segment s (sn_available_space s) (sn_next_seqno s = 0) = (seg, stream)"
    "0 < sn_available_space s" "0 < ts_length_in_sequence_space seg"
    "sn_next_seqno s = 0 \<or> \<not> bs_buffer_empty (sn_stream s) \<or>
       bs_eof (sn_stream s) \<and> sn_next_seqno s < add64 (bs_bytes_written (sn_stream s)) 2"
    and s': "sn_stream s' = stream"
      "sn_next_seqno s' = add64 (sn_next_seqno s) (ts_length_in_sequence_space seg)"
    using assms by (rule sn_fill_step_True) simp
  note parts = sn_make_segment_parts[OF st(1)]
  have b: "bs_buffer stream = drop (length (ts_payload seg)) (bs_buffer (sn_stream s))"
    unfolding parts(1,2) by (simp add: bs_read_parts min_def)
  have bw: "bs_bytes_written stream = bs_bytes_written (sn_stream s)"
    unfolding parts(1) by (rule bs_read_parts(3))
  show ?thesis
  proof (cases "ts_payload seg = []")
    case False
    then have "0 < length (bs_buffer (sn_stream s))" unfolding parts(2) by auto
    then show ?thesis using False b s' by auto
  next
    case pl: True
    then have b': "bs_buffer stream = bs_buffer (sn_stream s)" using b by simp
    have "fill_rest s' < fill_rest s"
    proof (cases "sn_next_seqno s = 0")
      case True
      then have "sn_next_seqno s' \<noteq> 0"
        using s'(2) pl parts(4) by (simp add: ts_length_in_sequence_space_def no_wrap)
      moreover have "add64 (bs_bytes_written stream) 2 - sn_next_seqno s' < Suc two64"
        using add64_less[of "bs_bytes_written stream" 2] by linarith
      ultimately show ?thesis using True s'(1) by (simp add: fill_rest_def)
    next
      case False
      then have one: "ts_length_in_sequence_space seg = 1" and fin: "th_fin (ts_header seg)"
        using st(3) pl parts(4) by (auto simp: ts_length_in_sequence_space_def split: if_splits)
      then have "bs_buffer_empty (sn_stream s)" using parts(5) b' by (simp add: bs_buffer_empty_def)
      then have lt: "sn_next_seqno s < add64 (bs_bytes_written (sn_stream s)) 2" using st(4) False by simp
      then have "sn_next_seqno s + 1 < two64"
        using add64_less[of "bs_bytes_written (sn_stream s)" 2] by linarith
      then have "sn_next_seqno s' = sn_next_seqno s + 1" using s'(2) one by (simp add: no_wrap)
      then show ?thesis using lt False s'(1) bw by (simp add: fill_rest_def)
    qed
    then show ?thesis using b' s'(1) by simp
  qed
qed

function sn_fill_window :: "TCPSender \<Rightarrow> TCPSender" where
  "sn_fill_window s = (case sn_fill_step s of (s', go_on) \<Rightarrow> if go_on then sn_fill_window s' else s')"
  by pat_completeness auto

termination sn_fill_window
  by (relation "measures [\<lambda>s. length (bs_buffer (sn_stream s)), fill_rest]")
    (simp, metis sn_fill_step_decreases)

declare sn_fill_window.simps [simp del]

text \<open>The loop of \<open>ack_received\<close> that drops acknowledged segments.\<close>

fun sn_ack_loop :: "(nat \<times> TCPSegment) list \<Rightarrow> nat \<Rightarrow> TCPSender \<Rightarrow> TCPSender" where
  "sn_ack_loop [] abs_ackno s = s\<lparr>sn_outstanding_segments := []\<rparr>"
| "sn_ack_loop ((seqno, seg) # rest) abs_ackno s =
     (if add64 seqno (ts_length_in_sequence_space seg) \<le> abs_ackno then
        (let s1 = s\<lparr>sn_in_flight := sub64 (sn_in_flight s) (ts_length_in_sequence_space seg),
                    sn_consecutive_retransmissions := 0,
                    sn_retransmission_timeout := sn_initial_retransmission_timeout s\<rparr>;
             s2 = s1\<lparr>sn_timer := (if rest \<noteq> []
                       then tm_start (sn_retransmission_timeout s1 mod two32) (sn_timer s1)
                       else tm_reset (sn_timer s1))\<rparr>
         in sn_ack_loop rest abs_ackno s2)
      else s\<lparr>sn_outstanding_segments := (seqno, seg) # rest\<rparr>)"

definition sn_ack_received :: "WrappingInt32 \<Rightarrow> u16 \<Rightarrow> TCPSender \<Rightarrow> TCPSender" where
  "sn_ack_received ackno window_size s =
     (let abs_ackno = unwrap ackno (sn_isn s) (add64 (sn_abs_ackno s) 1);
          s1 = s\<lparr>sn_window_size := unat window_size\<rparr>
      in if abs_ackno > sn_next_seqno s1 then s1
         else let s2 = s1\<lparr>sn_abs_ackno := abs_ackno\<rparr>
              in sn_fill_window (sn_ack_loop (sn_outstanding_segments s2) abs_ackno s2))"

definition sn_tick :: "nat \<Rightarrow> TCPSender \<Rightarrow> TCPSender" where
  "sn_tick ms_since_last_tick s =
     (if tm_active (sn_timer s) then
        (let s1 = s\<lparr>sn_timer := tm_update (ms_since_last_tick mod two32) (sn_timer s)\<rparr>
         in if tm_expired (sn_timer s1) then
              (case sn_outstanding_segments s1 of
                 [] \<Rightarrow> s1
               | (seqno, front) # _ \<Rightarrow>
                   (let seg = front\<lparr>ts_header := (ts_header front)\<lparr>th_seqno := wrap seqno (sn_isn s1)\<rparr>\<rparr>;
                        s2 = s1\<lparr>sn_segments_out := sn_segments_out s1 @ [seg]\<rparr>;
                        s3 = (if sn_window_size s2 > 0
                              then s2\<lparr>sn_consecutive_retransmissions :=
                                        add32 (sn_consecutive_retransmissions s2) 1,
                                      sn_retransmission_timeout :=
                                        mul64 (sn_retransmission_timeout s2) 2\<rparr>
                              else s2)
                    in s3\<lparr>sn_timer :=
                          tm_start (sn_retransmission_timeout s3 mod two32) (sn_timer s3)\<rparr>))
            else s1)
      else s)"

definition sn_send_empty_segment :: "TCPSender \<Rightarrow> TCPSender" where
  "sn_send_empty_segment s =
     (let seg = ts_default\<lparr>ts_header := th_default\<lparr>th_seqno := wrap (sn_next_seqno s) (sn_isn s)\<rparr>\<rparr>
      in s\<lparr>sn_segments_out := sn_segments_out s @ [seg]\<rparr>)"

definition sn_send_empty_flags :: "bool \<Rightarrow> bool \<Rightarrow> bool \<Rightarrow> TCPSender \<Rightarrow> TCPSender" where
  "sn_send_empty_flags syn fin rst s =
     (let seg = ts_default\<lparr>ts_header := th_default\<lparr>th_seqno := wrap (sn_next_seqno s) (sn_isn s),
                  th_syn := syn, th_fin := fin, th_rst := rst\<rparr>\<rparr>
      in s\<lparr>sn_segments_out := sn_segments_out s @ [seg],
           sn_outstanding_segments := sn_outstanding_segments s @ [(sn_next_seqno s, seg)],
           sn_next_seqno := add64 (sn_next_seqno s) (ts_length_in_sequence_space seg)\<rparr>)"

definition sn_next_seqno_relative :: "TCPSender \<Rightarrow> WrappingInt32" where
  "sn_next_seqno_relative s = wrap (sn_next_seqno s) (sn_isn s)"

section \<open>The loop of fill\_window\<close>

lemma sn_segment_size:
  assumes "sn_make_segment s av syn = (seg, stream)" "0 < av" "av < two64"
  shows "ts_length_in_sequence_space seg \<le> av"
    "syn \<or> \<not> bs_buffer_empty (sn_stream s) \<or> bs_eof (sn_stream s) \<Longrightarrow> 0 < ts_length_in_sequence_space seg"
proof -
  note parts = sn_make_segment_parts[OF assms(1)]
  let ?room = "sub64 av (if syn then 1 else 0)"
  have room: "?room = av - (if syn then 1 else 0)" using assms(2,3) by (simp add: no_wrap)
  have pl: "length (ts_payload seg) \<le> ?room" unfolding parts(2) by simp
  have "?room < two64" by simp
  then have "sub64 ?room (length (ts_payload seg)) = ?room - length (ts_payload seg)"
    using pl by (intro sub64_id)
  then have fin: "th_fin (ts_header seg) \<longleftrightarrow> bs_eof stream \<and> bs_buffer_empty stream \<and> length (ts_payload seg) < ?room"
    using parts(5) by auto
  show "ts_length_in_sequence_space seg \<le> av"
    unfolding ts_length_in_sequence_space_def parts(4) using pl fin room assms(2) by auto
  assume a: "syn \<or> \<not> bs_buffer_empty (sn_stream s) \<or> bs_eof (sn_stream s)"
  show "0 < ts_length_in_sequence_space seg"
  proof (cases "syn \<or> ts_payload seg \<noteq> []")
    case True
    then show ?thesis using parts(4) by (auto simp: ts_length_in_sequence_space_def)
  next
    case False
    then have "?room = av" using assms(3) by (simp add: no_wrap)
    then have "bs_buffer (sn_stream s) = []" using False assms(2) parts(2) by auto
    then have "bs_eof stream" "bs_buffer_empty stream"
      using a False parts(1) by (auto simp: bs_eof_def bs_buffer_empty_def bs_read_parts)
    then show ?thesis using fin False assms(2) \<open>?room = av\<close> by (simp add: ts_length_in_sequence_space_def)
  qed
qed

text \<open>The size check after the payload was taken never fires: the loop ends without losing bytes.\<close>

lemma sn_fill_step_False:
  assumes "sn_fill_step s = (s', False)"
  shows "s' = s" "sn_available_space s = 0 \<or> sn_next_seqno s \<noteq> 0 \<and> bs_buffer_empty (sn_stream s) \<and>
    \<not> (bs_eof (sn_stream s) \<and> sn_next_seqno s < add64 (bs_bytes_written (sn_stream s)) 2)"
proof -
  obtain seg stream where m: "sn_make_segment s (sn_available_space s) (sn_next_seqno s = 0) = (seg, stream)"
    by fastforce
  note size = sn_segment_size[OF m _ sn_available_less]
  show "s' = s" "sn_available_space s = 0 \<or> sn_next_seqno s \<noteq> 0 \<and> bs_buffer_empty (sn_stream s) \<and>
    \<not> (bs_eof (sn_stream s) \<and> sn_next_seqno s < add64 (bs_bytes_written (sn_stream s)) 2)"
    using assms size unfolding sn_fill_step_def Let_def m by (auto split: if_splits)
qed

lemma sn_fill_window_invar:
  assumes "P s" "\<And>s s'. P s \<Longrightarrow> sn_fill_step s = (s', True) \<Longrightarrow> P s'"
  shows "P (sn_fill_window s)"
  using assms(1)
proof (induction s rule: sn_fill_window.induct)
  case (1 s)
  obtain s' b where st: "sn_fill_step s = (s', b)" by fastforce
  show ?case
  proof (cases b)
    case True
    then show ?thesis using 1 assms(2) st by (subst sn_fill_window.simps) simp
  next
    case False
    then have "s' = s" using st sn_fill_step_False(1)[of s s'] by simp
    then show ?thesis using 1(2) st False by (subst sn_fill_window.simps) simp
  qed
qed

lemma sn_fill_window_done: "sn_fill_step (sn_fill_window s) = (sn_fill_window s, False)"
proof (induction s rule: sn_fill_window.induct)
  case (1 s)
  obtain s' b where st: "sn_fill_step s = (s', b)" by fastforce
  show ?case
  proof (cases b)
    case True
    then have "sn_fill_window s = sn_fill_window s'" using st by (subst sn_fill_window.simps) simp
    then show ?thesis using 1 st True by simp
  next
    case False
    then have "sn_fill_window s = s" using st sn_fill_step_False(1) by (subst sn_fill_window.simps) simp
    then show ?thesis using st False sn_fill_step_False(1) by simp
  qed
qed

section \<open>Invariant\<close>

text \<open>\<open>S\<close> is everything written to the outgoing stream so far. All segments are honest, what was
  read from the stream is what the sequence numbers used so far stand for, and the outstanding
  segments are consecutive up to the next sequence number.\<close>

fun consecutive :: "(nat \<times> TCPSegment) list \<Rightarrow> nat \<Rightarrow> bool" where
  "consecutive [] n \<longleftrightarrow> True"
| "consecutive ((k, seg) # rest) n \<longleftrightarrow> k + ts_length_in_sequence_space seg = (case rest of [] \<Rightarrow> n | x # _ \<Rightarrow> fst x) \<and>
     consecutive rest n"

definition flight :: "(nat \<times> TCPSegment) list \<Rightarrow> nat" where
  "flight segs = sum_list (map (\<lambda>x. ts_length_in_sequence_space (snd x)) segs)"

definition seqno_ok :: "nat \<Rightarrow> ByteStream \<Rightarrow> bool" where
  "seqno_ok n t \<longleftrightarrow> (if n = 0 then bs_bytes_read t = 0
     else n = bs_bytes_read t + 1 \<or> n = bs_bytes_read t + 2 \<and> bs_eof t)"

definition pending_ok :: "bytes \<Rightarrow> WrappingInt32 \<Rightarrow> nat \<times> TCPSegment \<Rightarrow> bool" where
  "pending_ok S isn x \<longleftrightarrow> segment_of S isn (snd x) \<and> th_seqno (ts_header (snd x)) = wrap (fst x) isn"

definition sn_ok :: "bytes \<Rightarrow> TCPSender \<Rightarrow> bool" where
  "sn_ok S s \<longleftrightarrow> bs_ok (sn_stream s) \<and> bs_bytes_written (sn_stream s) = length S \<and>
     bs.tracks S (sn_stream s) \<and> length S + 2 < two64 \<and>
     seqno_ok (sn_next_seqno s) (sn_stream s) \<and>
     list_all (segment_of S (sn_isn s)) (sn_segments_out s) \<and>
     list_all (pending_ok S (sn_isn s)) (sn_outstanding_segments s) \<and>
     consecutive (sn_outstanding_segments s) (sn_next_seqno s) \<and>
     sn_in_flight s = flight (sn_outstanding_segments s) \<and>
     flight (sn_outstanding_segments s) \<le> sn_next_seqno s"

lemma sn_okD:
  assumes "sn_ok S s"
  shows "bs_ok (sn_stream s)" "bs_bytes_written (sn_stream s) = length S" "bs.tracks S (sn_stream s)"
    "length S + 2 < two64" "sn_next_seqno s \<le> bs_bytes_read (sn_stream s) + 2"
    "bs_bytes_read (sn_stream s) \<le> length S" "sn_next_seqno s \<le> length S + 2"
proof -
  show ok: "bs_ok (sn_stream s)" "bs_bytes_written (sn_stream s) = length S" "bs.tracks S (sn_stream s)"
    "length S + 2 < two64" and n: "sn_next_seqno s \<le> bs_bytes_read (sn_stream s) + 2"
    using assms by (auto simp: sn_ok_def seqno_ok_def split: if_splits)
  show "bs_bytes_read (sn_stream s) \<le> length S" using bs_okD(4)[OF ok(1)] ok(2) by simp
  then show "sn_next_seqno s \<le> length S + 2" using n by simp
qed

lemma flight_simps [simp]:
  "flight [] = 0" "flight (x # xs) = ts_length_in_sequence_space (snd x) + flight xs"
  "flight (xs @ ys) = flight xs + flight ys"
  by (simp_all add: flight_def)

lemma consecutive_snoc:
  "consecutive segs k \<Longrightarrow> n = k + ts_length_in_sequence_space seg \<Longrightarrow> consecutive (segs @ [(k, seg)]) n"
  by (induction segs k rule: consecutive.induct) (auto split: list.splits)

lemma sn_ok_new: "cap < two64 \<Longrightarrow> sn_ok [] (sn_new rnd cap rto isn)"
  using bs_ok_new[of cap]
  by (simp add: sn_ok_def sn_new_def bs.tracks_def seqno_ok_def) (simp add: bs_new_def)

text \<open>A round happens only if the sequence number is that of the next byte of the stream.\<close>

lemma sn_next_is_read:
  assumes "sn_ok S s" "sn_next_seqno s = 0 \<or> \<not> bs_buffer_empty (sn_stream s) \<or>
       bs_eof (sn_stream s) \<and> sn_next_seqno s < add64 (bs_bytes_written (sn_stream s)) 2"
  shows "if sn_next_seqno s = 0 then bs_bytes_read (sn_stream s) = 0
    else sn_next_seqno s = bs_bytes_read (sn_stream s) + 1"
proof (cases "sn_next_seqno s = bs_bytes_read (sn_stream s) + 2 \<and> bs_eof (sn_stream s)")
  case True
  note D = sn_okD[OF assms(1)]
  have "bs_bytes_read (sn_stream s) = length S"
    using True bs_okD(4)[OF D(1)] D(2) by (simp add: bs_eof_def bs_buffer_empty_def)
  then show ?thesis using True assms(2) D(2,4) by (simp add: no_wrap bs_eof_def)
qed (use assms(1) in \<open>auto simp: sn_ok_def seqno_ok_def split: if_splits\<close>)

lemma segment_ofI:
  assumes "slice_at S i (ts_payload seg)" "th_seqno (ts_header seg) = wrap n isn"
    and "th_syn (ts_header seg) = (n = 0)" "if n = 0 then i = 0 else n = i + 1"
  shows "segment_of S isn seg"
proof (cases "n = 0")
  case True
  then show ?thesis using assms by (auto simp: segment_of_def intro: exI[of _ 0])
next
  case False
  then show ?thesis using assms by (auto simp: segment_of_def)
qed

lemma sn_make_segment_ok:
  assumes m: "sn_make_segment s av (sn_next_seqno s = 0) = (seg, stream)" and ok: "bs_ok (sn_stream s)"
    and tr: "bs.tracks S (sn_stream s)"
    and n: "if sn_next_seqno s = 0 then bs_bytes_read (sn_stream s) = 0
      else sn_next_seqno s = bs_bytes_read (sn_stream s) + 1"
  shows "segment_of S (sn_isn s) seg" "bs_ok stream" "bs.tracks S stream"
    "bs_bytes_written stream = bs_bytes_written (sn_stream s)"
    "seqno_ok (sn_next_seqno s + ts_length_in_sequence_space seg) stream"
proof -
  note parts = sn_make_segment_parts[OF m]
  define k where "k = min MAX_PAYLOAD_SIZE (sub64 av (if sn_next_seqno s = 0 then 1 else 0))"
  have stream: "stream = fst (bs_read (sn_stream s) k)" and pl: "ts_payload seg = snd (bs_read (sn_stream s) k)"
    using parts(1,2) by (simp_all add: k_def bs_read_parts(1))
  show "segment_of S (sn_isn s) seg"
    using bs.get_tracks(2)[OF ok tr, of k] parts(3,4) n by (intro segment_ofI) (simp_all add: pl)
  show "bs_ok stream" "bs.tracks S stream" "bs_bytes_written stream = bs_bytes_written (sn_stream s)"
    unfolding stream using bs.get_invar[OF ok] bs.get_tracks(1)[OF ok tr] bs_read_parts(3) by simp_all
  have "bs_bytes_read stream = bs_bytes_read (sn_stream s) + length (ts_payload seg)"
    unfolding pl stream by (rule bs.get_total_out[OF ok])
  moreover have "th_fin (ts_header seg) \<Longrightarrow> bs_eof stream" using parts(5) by simp
  ultimately show "seqno_ok (sn_next_seqno s + ts_length_in_sequence_space seg) stream"
    using n parts(4) by (simp add: seqno_ok_def ts_length_in_sequence_space_def split: if_splits)
qed

lemma sn_fill_step_ok:
  assumes ok: "sn_ok S s" and st: "sn_fill_step s = (s', True)"
  shows "sn_ok S s'" "sn_next_seqno s' \<le> sn_next_seqno s + sn_available_space s"
    "sn_abs_ackno s' = sn_abs_ackno s" "sn_window_size s' = sn_window_size s"
    "sn_isn s' = sn_isn s" "sn_next_seqno s < sn_next_seqno s'"
proof -
  obtain seg stream where m: "sn_make_segment s (sn_available_space s) (sn_next_seqno s = 0) = (seg, stream)"
    and size: "0 < ts_length_in_sequence_space seg" "ts_length_in_sequence_space seg \<le> sn_available_space s"
    and why: "sn_next_seqno s = 0 \<or> \<not> bs_buffer_empty (sn_stream s) \<or>
       bs_eof (sn_stream s) \<and> sn_next_seqno s < add64 (bs_bytes_written (sn_stream s)) 2"
    and s': "s' = s\<lparr>sn_stream := stream, sn_segments_out := sn_segments_out s @ [seg],
       sn_outstanding_segments := sn_outstanding_segments s @ [(sn_next_seqno s, seg)],
       sn_in_flight := add64 (sn_in_flight s) (ts_length_in_sequence_space seg),
       sn_next_seqno := add64 (sn_next_seqno s) (ts_length_in_sequence_space seg),
       sn_timer := (if \<not> tm_active (sn_timer s)
          then tm_start (sn_retransmission_timeout s mod two32) (sn_timer s) else sn_timer s)\<rparr>"
    by (rule sn_fill_step_True[OF st]) blast
  note D = sn_okD[OF ok]
  note seg = sn_make_segment_ok[OF m D(1,3) sn_next_is_read[OF ok why]]
  let ?m = "sn_next_seqno s + ts_length_in_sequence_space seg"
  have "bs_bytes_read stream \<le> length S" using bs_okD(4)[OF seg(2)] seg(4) D(2) by simp
  then have bound: "?m \<le> length S + 2" using seg(5) by (auto simp: seqno_ok_def split: if_splits)
  have nx: "add64 (sn_next_seqno s) (ts_length_in_sequence_space seg) = ?m"
    using bound D(4) by (intro add64_id) simp
  have fl: "add64 (sn_in_flight s) (ts_length_in_sequence_space seg)
      = sn_in_flight s + ts_length_in_sequence_space seg"
    using ok bound D(4) by (intro add64_id) (simp add: sn_ok_def)
  have "consecutive (sn_outstanding_segments s @ [(sn_next_seqno s, seg)]) ?m"
    using ok by (intro consecutive_snoc) (simp_all add: sn_ok_def)
  then show "sn_ok S s'"
    using ok seg sn_make_segment_parts(3)[OF m] D(2,4) unfolding s' nx fl
    by (simp add: sn_ok_def pending_ok_def)
  show "sn_next_seqno s' \<le> sn_next_seqno s + sn_available_space s" "sn_next_seqno s < sn_next_seqno s'"
    unfolding s' nx using size by simp_all
qed (use st in \<open>auto elim!: sn_fill_step_True\<close>)

lemma sn_fill_window_ok:
  assumes "sn_ok S s"
  shows "sn_ok S (sn_fill_window s)" "sn_abs_ackno (sn_fill_window s) = sn_abs_ackno s"
    "sn_window_size (sn_fill_window s) = sn_window_size s" "sn_isn (sn_fill_window s) = sn_isn s"
    "sn_next_seqno s \<le> sn_next_seqno (sn_fill_window s)"
proof -
  let ?P = "\<lambda>t. sn_ok S t \<and> sn_abs_ackno t = sn_abs_ackno s \<and> sn_window_size t = sn_window_size s \<and>
    sn_isn t = sn_isn s \<and> sn_next_seqno s \<le> sn_next_seqno t"
  have "?P (sn_fill_window s)"
  proof (rule sn_fill_window_invar[of ?P])
    fix t t' assume "?P t" "sn_fill_step t = (t', True)"
    then show "?P t'" using sn_fill_step_ok[of S t t'] by auto
  qed (use assms in simp)
  then show "sn_ok S (sn_fill_window s)" "sn_abs_ackno (sn_fill_window s) = sn_abs_ackno s"
    "sn_window_size (sn_fill_window s) = sn_window_size s" "sn_isn (sn_fill_window s) = sn_isn s"
    "sn_next_seqno s \<le> sn_next_seqno (sn_fill_window s)" by auto
qed

section \<open>The other operations\<close>

lemma sn_ack_loop_fields:
  "sn_isn (sn_ack_loop segs a s) = sn_isn s" "sn_stream (sn_ack_loop segs a s) = sn_stream s"
  "sn_next_seqno (sn_ack_loop segs a s) = sn_next_seqno s"
  "sn_segments_out (sn_ack_loop segs a s) = sn_segments_out s"
  "sn_abs_ackno (sn_ack_loop segs a s) = sn_abs_ackno s"
  "sn_window_size (sn_ack_loop segs a s) = sn_window_size s"
  by (induction segs a s rule: sn_ack_loop.induct) (simp_all add: Let_def)

lemma sn_ack_loop_segs:
  assumes "consecutive segs n" "sn_in_flight s = flight segs" "flight segs < two64" "n < two64"
    and "list_all P segs" "flight segs \<le> n"
  shows "consecutive (sn_outstanding_segments (sn_ack_loop segs a s)) n \<and>
    sn_in_flight (sn_ack_loop segs a s) = flight (sn_outstanding_segments (sn_ack_loop segs a s)) \<and>
    list_all P (sn_outstanding_segments (sn_ack_loop segs a s)) \<and>
    flight (sn_outstanding_segments (sn_ack_loop segs a s)) \<le> n"
  using assms by (induction segs a s rule: sn_ack_loop.induct) (simp_all add: Let_def no_wrap)

lemma sn_ack_loop_ok:
  assumes ok: "sn_ok S s"
  shows "sn_ok S (sn_ack_loop (sn_outstanding_segments s) u (s\<lparr>sn_window_size := w, sn_abs_ackno := u\<rparr>))"
proof -
  let ?s2 = "s\<lparr>sn_window_size := w, sn_abs_ackno := u\<rparr>" and ?segs = "sn_outstanding_segments s"
  have D: "sn_next_seqno s < two64" using sn_okD(4,7)[OF ok] by linarith
  have "consecutive ?segs (sn_next_seqno s)" "sn_in_flight ?s2 = flight ?segs"
    "flight ?segs \<le> sn_next_seqno s" "list_all (pending_ok S (sn_isn s)) ?segs"
    using ok by (simp_all add: sn_ok_def)
  note loop = sn_ack_loop_segs[OF this(1,2) _ D this(4,3), of u]
  show ?thesis
    using ok loop D \<open>flight ?segs \<le> sn_next_seqno s\<close> by (simp add: sn_ok_def sn_ack_loop_fields)
qed

lemma sn_ack_received_ok: "sn_ok S s \<Longrightarrow> sn_ok S (sn_ack_received a w s)"
  using sn_ack_loop_ok sn_fill_window_ok(1) by (simp add: sn_ack_received_def Let_def) (simp add: sn_ok_def)

lemma sn_tick_ok: "sn_ok S s \<Longrightarrow> sn_ok S (sn_tick ms s)"
proof -
  assume ok: "sn_ok S s"
  have "segment_of S (sn_isn s) (front\<lparr>ts_header := (ts_header front)\<lparr>th_seqno := wrap k (sn_isn s)\<rparr>\<rparr>)"
    if "sn_outstanding_segments s = (k, front) # rest" for k front rest
  proof -
    have "segment_of S (sn_isn s) front" "th_seqno (ts_header front) = wrap k (sn_isn s)"
      using ok that by (simp_all add: sn_ok_def pending_ok_def)
    then show ?thesis by (simp add: segment_of_def)
  qed
  then show ?thesis using ok by (auto simp: sn_tick_def sn_ok_def Let_def split: list.splits)
qed

lemma segment_of_empty: "\<not> th_syn (ts_header seg) \<Longrightarrow> ts_payload seg = [] \<Longrightarrow> segment_of S isn seg"
  by (simp add: segment_of_def)

lemma sn_send_empty_ok:
  assumes "sn_ok S s"
  shows "sn_ok S (sn_send_empty_segment s)" "sn_ok S (sn_send_empty_flags False False rst s)"
proof -
  show "sn_ok S (sn_send_empty_segment s)"
    using assms by (simp add: sn_ok_def sn_send_empty_segment_def segment_of_empty ts_default_def th_default_def)
  define seg where "seg = ts_default\<lparr>ts_header := th_default\<lparr>th_seqno := wrap (sn_next_seqno s) (sn_isn s),
                  th_syn := False, th_fin := False, th_rst := rst\<rparr>\<rparr>"
  have n: "ts_length_in_sequence_space seg = 0" "th_seqno (ts_header seg) = wrap (sn_next_seqno s) (sn_isn s)"
    and h: "segment_of S (sn_isn s) seg"
    by (simp_all add: seg_def ts_length_in_sequence_space_def ts_default_def th_default_def segment_of_empty)
  have "add64 (sn_next_seqno s) 0 = sn_next_seqno s"
    using sn_okD(4,7)[OF assms] by (simp add: no_wrap)
  moreover have "consecutive (sn_outstanding_segments s @ [(sn_next_seqno s, seg)]) (sn_next_seqno s)"
    using assms n by (intro consecutive_snoc) (simp_all add: sn_ok_def)
  ultimately show "sn_ok S (sn_send_empty_flags False False rst s)"
    using assms n h unfolding sn_send_empty_flags_def Let_def seg_def[symmetric]
    by (simp add: sn_ok_def pending_ok_def)
qed

lemma sn_ok_stream:
  assumes "sn_ok S s" "length S + length d + 2 < two64" "\<not> bs_input_ended (sn_stream s)"
  shows "sn_ok (S @ take (snd (bs_write (sn_stream s) d)) d) (s\<lparr>sn_stream := fst (bs_write (sn_stream s) d)\<rparr>)"
proof -
  note D = sn_okD[OF assms(1)]
  let ?n = "snd (bs_write (sn_stream s) d)" and ?t = "fst (bs_write (sn_stream s) d)"
  have lim: "bs_bytes_written (sn_stream s) + length d < two64" using D(2) assms(2) by simp
  note put = bs.put_invar[OF D(1) lim] bs.put_total_in[OF D(1) lim] bs.put_count[OF D(1) lim]
    bs.put_total_out[OF D(1) lim] bs.put_content[OF D(1) lim]
  have "bs.tracks (S @ take ?n d) ?t"
  proof -
    have "bs_buffer ?t = span S (bs_bytes_read (sn_stream s)) (length S) @ take ?n d"
      using put(5) D(2,3) by (simp add: bs.tracks_def)
    also have "\<dots> = span (S @ take ?n d) (bs_bytes_read (sn_stream s)) (length S + ?n)"
      using D(6) put(3) by (simp add: span_def)
    finally show ?thesis using put(2-4) D(2) by (simp add: bs.tracks_def)
  qed
  moreover have "\<not> bs_eof (sn_stream s)" using assms(3) by (simp add: bs_eof_def)
  ultimately show ?thesis
    using assms put D(2) segment_of_mono
    by (auto simp: sn_ok_def seqno_ok_def list_all_iff pending_ok_def split: if_splits)
qed

lemma sn_ok_end_input: "sn_ok S s \<Longrightarrow> sn_ok S (s\<lparr>sn_stream := bs_end_input (sn_stream s)\<rparr>)"
  by (auto simp: sn_ok_def bs.tracks_def seqno_ok_def bs_eof_def bs_buffer_empty_def split: if_splits)
    (auto simp: bs_end_input_def)

section \<open>Window\<close>

definition sn_window_edge :: "TCPSender \<Rightarrow> nat" where
  "sn_window_edge s = sn_abs_ackno s + (if sn_window_size s = 0 then 1 else sn_window_size s)"

lemma sn_available_inside:
  "sn_next_seqno s \<le> sn_window_edge s \<Longrightarrow> sn_window_edge s < two64 \<Longrightarrow>
     sn_available_space s = sn_window_edge s - sn_next_seqno s"
  by (auto simp: sn_available_space_def sn_window_edge_def Let_def no_wrap split: if_splits)

lemma sn_available_beyond:
  "sn_window_edge s < sn_next_seqno s \<Longrightarrow> sn_next_seqno s < two64 \<Longrightarrow> 0 < sn_available_space s"
  by (auto simp: sn_available_space_def sn_window_edge_def Let_def no_wrap sub64_wraps split: if_splits)

lemma sn_fill_window_edge: "sn_ok S s \<Longrightarrow> sn_window_edge (sn_fill_window s) = sn_window_edge s"
  by (simp add: sn_window_edge_def sn_fill_window_ok)

lemma sn_nothing_left:
  assumes "sn_ok S s" "sn_next_seqno s \<noteq> 0" "bs_buffer_empty (sn_stream s)"
    and "\<not> (bs_eof (sn_stream s) \<and> sn_next_seqno s < add64 (bs_bytes_written (sn_stream s)) 2)"
  shows "sn_next_seqno s = length S + (if bs_eof (sn_stream s) then 2 else 1)"
proof -
  note D = sn_okD[OF assms(1)]
  have "bs_bytes_read (sn_stream s) = length S"
    using assms(3) bs_okD(4)[OF D(1)] D(2) by (simp add: bs_buffer_empty_def)
  moreover have "add64 (bs_bytes_written (sn_stream s)) 2 = length S + 2"
    using D(2,4) by (simp add: no_wrap)
  moreover have "seqno_ok (sn_next_seqno s) (sn_stream s)" using assms(1) by (simp add: sn_ok_def)
  ultimately show ?thesis using assms(2,4) by (auto simp: seqno_ok_def split: if_splits)
qed

lemma sn_fill_window_exit:
  assumes "sn_ok S s"
  shows "sn_available_space (sn_fill_window s) = 0 \<or> sn_next_seqno (sn_fill_window s)
    = length S + (if bs_eof (sn_stream (sn_fill_window s)) then 2 else 1)"
  using sn_fill_step_False(2)[OF sn_fill_window_done] sn_nothing_left[OF sn_fill_window_ok(1)[OF assms]] by blast

section \<open>Sessions\<close>

text \<open>The calls an owner makes on a sender, with the log of the bytes accepted so far. \<open>SnDequeue\<close>
  takes the queued segments.\<close>

datatype sn_op = SnWrite bytes | SnEndInput | SnFill | SnAck WrappingInt32 u16 | SnTick nat | SnEmpty
  | SnDequeue

fun sn_exec :: "bytes \<times> TCPSender \<Rightarrow> sn_op \<Rightarrow> bytes \<times> TCPSender" where
  "sn_exec (S, s) (SnWrite d) =
     (case bs_write (sn_stream s) d of (t, n) \<Rightarrow> (S @ take n d, s\<lparr>sn_stream := t\<rparr>))"
| "sn_exec (S, s) SnEndInput = (S, s\<lparr>sn_stream := bs_end_input (sn_stream s)\<rparr>)"
| "sn_exec (S, s) SnFill = (S, sn_fill_window s)"
| "sn_exec (S, s) (SnAck a w) = (S, sn_ack_received a w s)"
| "sn_exec (S, s) (SnTick ms) = (S, sn_tick ms s)"
| "sn_exec (S, s) SnEmpty = (S, sn_send_empty_segment s)"
| "sn_exec (S, s) SnDequeue = (S, s\<lparr>sn_segments_out := []\<rparr>)"

definition sn_run :: "bytes \<times> TCPSender \<Rightarrow> sn_op list \<Rightarrow> bytes \<times> TCPSender" where
  "sn_run = foldl sn_exec"

fun sn_op_bytes :: "sn_op \<Rightarrow> nat" where
  "sn_op_bytes (SnWrite d) = length d"
| "sn_op_bytes _ = 0"

text \<open>The owner writes only before ending the input.\<close>

fun writes_before_end :: "bool \<Rightarrow> sn_op list \<Rightarrow> bool" where
  "writes_before_end ended [] = True"
| "writes_before_end ended (SnWrite d # ops) \<longleftrightarrow> \<not> ended \<and> writes_before_end ended ops"
| "writes_before_end ended (SnEndInput # ops) = writes_before_end True ops"
| "writes_before_end ended (x # ops) = writes_before_end ended ops"

lemma sn_fill_window_ended: "bs_input_ended (sn_stream (sn_fill_window s)) = bs_input_ended (sn_stream s)"
proof (rule sn_fill_window_invar[where P = "\<lambda>t. bs_input_ended (sn_stream t) = bs_input_ended (sn_stream s)"])
  fix t t' assume eq: "bs_input_ended (sn_stream t) = bs_input_ended (sn_stream s)"
    and "sn_fill_step t = (t', True)"
  then obtain seg where "sn_make_segment t (sn_available_space t) (sn_next_seqno t = 0) = (seg, sn_stream t')"
    by (auto elim!: sn_fill_step_True)
  from sn_make_segment_parts(1)[OF this] eq
  show "bs_input_ended (sn_stream t') = bs_input_ended (sn_stream s)" by (simp add: bs_read_parts)
qed simp

lemma sn_exec_ended:
  "bs_input_ended (sn_stream (snd (sn_exec (S, s) x))) = (bs_input_ended (sn_stream s) \<or> x = SnEndInput)"
  by (cases x) (simp_all add: split_beta sn_fill_window_ended sn_ack_received_def sn_ack_loop_fields
      sn_send_empty_segment_def sn_tick_def bs_end_input_def Let_def split: list.splits)

lemma sn_exec_ok:
  assumes "sn_ok S s" "length S + sn_op_bytes x + 2 < two64"
    and "sn_op_bytes x = 0 \<or> \<not> bs_input_ended (sn_stream s)"
  shows "sn_ok (fst (sn_exec (S, s) x)) (snd (sn_exec (S, s) x)) \<and>
    length (fst (sn_exec (S, s) x)) \<le> length S + sn_op_bytes x"
proof (cases x)
  case (SnWrite d)
  show ?thesis
  proof (cases "d = []")
    case True
    have "bs_write (sn_stream s) [] = (sn_stream s, 0)"
      using bs_okD(3)[OF sn_okD(1)[OF assms(1)]] by (simp add: bs_write_def no_wrap)
    then show ?thesis using assms(1) True SnWrite by simp
  next
    case False
    then show ?thesis using assms SnWrite sn_ok_stream[OF assms(1), of d] by (simp add: split_beta)
  qed
qed (use assms in \<open>simp_all add: sn_ok_end_input sn_fill_window_ok(1) sn_ack_received_ok sn_tick_ok
      sn_send_empty_ok(1)\<close>, simp add: sn_ok_def)

lemma sn_run_ok:
  "sn_ok S s \<Longrightarrow> length S + sum_list (map sn_op_bytes ops) + 2 < two64 \<Longrightarrow>
     writes_before_end (bs_input_ended (sn_stream s)) ops \<Longrightarrow>
     sn_ok (fst (sn_run (S, s) ops)) (snd (sn_run (S, s) ops))"
proof (induction ops arbitrary: S s)
  case (Cons x ops)
  obtain S' s' where x: "sn_exec (S, s) x = (S', s')" by fastforce
  have "sn_op_bytes x = 0 \<or> \<not> bs_input_ended (sn_stream s)" using Cons.prems(3) by (cases x) auto
  then have ok: "sn_ok S' s'" "length S' \<le> length S + sn_op_bytes x"
    using sn_exec_ok[OF Cons.prems(1), of x] Cons.prems(2) x by simp_all
  have "bs_input_ended (sn_stream s') = (bs_input_ended (sn_stream s) \<or> x = SnEndInput)"
    using sn_exec_ended[of S s x] x by simp
  then have "writes_before_end (bs_input_ended (sn_stream s')) ops" using Cons.prems(3) by (cases x) auto
  then show ?case using Cons.IH[OF ok(1)] ok(2) Cons.prems(2) x by (simp add: sn_run_def)
qed (simp add: sn_run_def)

lemma consecutive_flight: "consecutive ((k, seg) # rest) n \<Longrightarrow> k + flight ((k, seg) # rest) = n"
proof (induction rest arbitrary: k seg)
  case (Cons x rest)
  obtain k' seg' where x: "x = (k', seg')" by fastforce
  have "k + ts_length_in_sequence_space seg = k'" "k' + flight ((k', seg') # rest) = n"
    using Cons.prems Cons.IH[of k' seg'] by (simp_all add: x)
  then show ?case by (simp add: x)
qed simp

lemma sn_flight_loop_eq: "n + flight segs < two64 \<Longrightarrow> sn_flight_loop segs n = n + flight segs"
  by (induction segs n rule: sn_flight_loop.induct) (auto simp: no_wrap)

lemma sn_bytes_in_flight_eq:
  assumes "sn_ok S s"
  shows "sn_bytes_in_flight s = sn_in_flight s"
    "sn_bytes_in_flight s = (case sn_outstanding_segments s of [] \<Rightarrow> 0 | x # _ \<Rightarrow> sn_next_seqno s - fst x)"
proof -
  have fl: "flight (sn_outstanding_segments s) < two64" "sn_in_flight s = flight (sn_outstanding_segments s)"
    "consecutive (sn_outstanding_segments s) (sn_next_seqno s)"
    using assms sn_okD(4,7)[OF assms] by (simp_all add: sn_ok_def)
  then have b: "sn_bytes_in_flight s = flight (sn_outstanding_segments s)"
    by (simp add: sn_bytes_in_flight_def sn_flight_loop_eq)
  then show "sn_bytes_in_flight s = sn_in_flight s" using fl(2) by simp
  show "sn_bytes_in_flight s = (case sn_outstanding_segments s of [] \<Rightarrow> 0 | x # _ \<Rightarrow> sn_next_seqno s - fst x)"
  proof (cases "sn_outstanding_segments s")
    case (Cons x rest)
    obtain k seg where x: "x = (k, seg)" by fastforce
    have "k + flight ((k, seg) # rest) = sn_next_seqno s"
      using fl(3) unfolding Cons x by (rule consecutive_flight)
    then show ?thesis using b unfolding Cons x by (simp del: flight_simps)
  qed (simp add: b)
qed

lemma sn_fill_beyond_window:
  assumes "sn_ok S s" "sn_window_edge s < sn_next_seqno s"
  shows "sn_next_seqno (sn_fill_window s)
    = length S + (if bs_eof (sn_stream (sn_fill_window s)) then 2 else 1)"
proof -
  let ?t = "sn_fill_window s"
  note fw = sn_fill_window_ok[OF assms(1)]
  have "sn_window_edge ?t < sn_next_seqno ?t"
    using assms(2) fw(5) sn_fill_window_edge[OF assms(1)] by linarith
  moreover have "sn_next_seqno ?t < two64" using sn_okD(4,7)[OF fw(1)] by linarith
  ultimately have "0 < sn_available_space ?t" by (rule sn_available_beyond)
  then show ?thesis using sn_fill_window_exit[OF assms(1)] by simp
qed

section \<open>Timer\<close>

definition timer_runs :: "TCPSender \<Rightarrow> bool" where
  "timer_runs s \<longleftrightarrow> tm_active (sn_timer s) = (sn_outstanding_segments s \<noteq> [])"

lemma sn_fill_window_timer: "timer_runs s \<Longrightarrow> timer_runs (sn_fill_window s)"
  by (rule sn_fill_window_invar[where P = timer_runs])
    (auto simp: timer_runs_def tm_start_def elim!: sn_fill_step_True)

lemma sn_ack_loop_timer:
  "tm_active (sn_timer s) = (segs \<noteq> []) \<Longrightarrow> timer_runs (sn_ack_loop segs a s)"
  by (induction segs a s rule: sn_ack_loop.induct)
    (auto simp: timer_runs_def Let_def tm_start_def tm_reset_def)

lemma tm_active_simps [simp]:
  "tm_active (tm_start n t)" "tm_active (tm_update n t) = tm_active t" "\<not> tm_active (tm_reset t)"
  by (simp_all add: tm_start_def tm_update_def tm_reset_def Let_def)

lemma sn_tick_timer: "timer_runs s \<Longrightarrow> timer_runs (sn_tick ms s)"
  by (auto simp: timer_runs_def sn_tick_def Let_def split: list.splits)

lemma sn_ack_received_timer: "timer_runs s \<Longrightarrow> timer_runs (sn_ack_received a w s)"
  unfolding sn_ack_received_def Let_def
  by (simp add: sn_fill_window_timer sn_ack_loop_timer timer_runs_def) (simp add: timer_runs_def[symmetric]
      sn_fill_window_timer sn_ack_loop_timer)

lemma sn_exec_timer: "timer_runs s \<Longrightarrow> timer_runs (snd (sn_exec (S, s) x))"
  by (cases x) (simp_all add: split_beta sn_fill_window_timer sn_tick_timer sn_ack_received_timer,
      simp_all add: timer_runs_def sn_send_empty_segment_def)

lemma sn_run_timer: "timer_runs s \<Longrightarrow> timer_runs (snd (sn_run (S, s) ops))"
proof (induction ops arbitrary: S s)
  case (Cons x ops)
  then show ?case using sn_exec_timer[of s S x] by (cases "sn_exec (S, s) x") (simp add: sn_run_def)
qed (simp add: sn_run_def)

lemma sn_tick_resends:
  assumes "sn_outstanding_segments s = (k, seg) # rest"
    and "tm_timeout (sn_timer s) \<le> tm_current_time (sn_timer s) + ms" "tm_current_time (sn_timer s) + ms < two32"
    and "th_seqno (ts_header seg) = wrap k (sn_isn s)" "tm_active (sn_timer s)"
  shows "sn_segments_out (sn_tick ms s) = sn_segments_out s @ [seg] \<and>
    sn_outstanding_segments (sn_tick ms s) = (k, seg) # rest \<and>
    (0 < sn_window_size s \<longrightarrow>
       sn_consecutive_retransmissions (sn_tick ms s) = add32 (sn_consecutive_retransmissions s) 1 \<and>
       sn_retransmission_timeout (sn_tick ms s) = mul64 (sn_retransmission_timeout s) 2) \<and>
    sn_timer (sn_tick ms s) = tm_start (sn_retransmission_timeout (sn_tick ms s) mod two32) (sn_timer s)"
proof -
  have "tm_expired (tm_update (ms mod two32) (sn_timer s))"
    using assms(2,3,5) by (simp add: tm_expired_def tm_update_def Let_def no_wrap)
  moreover have "seg\<lparr>ts_header := (ts_header seg)\<lparr>th_seqno := wrap k (sn_isn s)\<rparr>\<rparr> = seg"
    using assms(4) by simp
  ultimately show ?thesis using assms(1,5) by (auto simp: sn_tick_def Let_def tm_start_def)
qed

section \<open>The first segment\<close>

definition syn_segment :: "WrappingInt32 \<Rightarrow> TCPSegment" where
  "syn_segment isn = \<lparr>ts_header = th_default\<lparr>th_seqno := isn, th_syn := True\<rparr>, ts_payload = []\<rparr>"

lemma bs_read_Nil: "bs_buffer t = [] \<Longrightarrow> bs_bytes_read t < two64 \<Longrightarrow> bs_read t n = (t, [])"
  by (simp add: bs_read_def bs_peek_output_eq bs_pop_output_def bs_pop_loop_eq no_wrap)

lemma sn_fill_idle:
  "sn_next_seqno s \<noteq> 0 \<Longrightarrow> bs_buffer (sn_stream s) = [] \<Longrightarrow> \<not> bs_input_ended (sn_stream s) \<Longrightarrow> sn_fill_window s = s"
  by (subst sn_fill_window.simps) (simp add: sn_fill_step_def Let_def bs_buffer_empty_def bs_eof_def)

text \<open>A sender that has nothing to send yet opens the connection with a bare SYN.\<close>

lemma sn_fill_syn:
  assumes "sn_next_seqno s = 0" "sn_abs_ackno s = 0" "sn_window_size s < two64" "sn_in_flight s = 0"
    and "bs_buffer (sn_stream s) = []" "bs_bytes_read (sn_stream s) < two64" "\<not> bs_input_ended (sn_stream s)"
  shows "sn_fill_window s = s\<lparr>sn_segments_out := sn_segments_out s @ [syn_segment (sn_isn s)],
    sn_outstanding_segments := sn_outstanding_segments s @ [(0, syn_segment (sn_isn s))],
    sn_in_flight := 1, sn_next_seqno := 1,
    sn_timer := (if \<not> tm_active (sn_timer s)
                 then tm_start (sn_retransmission_timeout s mod two32) (sn_timer s) else sn_timer s)\<rparr>"
    (is "_ = ?t")
proof -
  have av: "0 < sn_available_space s"
    using assms(1-3) by (auto simp: sn_available_space_def Let_def no_wrap)
  have w: "wrap 0 (sn_isn s) = sn_isn s" by (cases "sn_isn s") (simp add: wrap_def wi_plus_def)
  have m: "sn_make_segment s (sn_available_space s) True = (syn_segment (sn_isn s), sn_stream s)"
    using assms(1,5-7) w
    by (simp add: sn_make_segment_def Let_def bs_read_Nil bs_eof_def syn_segment_def split_beta)
  have len: "ts_length_in_sequence_space (syn_segment (sn_isn s)) = 1"
    by (simp add: syn_segment_def ts_length_in_sequence_space_def th_default_def)
  have st: "sn_fill_step s = (?t, True)"
    using assms(1,4) av m len by (simp add: sn_fill_step_def Let_def no_wrap Suc_le_eq)
  have "sn_fill_window s = sn_fill_window ?t" by (subst sn_fill_window.simps) (simp only: st prod.case if_True)
  also have "\<dots> = ?t" using assms(5,7) by (intro sn_fill_idle) simp_all
  finally show ?thesis .
qed

section \<open>Properties\<close>





text \<open>C15: When an acknowledgement arrives whose window ends before the next sequence number (an old
  acknowledgement that was overtaken, or a peer that takes back its window), the acknowledged
  position moves to it, even backwards, the subtraction that computes the free space wraps, and
  everything that is buffered is sent, whatever the size of the window.\<close>

theorem stale_ack_ignores_window:
  assumes "sn_ok S s" "unwrap ackno (sn_isn s) (add64 (sn_abs_ackno s) 1) = k"
    and "k + max 1 (unat w) < sn_next_seqno s"
  shows "sn_abs_ackno (sn_ack_received ackno w s) = k \<and>
    sn_next_seqno (sn_ack_received ackno w s)
      = length S + (if bs_eof (sn_stream (sn_ack_received ackno w s)) then 2 else 1)"
proof -
  let ?t = "sn_ack_loop (sn_outstanding_segments s) k (s\<lparr>sn_window_size := unat w, sn_abs_ackno := k\<rparr>)"
  have r: "sn_ack_received ackno w s = sn_fill_window ?t"
    using assms(2,3) by (simp add: sn_ack_received_def Let_def)
  have ok: "sn_ok S ?t" by (rule sn_ack_loop_ok[OF assms(1)])
  have "sn_window_edge ?t < sn_next_seqno ?t"
    using assms(3) by (auto simp: sn_window_edge_def sn_ack_loop_fields split: if_splits)
  then show ?thesis
    unfolding r using sn_fill_beyond_window[OF ok] sn_fill_window_ok(2)[OF ok] by (simp add: sn_ack_loop_fields)
qed

theorem stale_ack_ignores_window_witness:
  "let s = (sn_new 7 8 1000 None)\<lparr>sn_stream := (bs_new 8)\<lparr>bs_buffer := [3], bs_bytes_read := 2,
         bs_bytes_written := 3\<rparr>, sn_next_seqno := 3, sn_abs_ackno := 1, sn_window_size := 2,
       sn_outstanding_segments := [(1, \<lparr>ts_header = th_default\<lparr>th_seqno := WrappingInt32 8\<rparr>,
         ts_payload = [1, 2]\<rparr>)], sn_in_flight := 2\<rparr>
   in sn_next_seqno (sn_ack_received (WrappingInt32 8) 1 s)
        = 3 + (if bs_eof (sn_stream (sn_ack_received (WrappingInt32 8) 1 s)) then 2 else 1)"
proof -
  let ?s = "(sn_new 7 8 1000 None)\<lparr>sn_stream := (bs_new 8)\<lparr>bs_buffer := [3], bs_bytes_read := 2,
         bs_bytes_written := 3\<rparr>, sn_next_seqno := 3, sn_abs_ackno := 1, sn_window_size := 2,
       sn_outstanding_segments := [(1, \<lparr>ts_header = th_default\<lparr>th_seqno := WrappingInt32 8\<rparr>,
         ts_payload = [1, 2]\<rparr>)], sn_in_flight := 2\<rparr>"
  have "segment_of [1, 2, 3] (WrappingInt32 7)
      \<lparr>ts_header = th_default\<lparr>th_seqno := WrappingInt32 8\<rparr>, ts_payload = [1, 2]\<rparr>"
    by (simp add: segment_of_def th_default_def slice_at_def wrap_def wi_plus_def exI[of _ 0])
  then have "sn_ok [1, 2, 3] ?s"
    by (simp add: sn_ok_def sn_new_def bs_ok_def bs_new_def bs.tracks_def span_def seqno_ok_def
        pending_ok_def ts_length_in_sequence_space_def th_default_def wrap_def wi_plus_def)
  moreover have "unwrap (WrappingInt32 8) (sn_isn ?s) (add64 (sn_abs_ackno ?s) 1) = 1"
    using unwrap_wrap_near[of 2 1 "WrappingInt32 7"] by (simp add: sn_new_def wrap_def wi_plus_def no_wrap numeral_2_eq_2)
  ultimately show ?thesis
    using stale_ack_ignores_window[of "[1, 2, 3]" ?s "WrappingInt32 8" 1 1] by (simp add: Let_def)
qed



end
