(* ===== verification/TCP_Connection.thy ===== *)
theory TCP_Connection
  imports TCP_Receiver TCP_Sender
begin

text \<open>
  A complete TCP endpoint (\<^verbatim>\<open>libsponge/tcp_connection.hh\<close> and \<^verbatim>\<open>.cc\<close>): the receiver, the sender,
  the queue of outgoing segments, the lingering flag and the activity flag. \<open>segment_received\<close>
  can fail in two ways, which are the values of \<open>conn_error\<close>: undefined behaviour inside the
  reassembler, and the exception of \<^verbatim>\<open>_receiver.ackno().value()\<close> when no SYN has arrived.

  \<open>_clear_sender_buffer\<close> keeps a reference to the front of the queue over \<^verbatim>\<open>pop()\<close>; the model uses the
  value the element had.
\<close>

section \<open>State and helpers\<close>

datatype conn_error = ReassemblerUndefined | BadOptionalAccess

record TCPConnection =
  tc_cfg :: TCPConfig
  tc_receiver :: TCPReceiver
  tc_sender :: TCPSender
  tc_segments_out :: "TCPSegment list"
  tc_linger_after_streams_finish :: bool
  tc_time_last_recv :: nat
  tc_active :: bool

definition tc_new :: "u32 \<Rightarrow> TCPConfig \<Rightarrow> TCPConnection" where
  "tc_new rnd cfg =
     \<lparr>tc_cfg = cfg, tc_receiver = tr_new (cfg_recv_capacity cfg),
      tc_sender = sn_new rnd (cfg_send_capacity cfg) (cfg_rt_timeout cfg) (cfg_fixed_isn cfg),
      tc_segments_out = [], tc_linger_after_streams_finish = True, tc_time_last_recv = 0,
      tc_active = True\<rparr>"

definition tc_stream_in :: "TCPConnection \<Rightarrow> ByteStream" where
  "tc_stream_in c = sn_stream (tc_sender c)"

definition tc_inbound_stream :: "TCPConnection \<Rightarrow> ByteStream" where
  "tc_inbound_stream c = tr_stream_out (tc_receiver c)"

definition tc_remaining_outbound_capacity :: "TCPConnection \<Rightarrow> nat" where
  "tc_remaining_outbound_capacity c = bs_remaining_capacity (tc_stream_in c)"

definition tc_bytes_in_flight :: "TCPConnection \<Rightarrow> nat" where
  "tc_bytes_in_flight c = sn_bytes_in_flight (tc_sender c)"

definition tc_unassembled_bytes :: "TCPConnection \<Rightarrow> nat" where
  "tc_unassembled_bytes c = tr_unassembled_bytes (tc_receiver c)"

definition sn_set_error :: "TCPSender \<Rightarrow> TCPSender" where
  "sn_set_error s = s\<lparr>sn_stream := bs_set_error (sn_stream s)\<rparr>"

definition tr_set_error :: "TCPReceiver \<Rightarrow> TCPReceiver" where
  "tr_set_error r = r\<lparr>tr_reassembler := (tr_reassembler r)\<lparr>sr_output :=
     bs_set_error (sr_output (tr_reassembler r))\<rparr>\<rparr>"

definition tc_kill_connection :: "bool \<Rightarrow> TCPConnection \<Rightarrow> TCPConnection" where
  "tc_kill_connection clean c =
     (let c = (if \<not> clean then c\<lparr>tc_sender := sn_set_error (tc_sender c),
                                 tc_receiver := tr_set_error (tc_receiver c)\<rparr> else c)
      in c\<lparr>tc_active := False\<rparr>)"

text \<open>The fields of the header that the receiver decides.\<close>

definition tc_fill_header :: "TCPReceiver \<Rightarrow> TCPSegment \<Rightarrow> TCPSegment" where
  "tc_fill_header r seg =
     (let max_size = 65535;
          header = ts_header seg;
          header = (if tr_window_size r > max_size then header\<lparr>th_win := of_nat max_size\<rparr>
                    else header\<lparr>th_win := of_nat (tr_window_size r)\<rparr>);
          header = (case tr_ackno r of
                      Some ackno \<Rightarrow> header\<lparr>th_ackno := ackno, th_ack := True\<rparr>
                    | None \<Rightarrow> header)
      in seg\<lparr>ts_header := header\<rparr>)"

fun tc_clear_loop :: "TCPReceiver \<Rightarrow> TCPSegment list \<Rightarrow> TCPSegment list \<Rightarrow> TCPSegment list" where
  "tc_clear_loop r [] out = out"
| "tc_clear_loop r (front # queue) out = tc_clear_loop r queue (out @ [tc_fill_header r front])"

definition tc_clear_sender_buffer :: "TCPConnection \<Rightarrow> TCPConnection" where
  "tc_clear_sender_buffer c =
     c\<lparr>tc_segments_out := tc_clear_loop (tc_receiver c) (sn_segments_out (tc_sender c)) (tc_segments_out c),
       tc_sender := (tc_sender c)\<lparr>sn_segments_out := []\<rparr>\<rparr>"

definition tc_send_rst_empty_segment :: "TCPConnection \<Rightarrow> TCPConnection" where
  "tc_send_rst_empty_segment c =
     tc_clear_sender_buffer (c\<lparr>tc_sender := sn_send_empty_flags False False True (tc_sender c)\<rparr>)"

definition tc_kill_condition_check :: "TCPConnection \<Rightarrow> bool" where
  "tc_kill_condition_check c \<longleftrightarrow>
     bs_input_ended (tc_inbound_stream c) \<and> tr_unassembled_bytes (tc_receiver c) = 0 \<and>
     bs_input_ended (tc_stream_in c) \<and> sn_bytes_in_flight (tc_sender c) = 0 \<and>
     sn_next_seqno (tc_sender c)
       = add64 (bs_bytes_written (tc_stream_in c)) (if bs_eof (tc_stream_in c) then 2 else 0)"

section \<open>Operations\<close>

text \<open>What \<open>segment_received\<close> does with the sender once the acknowledgment number is known.\<close>

definition tc_reply :: "TCPSegment \<Rightarrow> TCPReceiver \<Rightarrow> TCPSender \<Rightarrow> TCPSender" where
  "tc_reply seg r s =
     (let s1 = (if sn_segments_out s = [] \<and> ts_length_in_sequence_space seg > 0 then
                  (let t = sn_fill_window s
                   in if sn_segments_out t = [] then sn_send_empty_segment t else t)
                else s)
      in case tr_ackno r of
           Some ackno \<Rightarrow>
             (if ts_length_in_sequence_space seg = 0 \<and> th_seqno (ts_header seg) = wi_minus ackno 1
              then sn_send_empty_segment s1 else s1)
         | None \<Rightarrow> s1)"

definition tc_segment_received :: "TCPSegment \<Rightarrow> TCPConnection \<Rightarrow> conn_error + TCPConnection" where
  "tc_segment_received seg c =
     (let header = ts_header seg
      in if th_rst header then Inr (tc_kill_connection False c)
         else case tr_segment_received (tc_receiver c) seg of
             None \<Rightarrow> Inl ReassemblerUndefined
           | Some r \<Rightarrow>
               (case (if th_ack header then Some (th_ackno header) else tr_ackno r) of
                  None \<Rightarrow> Inl BadOptionalAccess
                | Some ackno \<Rightarrow>
                    (let s = tc_reply seg r (sn_ack_received ackno (th_win header) (tc_sender c));
                         c = tc_clear_sender_buffer
                               (c\<lparr>tc_time_last_recv := 0, tc_receiver := r, tc_sender := s\<rparr>)
                     in Inr (if bs_input_ended (tc_inbound_stream c) \<and> \<not> bs_input_ended (tc_stream_in c)
                             then c\<lparr>tc_linger_after_streams_finish := False\<rparr> else c))))"

definition tc_write :: "bytes \<Rightarrow> TCPConnection \<Rightarrow> TCPConnection \<times> nat" where
  "tc_write data c =
     (case bs_write (tc_stream_in c) data of (stream, bytes_written) \<Rightarrow>
        (tc_clear_sender_buffer
           (c\<lparr>tc_sender := sn_fill_window ((tc_sender c)\<lparr>sn_stream := stream\<rparr>)\<rparr>), bytes_written))"

definition tc_tick :: "nat \<Rightarrow> TCPConnection \<Rightarrow> TCPConnection" where
  "tc_tick ms_since_last_tick c =
     (let c = c\<lparr>tc_time_last_recv := add64 (tc_time_last_recv c) ms_since_last_tick\<rparr>
      in if sn_consecutive_retransmissions (tc_sender c) \<ge> MAX_RETX_ATTEMPTS
         then tc_kill_connection False (tc_send_rst_empty_segment c)
         else
           (let c = c\<lparr>tc_sender := sn_tick ms_since_last_tick (tc_sender c)\<rparr>;
                c = (if tc_kill_condition_check c then
                       (if tc_linger_after_streams_finish c then
                          (if tc_time_last_recv c \<ge> 10 * cfg_rt_timeout (tc_cfg c)
                           then tc_kill_connection True c else c)
                        else tc_kill_connection True c)
                     else c)
            in tc_clear_sender_buffer c))"

definition tc_end_input_stream :: "TCPConnection \<Rightarrow> TCPConnection" where
  "tc_end_input_stream c =
     (let s = (tc_sender c)\<lparr>sn_stream := bs_end_input (tc_stream_in c)\<rparr>;
          c = tc_clear_sender_buffer (c\<lparr>tc_sender := sn_fill_window s\<rparr>)
      in if bs_input_ended (tc_inbound_stream c) \<and> bs_eof (tc_stream_in c)
         then c\<lparr>tc_linger_after_streams_finish := False\<rparr> else c)"

definition tc_connect :: "TCPConnection \<Rightarrow> TCPConnection" where
  "tc_connect c = tc_clear_sender_buffer (c\<lparr>tc_sender := sn_fill_window (tc_sender c)\<rparr>)"

definition tc_destroy :: "TCPConnection \<Rightarrow> TCPConnection" where
  "tc_destroy c =
     (if tc_active c then
        (let c = c\<lparr>tc_sender := sn_set_error (tc_sender c), tc_receiver := tr_set_error (tc_receiver c)\<rparr>
         in (tc_send_rst_empty_segment c)\<lparr>tc_active := False\<rparr>)
      else c)"

section \<open>Outgoing segments\<close>

lemma tc_clear_loop_eq: "tc_clear_loop r queue out = out @ map (tc_fill_header r) queue"
  by (induction queue arbitrary: out) simp_all

lemma tc_fill_header_keeps [simp]:
  "ts_payload (tc_fill_header r seg) = ts_payload seg"
  "th_syn (ts_header (tc_fill_header r seg)) = th_syn (ts_header seg)"
  "th_fin (ts_header (tc_fill_header r seg)) = th_fin (ts_header seg)"
  "th_rst (ts_header (tc_fill_header r seg)) = th_rst (ts_header seg)"
  "th_seqno (ts_header (tc_fill_header r seg)) = th_seqno (ts_header seg)"
  by (simp_all add: tc_fill_header_def Let_def split: option.split)

lemma tc_fill_header_ack [simp]:
  "th_ack (ts_header (tc_fill_header r seg)) \<longleftrightarrow> th_ack (ts_header seg) \<or> tr_syn r"
  by (simp add: tc_fill_header_def Let_def tr_ackno_def)

lemma segment_of_fill_header [simp]: "segment_of S isn (tc_fill_header r seg) = segment_of S isn seg"
  by (simp add: segment_of_def)

text \<open>The advertised window is the free room of the receiver as far as 16 bits can say it.\<close>

lemma tc_fill_header_win: "unat (th_win (ts_header (tc_fill_header r seg))) = min 65535 (tr_window_size r)"
  by (simp add: tc_fill_header_def Let_def min_def unat_of_nat split: option.split)

lemma tc_clear_sender_buffer_simps [simp]:
  "tc_receiver (tc_clear_sender_buffer c) = tc_receiver c"
  "tc_sender (tc_clear_sender_buffer c) = (tc_sender c)\<lparr>sn_segments_out := []\<rparr>"
  "tc_segments_out (tc_clear_sender_buffer c)
     = tc_segments_out c @ map (tc_fill_header (tc_receiver c)) (sn_segments_out (tc_sender c))"
  "tc_active (tc_clear_sender_buffer c) = tc_active c"
  "tc_cfg (tc_clear_sender_buffer c) = tc_cfg c"
  "tc_linger_after_streams_finish (tc_clear_sender_buffer c) = tc_linger_after_streams_finish c"
  "tc_time_last_recv (tc_clear_sender_buffer c) = tc_time_last_recv c"
  by (simp_all add: tc_clear_sender_buffer_def tc_clear_loop_eq)

lemma tc_kill_connection_simps [simp]:
  "\<not> tc_active (tc_kill_connection clean c)"
  "tc_segments_out (tc_kill_connection clean c) = tc_segments_out c"
  "tc_receiver (tc_kill_connection clean c) = (if clean then tc_receiver c else tr_set_error (tc_receiver c))"
  "tc_sender (tc_kill_connection clean c) = (if clean then tc_sender c else sn_set_error (tc_sender c))"
  by (simp_all add: tc_kill_connection_def Let_def)

section \<open>Invariant\<close>

text \<open>\<open>S\<close> is what the owner has written, \<open>R\<close> what the peer, whose initial sequence number is \<open>isn\<close>,
  has written.\<close>

definition tc_ok :: "bytes \<Rightarrow> bytes \<Rightarrow> WrappingInt32 \<Rightarrow> TCPConnection \<Rightarrow> bool" where
  "tc_ok S R isn c \<longleftrightarrow> sn_ok S (tc_sender c) \<and> recv_ok R isn (tc_receiver c) \<and>
     list_all (segment_of S (sn_isn (tc_sender c))) (tc_segments_out c)"

lemma bs_set_error_tracks [simp]:
  "bs_ok (bs_set_error t) = bs_ok t" "bs.tracks S (bs_set_error t) = bs.tracks S t"
  "bs_bytes_read (bs_set_error t) = bs_bytes_read t" "bs_bytes_written (bs_set_error t) = bs_bytes_written t"
  "bs_eof (bs_set_error t) = bs_eof t" "bs_input_ended (bs_set_error t) = bs_input_ended t"
  "bs_buffer (bs_set_error t) = bs_buffer t" "bs_capacity (bs_set_error t) = bs_capacity t"
  by (simp_all add: bs_set_error_def bs_ok_def bs.tracks_def bs_eof_def bs_buffer_empty_def)

lemma sn_ok_set_error [simp]: "sn_ok S (sn_set_error s) = sn_ok S s"
  by (simp add: sn_ok_def sn_set_error_def seqno_ok_def)

lemma sr_ok_set_error: "sr_ok (a\<lparr>sr_output := bs_set_error (sr_output a)\<rparr>) = sr_ok a"
  by (simp add: sr_ok_def sr_inv_def)

lemma recv_ok_set_error [simp]: "recv_ok S isn (tr_set_error r) = recv_ok S isn r"
  by (simp add: recv_ok_def tr_set_error_def sr_ok_set_error)

lemma set_error_keeps [simp]:
  "sn_isn (sn_set_error s) = sn_isn s" "sn_segments_out (sn_set_error s) = sn_segments_out s"
  "sn_outstanding_segments (sn_set_error s) = sn_outstanding_segments s"
  "sn_next_seqno (sn_set_error s) = sn_next_seqno s" "sn_abs_ackno (sn_set_error s) = sn_abs_ackno s"
  "sn_window_size (sn_set_error s) = sn_window_size s"
  "tr_syn (tr_set_error r) = tr_syn r" "tr_capacity (tr_set_error r) = tr_capacity r"
  by (simp_all add: sn_set_error_def tr_set_error_def)

lemma sn_isn_keeps [simp]:
  "sn_isn (sn_fill_window s) = sn_isn s" "sn_isn (sn_ack_received a w s) = sn_isn s"
  "sn_isn (sn_tick ms s) = sn_isn s" "sn_isn (sn_send_empty_segment s) = sn_isn s"
  "sn_isn (sn_send_empty_flags syn fin rst s) = sn_isn s"
proof -
  show f: "sn_isn (sn_fill_window s) = sn_isn s" for s
    by (rule sn_fill_window_invar[where P = "\<lambda>t. sn_isn t = sn_isn s"]) (auto elim!: sn_fill_step_True)
  show "sn_isn (sn_ack_received a w s) = sn_isn s"
    by (simp add: sn_ack_received_def Let_def f sn_ack_loop_fields)
qed (auto simp: sn_tick_def Let_def sn_send_empty_segment_def sn_send_empty_flags_def split: list.split)

lemma sn_ok_clear: "sn_ok S s \<Longrightarrow> sn_ok S (s\<lparr>sn_segments_out := []\<rparr>)"
  by (simp add: sn_ok_def)

lemma tc_ok_clear: "tc_ok S R isn c \<Longrightarrow> tc_ok S R isn (tc_clear_sender_buffer c)"
  by (auto simp: tc_ok_def sn_ok_clear list_all_iff) (simp add: sn_ok_def list_all_iff)

lemma tc_ok_kill: "tc_ok S R isn c \<Longrightarrow> tc_ok S R isn (tc_kill_connection clean c)"
  by (simp add: tc_ok_def)

lemma tc_ok_sender:
  "tc_ok S R isn c \<Longrightarrow> sn_ok S s \<Longrightarrow> sn_isn s = sn_isn (tc_sender c) \<Longrightarrow> tc_ok S R isn (c\<lparr>tc_sender := s\<rparr>)"
  by (simp add: tc_ok_def)

lemma tc_ok_rst: "tc_ok S R isn c \<Longrightarrow> tc_ok S R isn (tc_send_rst_empty_segment c)"
  unfolding tc_send_rst_empty_segment_def
  by (intro tc_ok_clear tc_ok_sender sn_send_empty_ok(2)) (simp_all add: tc_ok_def)

lemma tc_ok_tick:
  assumes "tc_ok S R isn c"
  shows "tc_ok S R isn (tc_tick ms c)"
proof -
  let ?c = "c\<lparr>tc_time_last_recv := add64 (tc_time_last_recv c) ms\<rparr>"
  have c: "tc_ok S R isn ?c" "tc_ok S R isn (?c\<lparr>tc_sender := sn_tick ms (tc_sender c)\<rparr>)"
    using assms sn_tick_ok by (simp_all add: tc_ok_def)
  show ?thesis
    using tc_ok_kill[OF tc_ok_rst[OF c(1)]] tc_ok_clear[OF c(2)] tc_ok_clear[OF tc_ok_kill[OF c(2)]]
    by (simp add: tc_tick_def Let_def)
qed

lemma tc_ok_end_input: "tc_ok S R isn c \<Longrightarrow> tc_ok S R isn (tc_end_input_stream c)"
proof -
  assume c: "tc_ok S R isn c"
  then have "sn_ok S (sn_fill_window ((tc_sender c)\<lparr>sn_stream := bs_end_input (tc_stream_in c)\<rparr>))"
    by (intro sn_fill_window_ok(1)) (simp add: tc_stream_in_def sn_ok_end_input tc_ok_def)
  then have "tc_ok S R isn (tc_clear_sender_buffer
      (c\<lparr>tc_sender := sn_fill_window ((tc_sender c)\<lparr>sn_stream := bs_end_input (tc_stream_in c)\<rparr>)\<rparr>))"
    using c by (intro tc_ok_clear tc_ok_sender) simp_all
  then show ?thesis by (simp add: tc_end_input_stream_def Let_def) (simp add: tc_ok_def)
qed

lemma tc_ok_connect: "tc_ok S R isn c \<Longrightarrow> tc_ok S R isn (tc_connect c)"
  unfolding tc_connect_def by (intro tc_ok_clear tc_ok_sender) (simp_all add: tc_ok_def sn_fill_window_ok(1))

lemma tc_ok_destroy: "tc_ok S R isn c \<Longrightarrow> tc_ok S R isn (tc_destroy c)"
proof -
  assume "tc_ok S R isn c"
  then have "tc_ok S R isn (tc_send_rst_empty_segment
      (c\<lparr>tc_sender := sn_set_error (tc_sender c), tc_receiver := tr_set_error (tc_receiver c)\<rparr>))"
    by (intro tc_ok_rst) (simp add: tc_ok_def)
  then show ?thesis using \<open>tc_ok S R isn c\<close> by (simp add: tc_destroy_def Let_def) (simp add: tc_ok_def)
qed

lemma tc_ok_mono:
  "tc_ok S R isn c \<Longrightarrow> tc_ok S (R @ T) isn c"
  by (simp add: tc_ok_def recv_ok_mono)

lemma tc_ok_write:
  assumes "tc_ok S R isn c" "length S + length d + 2 < two64" "\<not> bs_input_ended (tc_stream_in c)"
  shows "tc_ok (S @ take (snd (tc_write d c)) d) R isn (fst (tc_write d c))"
proof -
  let ?t = "fst (bs_write (tc_stream_in c) d)" and ?n = "snd (bs_write (tc_stream_in c) d)"
  have "sn_ok (S @ take ?n d) ((tc_sender c)\<lparr>sn_stream := ?t\<rparr>)"
    using sn_ok_stream[of S "tc_sender c" d] assms by (simp add: tc_ok_def tc_stream_in_def)
  moreover have "list_all (segment_of (S @ take ?n d) (sn_isn (tc_sender c))) (tc_segments_out c)"
    using assms(1) segment_of_mono by (auto simp: tc_ok_def list_all_iff)
  ultimately have "tc_ok (S @ take ?n d) R isn
      (c\<lparr>tc_sender := sn_fill_window ((tc_sender c)\<lparr>sn_stream := ?t\<rparr>)\<rparr>)"
    using assms(1) sn_fill_window_ok(1) by (simp add: tc_ok_def)
  then show ?thesis by (simp add: tc_write_def split_beta tc_ok_clear)
qed

lemma tc_reply_ok: "sn_ok S s \<Longrightarrow> sn_ok S (tc_reply seg r s)"
  by (simp add: tc_reply_def Let_def sn_send_empty_ok(1) sn_fill_window_ok(1) split: option.split)

lemma tc_reply_isn [simp]: "sn_isn (tc_reply seg r s) = sn_isn s"
  by (simp add: tc_reply_def Let_def split: option.split)

text \<open>The successful course of \<open>segment_received\<close>, field by field.\<close>

lemma tc_segment_received_Inr:
  assumes "\<not> th_rst (ts_header seg)" "tr_segment_received (tc_receiver c) seg = Some r"
    and "(if th_ack (ts_header seg) then Some (th_ackno (ts_header seg)) else tr_ackno r) = Some ackno"
    and "tc_reply seg r (sn_ack_received ackno (th_win (ts_header seg)) (tc_sender c)) = s"
  obtains c' where "tc_segment_received seg c = Inr c'" "tc_receiver c' = r"
    "tc_sender c' = s\<lparr>sn_segments_out := []\<rparr>" "tc_active c' = tc_active c"
    "tc_segments_out c' = tc_segments_out c @ map (tc_fill_header r) (sn_segments_out s)"
    "tc_linger_after_streams_finish c' \<longleftrightarrow> tc_linger_after_streams_finish c \<and>
       \<not> (bs_input_ended (tr_stream_out r) \<and> \<not> bs_input_ended (sn_stream s))"
proof -
  define d where "d = tc_clear_sender_buffer (c\<lparr>tc_time_last_recv := 0, tc_receiver := r, tc_sender := s\<rparr>)"
  let ?e = "if bs_input_ended (tc_inbound_stream d) \<and> \<not> bs_input_ended (tc_stream_in d)
    then d\<lparr>tc_linger_after_streams_finish := False\<rparr> else d"
  have "tc_segment_received seg c = Inr ?e"
    unfolding tc_segment_received_def Let_def using assms by (simp add: d_def)
  then show thesis
    by (rule that) (simp_all add: d_def tc_inbound_stream_def tc_stream_in_def)
qed

text \<open>A segment of the peer is accepted as soon as the peer's SYN has arrived or the segment
  acknowledges something.\<close>

lemma tc_segment_received_ok:
  assumes ok: "tc_ok S R isn c" and seg: "segment_of R isn seg" "length R < 2147483648"
    and "th_rst (ts_header seg) \<or> th_ack (ts_header seg) \<or> th_syn (ts_header seg) \<or> tr_syn (tc_receiver c)"
  obtains c' where "tc_segment_received seg c = Inr c'" "tc_ok S R isn c'"
    "bs_bytes_read (tc_inbound_stream c') = bs_bytes_read (tc_inbound_stream c)"
    "sn_isn (tc_sender c') = sn_isn (tc_sender c)"
proof (cases "th_rst (ts_header seg)")
  case True
  then show thesis using that tc_ok_kill[OF ok]
    by (simp add: tc_segment_received_def tc_inbound_stream_def tr_stream_out_def tr_set_error_def)
next
  case False
  have rok: "recv_ok R isn (tc_receiver c)" using ok by (simp add: tc_ok_def)
  obtain r where r: "tr_segment_received (tc_receiver c) seg = Some r" "recv_ok R isn r"
    "bs_bytes_read (sr_output (tr_reassembler r)) = bs_bytes_read (sr_output (tr_reassembler (tc_receiver c)))"
    using tr_segment_received_ok[OF rok seg] by metis
  have "th_syn (ts_header seg) \<or> tr_syn (tc_receiver c) \<Longrightarrow> tr_syn r"
    using tr_segment_received_syn[OF r(1)] by blast
  then obtain ackno where a: "(if th_ack (ts_header seg) then Some (th_ackno (ts_header seg)) else tr_ackno r) = Some ackno"
    using assms(4) False by (cases "th_ack (ts_header seg)") (auto simp: tr_ackno_def Let_def)
  define s where "s = tc_reply seg r (sn_ack_received ackno (th_win (ts_header seg)) (tc_sender c))"
  have s: "sn_ok S s" using ok unfolding s_def by (intro tc_reply_ok sn_ack_received_ok) (simp add: tc_ok_def)
  have isn: "sn_isn s = sn_isn (tc_sender c)" by (simp add: s_def)
  have seg': "list_all (segment_of S (sn_isn s)) (sn_segments_out s)" using s by (simp add: sn_ok_def)
  obtain c' where c': "tc_segment_received seg c = Inr c'" "tc_receiver c' = r"
    "tc_sender c' = s\<lparr>sn_segments_out := []\<rparr>"
    "tc_segments_out c' = tc_segments_out c @ map (tc_fill_header r) (sn_segments_out s)"
    using tc_segment_received_Inr[OF False r(1) a s_def[symmetric]] by metis
  have "tc_ok S R isn c'"
    using ok s isn seg' r(2) c'(2-4) sn_ok_clear by (auto simp: tc_ok_def list_all_iff)
  then show thesis using that c' isn r(3) by (simp add: tc_inbound_stream_def tr_stream_out_def)
qed

section \<open>The end of a connection\<close>

text \<open>Once both streams are finished and acknowledged, time is all that changes.\<close>

lemma tc_tick_finished:
  assumes "tc_kill_condition_check c" "\<not> tm_active (sn_timer (tc_sender c))"
    and "sn_consecutive_retransmissions (tc_sender c) < MAX_RETX_ATTEMPTS"
    and "tc_time_last_recv c + ms < two64"
  shows "tc_kill_condition_check (tc_tick ms c)" "\<not> tm_active (sn_timer (tc_sender (tc_tick ms c)))"
    "sn_consecutive_retransmissions (tc_sender (tc_tick ms c)) < MAX_RETX_ATTEMPTS"
    "tc_time_last_recv (tc_tick ms c) = tc_time_last_recv c + ms" "tc_cfg (tc_tick ms c) = tc_cfg c"
    "tc_linger_after_streams_finish (tc_tick ms c) = tc_linger_after_streams_finish c"
    "tc_active (tc_tick ms c) \<longleftrightarrow> tc_active c \<and> tc_linger_after_streams_finish c \<and>
       tc_time_last_recv c + ms < 10 * cfg_rt_timeout (tc_cfg c)"
proof -
  have t: "sn_tick ms (tc_sender c) = tc_sender c" using assms(2) by (simp add: sn_tick_def)
  have k: "tc_kill_condition_check (c\<lparr>tc_time_last_recv := x, tc_sender := tc_sender c\<rparr>)" for x
    using assms(1) by (simp add: tc_kill_condition_check_def tc_inbound_stream_def tc_stream_in_def)
  have e: "tc_tick ms c = tc_clear_sender_buffer (c\<lparr>tc_time_last_recv := tc_time_last_recv c + ms,
      tc_active := tc_active c \<and> tc_linger_after_streams_finish c \<and>
        tc_time_last_recv c + ms < 10 * cfg_rt_timeout (tc_cfg c)\<rparr>)"
    using assms(3,4) k t unfolding tc_tick_def Let_def by (auto simp: no_wrap tc_kill_connection_def)
  show "tc_kill_condition_check (tc_tick ms c)" "\<not> tm_active (sn_timer (tc_sender (tc_tick ms c)))"
    "sn_consecutive_retransmissions (tc_sender (tc_tick ms c)) < MAX_RETX_ATTEMPTS"
    "tc_time_last_recv (tc_tick ms c) = tc_time_last_recv c + ms" "tc_cfg (tc_tick ms c) = tc_cfg c"
    "tc_linger_after_streams_finish (tc_tick ms c) = tc_linger_after_streams_finish c"
    "tc_active (tc_tick ms c) \<longleftrightarrow> tc_active c \<and> tc_linger_after_streams_finish c \<and>
       tc_time_last_recv c + ms < 10 * cfg_rt_timeout (tc_cfg c)"
    using assms(1-3) unfolding e
    by (simp_all add: tc_kill_condition_check_def tc_inbound_stream_def tc_stream_in_def sn_bytes_in_flight_def)
qed

definition tc_ticks :: "nat list \<Rightarrow> TCPConnection \<Rightarrow> TCPConnection" where
  "tc_ticks mss c = foldl (\<lambda>c ms. tc_tick ms c) c mss"

lemma tc_ticks_finished:
  assumes "tc_kill_condition_check c" "\<not> tm_active (sn_timer (tc_sender c))"
    and "sn_consecutive_retransmissions (tc_sender c) < MAX_RETX_ATTEMPTS"
    and "tc_time_last_recv c + sum_list mss < two64" "mss \<noteq> []"
  shows "tc_active (tc_ticks mss c) \<longleftrightarrow> tc_active c \<and> tc_linger_after_streams_finish c \<and>
    tc_time_last_recv c + sum_list mss < 10 * cfg_rt_timeout (tc_cfg c)"
  using assms
proof (induction mss arbitrary: c)
  case (Cons ms mss)
  have lim: "tc_time_last_recv c + ms < two64" using Cons.prems(4) by simp
  note t = tc_tick_finished[OF Cons.prems(1-3) lim]
  show ?case
  proof (cases "mss = []")
    case False
    have "tc_ticks (ms # mss) c = tc_ticks mss (tc_tick ms c)" by (simp add: tc_ticks_def)
    then show ?thesis
      using Cons.IH[OF t(1-3) _ False] Cons.prems(4) t(4-7) by (auto simp: add.assoc)
  qed (simp add: tc_ticks_def t(7))
qed simp

section \<open>Properties\<close>

text \<open>C28: When both streams have ended, everything is acknowledged and the retransmission timer is
  off, ticks alone decide: a lingering connection stays active exactly until ten times the initial
  retransmission timeout has passed since the last segment, any other one is closed by the first
  tick.\<close>

theorem time_wait_ends:
  assumes "tc_active c" "tc_kill_condition_check c" "\<not> tm_active (sn_timer (tc_sender c))"
    and "sn_consecutive_retransmissions (tc_sender c) < MAX_RETX_ATTEMPTS"
    and "tc_time_last_recv c + sum_list mss < two64" "mss \<noteq> []"
  shows "tc_active (tc_ticks mss c) \<longleftrightarrow> tc_linger_after_streams_finish c \<and>
    tc_time_last_recv c + sum_list mss < 10 * cfg_rt_timeout (tc_cfg c)"
  using tc_ticks_finished[OF assms(2-6)] assms(1) by simp

theorem time_wait_ends_witness:
  "let c = (tc_new 5 cfg_default)\<lparr>tc_receiver := tr_finish (tr_new 64000)
         (ts_default\<lparr>ts_header := th_default\<lparr>th_fin := True\<rparr>\<rparr>),
       tc_sender := (sn_new 5 64000 1000 None)\<lparr>sn_stream := bs_end_input (bs_new 64000), sn_next_seqno := 2,
         sn_abs_ackno := 2\<rparr>\<rparr>
   in tc_active (tc_ticks [4000, 5999] c) \<and> \<not> tc_active (tc_ticks [4000, 6000] c)"
proof -
  let ?c = "(tc_new 5 cfg_default)\<lparr>tc_receiver := tr_finish (tr_new 64000)
         (ts_default\<lparr>ts_header := th_default\<lparr>th_fin := True\<rparr>\<rparr>),
       tc_sender := (sn_new 5 64000 1000 None)\<lparr>sn_stream := bs_end_input (bs_new 64000), sn_next_seqno := 2,
         sn_abs_ackno := 2\<rparr>\<rparr>"
  have "tc_active ?c" "tc_kill_condition_check ?c" "\<not> tm_active (sn_timer (tc_sender ?c))"
    "sn_consecutive_retransmissions (tc_sender ?c) < MAX_RETX_ATTEMPTS" "tc_time_last_recv ?c = 0"
    "tc_linger_after_streams_finish ?c" "cfg_rt_timeout (tc_cfg ?c) = 1000"
    by (simp_all add: tc_new_def tr_finish_def tr_new_def sr_new_def sn_new_def tm_new_def cfg_default_def
        bs_new_def bs_end_input_def bs_eof_def bs_buffer_empty_def tc_kill_condition_check_def
        tc_inbound_stream_def tc_stream_in_def tr_stream_out_def tr_unassembled_bytes_def
        sr_unassembled_bytes_def sn_bytes_in_flight_def no_wrap ts_default_def Let_def)
  then show ?thesis
    using time_wait_ends[of ?c "[4000, 5999]"] time_wait_ends[of ?c "[4000, 6000]"] by (simp add: Let_def)
qed



text \<open>A segment makes \<open>segment_received\<close> throw exactly when it neither resets the connection nor
  acknowledges anything and no SYN has arrived, neither before nor with it.\<close>

lemma segment_received_throws:
  "tc_segment_received seg c = Inl BadOptionalAccess \<longleftrightarrow>
     \<not> th_rst (ts_header seg) \<and> \<not> th_ack (ts_header seg) \<and> \<not> th_syn (ts_header seg) \<and>
     \<not> tr_syn (tc_receiver c)"
proof -
  have "tr_segment_received (tc_receiver c) seg = Some (tc_receiver c)"
    if "\<not> th_syn (ts_header seg)" "\<not> tr_syn (tc_receiver c)"
    using that by (simp add: tr_segment_received_def)
  then show ?thesis
    by (cases "th_syn (ts_header seg)"; cases "tr_syn (tc_receiver c)")
      (auto simp: tc_segment_received_def Let_def tr_ackno_def dest: tr_segment_received_syn
        split: option.splits if_splits)
qed

text \<open>C30: In a simultaneous open the peer's SYN carries no acknowledgment, and the receiver's own
  acknowledgment number is given to the sender instead. When the peer has chosen the same initial
  sequence number, the sender then takes its own SYN for acknowledged and forgets it.\<close>

theorem simultaneous_open_false_ack:
  assumes "cfg_fixed_isn cfg = None" "th_syn (ts_header seg)" "\<not> th_ack (ts_header seg)" "\<not> th_rst (ts_header seg)"
    and "\<not> th_fin (ts_header seg)" "ts_payload seg = []" "th_seqno (ts_header seg) = WrappingInt32 rnd"
  shows "(\<exists>x. sn_outstanding_segments (tc_sender (tc_connect (tc_new rnd cfg))) = [(0, x)] \<and> th_syn (ts_header x)) \<and>
    (\<exists>c'. tc_segment_received seg (tc_connect (tc_new rnd cfg)) = Inr c' \<and>
       sn_outstanding_segments (tc_sender c') = [] \<and> sn_abs_ackno (tc_sender c') = 1)"
proof -
  let ?init = "tc_new rnd cfg" and ?c = "tc_connect (tc_new rnd cfg)"
  have s0: "sn_next_seqno (tc_sender ?init) = 0" "sn_abs_ackno (tc_sender ?init) = 0" "sn_window_size (tc_sender ?init) = 1"
    "bs_buffer (sn_stream (tc_sender ?init)) = []" "bs_bytes_read (sn_stream (tc_sender ?init)) = 0"
    "\<not> bs_input_ended (sn_stream (tc_sender ?init))" "sn_in_flight (tc_sender ?init) = 0"
    "sn_isn (tc_sender ?init) = WrappingInt32 rnd" "sn_outstanding_segments (tc_sender ?init) = []"
    using assms(1) by (simp_all add: tc_new_def sn_new_def bs_new_def)
  have s: "sn_next_seqno (tc_sender ?c) = 1" "bs_buffer (sn_stream (tc_sender ?c)) = []"
    "\<not> bs_input_ended (sn_stream (tc_sender ?c))" "sn_isn (tc_sender ?c) = WrappingInt32 rnd"
    "sn_outstanding_segments (tc_sender ?c) = [(0, syn_segment (WrappingInt32 rnd))]"
    "sn_abs_ackno (tc_sender ?c) = 0" "tc_receiver ?c = tr_new (cfg_recv_capacity cfg)"
    using s0 by (simp_all add: tc_connect_def sn_fill_syn) (simp add: tc_new_def)
  obtain r where r: "tr_segment_received (tc_receiver ?c) seg = Some r"
    and a: "tr_ackno r = Some (wrap 1 (WrappingInt32 rnd))"
    using assms by (simp add: s(7) tr_syn_received)
  define t where "t = sn_ack_received (wrap 1 (WrappingInt32 rnd)) (th_win (ts_header seg)) (tc_sender ?c)"
  have "unwrap (wrap 1 (WrappingInt32 rnd)) (WrappingInt32 rnd) 1 = 1" by (rule unwrap_wrap_near) simp_all
  then have t: "sn_outstanding_segments t = []" "sn_next_seqno t = 1" "bs_buffer (sn_stream t) = []"
    "\<not> bs_input_ended (sn_stream t)" "sn_abs_ackno t = 1"
    unfolding t_def using s
    by (simp_all add: sn_ack_received_def Let_def no_wrap syn_segment_def th_default_def
        ts_length_in_sequence_space_def sn_fill_idle)
  have "sn_outstanding_segments (tc_reply seg r t) = []" "sn_abs_ackno (tc_reply seg r t) = 1"
    using t by (simp_all add: tc_reply_def Let_def sn_fill_idle sn_send_empty_segment_def split: option.split)
  moreover obtain c' where "tc_segment_received seg ?c = Inr c'"
    "tc_sender c' = (tc_reply seg r t)\<lparr>sn_segments_out := []\<rparr>"
    by (rule tc_segment_received_Inr[OF assms(4) r]) (use a assms(3) t_def in auto)
  ultimately show ?thesis using s(5) by (auto simp: syn_segment_def)
qed

theorem simultaneous_open_false_ack_witness:
  "\<exists>c'. tc_segment_received (syn_segment (WrappingInt32 5)) (tc_connect (tc_new 5 cfg_default)) = Inr c' \<and>
     sn_outstanding_segments (tc_sender c') = []"
  using simultaneous_open_false_ack[of cfg_default "syn_segment (WrappingInt32 5)" 5]
  by (auto simp: cfg_default_def syn_segment_def th_default_def)

end
