(* ===== verification/TCP_Network.thy ===== *)
theory TCP_Network
  imports TCP_Connection
begin

text \<open>
  Two TCP endpoints and the network between them. An endpoint is a connection with its history:
  what its owner has written, what its owner has read, and every segment it has put on the wire.
  The network may lose, repeat, delay and reorder segments: at any time any segment that was ever
  sent by the other side may arrive. The calls of the owners (\<^verbatim>\<open>connect\<close>, \<^verbatim>\<open>write\<close>, \<^verbatim>\<open>end_input_stream\<close>,
  \<^verbatim>\<open>tick\<close>, reading the inbound stream, taking a segment from the queue, destruction) happen in any
  order on both sides.

  The step relation of such a network is defined once, for any kind of endpoint, and the locale
  \<open>two_party\<close> says what an endpoint must promise for an invariant to hold in every reachable state.
  The interpretation on the connections gives the end-to-end properties: the bytes delivered are a
  prefix of the bytes written, in both directions, and no segment that can arrive makes
  \<open>segment_received\<close> throw or run into undefined behaviour.
\<close>

section \<open>Two parties and an unreliable network\<close>

inductive net_step :: "('e \<Rightarrow> 'e \<Rightarrow> bool) \<Rightarrow> ('e \<Rightarrow> 'm list) \<Rightarrow> ('m \<Rightarrow> 'e \<Rightarrow> 'e option) \<Rightarrow>
    'e \<times> 'e \<Rightarrow> 'e \<times> 'e \<Rightarrow> bool" for own sent deliver where
  Own: "own x x' \<Longrightarrow> net_step own sent deliver (x, y) (x', y)"
| Arrive: "m \<in> set (sent y) \<Longrightarrow> deliver m x = Some x' \<Longrightarrow> net_step own sent deliver (x, y) (x', y)"
| Other: "net_step own sent deliver (y, x) (y', x') \<Longrightarrow> net_step own sent deliver (x, y) (x', y')"

locale two_party =
  fixes own :: "'e \<Rightarrow> 'e \<Rightarrow> bool" and sent :: "'e \<Rightarrow> 'm list"
    and deliver :: "'m \<Rightarrow> 'e \<Rightarrow> 'e option" and inv :: "'e \<Rightarrow> 'e \<Rightarrow> bool"
  assumes own_inv: "inv x y \<Longrightarrow> own x x' \<Longrightarrow> inv x' y"
    and deliver_inv: "inv x y \<Longrightarrow> m \<in> set (sent y) \<Longrightarrow> \<exists>x'. deliver m x = Some x' \<and> inv x' y"
    and inv_sym: "inv x y \<Longrightarrow> inv y x"
begin

lemma step_inv: "net_step own sent deliver w w' \<Longrightarrow> inv (fst w) (snd w) \<Longrightarrow> inv (fst w') (snd w')"
proof (induction rule: net_step.induct)
  case (Own x x' y)
  then show ?case using own_inv by simp
next
  case (Arrive m y x x')
  then show ?case using deliver_inv by fastforce
next
  case (Other y x y' x')
  then show ?case using inv_sym by simp
qed

lemma reach_inv:
  assumes "(net_step own sent deliver)\<^sup>*\<^sup>* w w'" "inv (fst w) (snd w)"
  shows "inv (fst w') (snd w')"
  using assms by (induction rule: rtranclp_induct) (auto intro: step_inv)

lemma reach_deliver:
  assumes "(net_step own sent deliver)\<^sup>*\<^sup>* w w'" "inv (fst w) (snd w)"
  shows "m \<in> set (sent (snd w')) \<Longrightarrow> deliver m (fst w') \<noteq> None"
    and "m \<in> set (sent (fst w')) \<Longrightarrow> deliver m (snd w') \<noteq> None"
  using reach_inv[OF assms] deliver_inv inv_sym by fastforce+

end

section \<open>Endpoints\<close>

record endpoint =
  ep_conn :: TCPConnection
  ep_written :: bytes
  ep_read :: bytes
  ep_wire :: "TCPSegment list"

definition ep_new :: "u32 \<Rightarrow> TCPConfig \<Rightarrow> endpoint" where
  "ep_new rnd cfg = \<lparr>ep_conn = tc_new rnd cfg, ep_written = [], ep_read = [], ep_wire = []\<rparr>"

definition tc_read :: "nat \<Rightarrow> TCPConnection \<Rightarrow> TCPConnection \<times> bytes" where
  "tc_read len c =
     (case bs_read (tc_inbound_stream c) len of (stream, data) \<Rightarrow>
        (c\<lparr>tc_receiver := (tc_receiver c)\<lparr>tr_reassembler :=
             (tr_reassembler (tc_receiver c))\<lparr>sr_output := stream\<rparr>\<rparr>\<rparr>, data))"

text \<open>The owner writes only while the outbound stream is open, and less than \<open>2\<^sup>3\<^sup>1\<close> bytes in all, so
  that 32-bit sequence numbers tell the bytes apart.\<close>

inductive ep_step :: "endpoint \<Rightarrow> endpoint \<Rightarrow> bool" where
  Connect: "ep_step e (e\<lparr>ep_conn := tc_connect (ep_conn e)\<rparr>)"
| Write: "\<not> bs_input_ended (tc_stream_in (ep_conn e)) \<Longrightarrow> length (ep_written e) + length data < 2147483648 \<Longrightarrow>
    tc_write data (ep_conn e) = (c, n) \<Longrightarrow>
    ep_step e (e\<lparr>ep_conn := c, ep_written := ep_written e @ take n data\<rparr>)"
| End: "ep_step e (e\<lparr>ep_conn := tc_end_input_stream (ep_conn e)\<rparr>)"
| Tick: "ep_step e (e\<lparr>ep_conn := tc_tick ms (ep_conn e)\<rparr>)"
| Read: "tc_read n (ep_conn e) = (c, data) \<Longrightarrow>
    ep_step e (e\<lparr>ep_conn := c, ep_read := ep_read e @ data\<rparr>)"
| Send: "tc_segments_out (ep_conn e) = seg # rest \<Longrightarrow>
    ep_step e (e\<lparr>ep_conn := (ep_conn e)\<lparr>tc_segments_out := rest\<rparr>, ep_wire := ep_wire e @ [seg]\<rparr>)"
| Destroy: "ep_step e (e\<lparr>ep_conn := tc_destroy (ep_conn e)\<rparr>)"

inductive_cases ep_stepE: "ep_step e e'"

definition ep_deliver :: "TCPSegment \<Rightarrow> endpoint \<Rightarrow> endpoint option" where
  "ep_deliver seg e =
     (case tc_segment_received seg (ep_conn e) of Inl _ \<Rightarrow> None | Inr c \<Rightarrow> Some (e\<lparr>ep_conn := c\<rparr>))"

abbreviation tcp_reach :: "endpoint \<times> endpoint \<Rightarrow> endpoint \<times> endpoint \<Rightarrow> bool" where
  "tcp_reach \<equiv> (net_step ep_step ep_wire ep_deliver)\<^sup>*\<^sup>*"

section \<open>The handshake\<close>

text \<open>Until one side has seen the other's SYN (\<open>b\<close> is false), a sender has only its own SYN to send, and
  resets.\<close>

definition plain :: "bool \<Rightarrow> TCPSegment \<Rightarrow> bool" where
  "plain b seg \<longleftrightarrow> \<not> th_ack (ts_header seg) \<and> (th_syn (ts_header seg) \<or> th_rst (ts_header seg) \<or> b)"

definition sender_hs :: "bool \<Rightarrow> TCPSender \<Rightarrow> bool" where
  "sender_hs b s \<longleftrightarrow> list_all (plain b) (sn_segments_out s) \<and>
     list_all (\<lambda>x. plain b (snd x)) (sn_outstanding_segments s) \<and>
     (\<not> b \<longrightarrow> sn_abs_ackno s = 0 \<and> sn_window_size s = 1 \<and> sn_next_seqno s \<le> 1)"

lemma plain_mono: "plain b seg \<Longrightarrow> (b \<longrightarrow> b') \<Longrightarrow> plain b' seg"
  by (auto simp: plain_def)

lemma sender_hs_mono: "sender_hs b s \<Longrightarrow> (b \<longrightarrow> b') \<Longrightarrow> sender_hs b' s"
  by (auto simp: sender_hs_def list_all_iff intro: plain_mono)

lemma sn_make_segment_flags:
  "sn_make_segment s av syn = (seg, stream) \<Longrightarrow> \<not> th_ack (ts_header seg) \<and> th_syn (ts_header seg) = syn"
  by (auto simp: sn_make_segment_def th_default_def Let_def split_beta split: if_splits)

lemma sender_hs_step:
  assumes hs: "sender_hs b s" and st: "sn_fill_step s = (s', True)"
  shows "sender_hs b s'"
proof -
  obtain seg stream where m: "sn_make_segment s (sn_available_space s) (sn_next_seqno s = 0) = (seg, stream)"
    and size: "0 < ts_length_in_sequence_space seg" "ts_length_in_sequence_space seg \<le> sn_available_space s"
    and s': "s' = s\<lparr>sn_stream := stream, sn_segments_out := sn_segments_out s @ [seg],
       sn_outstanding_segments := sn_outstanding_segments s @ [(sn_next_seqno s, seg)],
       sn_in_flight := add64 (sn_in_flight s) (ts_length_in_sequence_space seg),
       sn_next_seqno := add64 (sn_next_seqno s) (ts_length_in_sequence_space seg),
       sn_timer := (if \<not> tm_active (sn_timer s)
          then tm_start (sn_retransmission_timeout s mod two32) (sn_timer s) else sn_timer s)\<rparr>"
    by (rule sn_fill_step_True[OF st]) blast
  note flags = sn_make_segment_flags[OF m]
  show ?thesis
  proof (cases b)
    case True
    then show ?thesis using hs flags by (simp add: s' sender_hs_def plain_def)
  next
    case False
    then have "sn_available_space s = 1 - sn_next_seqno s" and n: "sn_next_seqno s \<le> 1"
      using hs by (auto simp: sender_hs_def sn_available_space_def Let_def no_wrap)
    then have "sn_next_seqno s = 0" "ts_length_in_sequence_space seg = 1" using size by auto
    then show ?thesis using hs flags False by (simp add: s' sender_hs_def plain_def no_wrap)
  qed
qed

lemma sender_hs_fill: "sender_hs b s \<Longrightarrow> sender_hs b (sn_fill_window s)"
  by (rule sn_fill_window_invar[where P = "sender_hs b"]) (auto intro: sender_hs_step)

lemma sender_hs_tick: "sender_hs b s \<Longrightarrow> sender_hs b (sn_tick ms s)"
  by (auto simp: sender_hs_def sn_tick_def Let_def plain_def split: list.splits)

lemma sender_hs_rst: "sender_hs b s \<Longrightarrow> sn_next_seqno s < two64 \<Longrightarrow> sender_hs b (sn_send_empty_flags False False True s)"
  by (auto simp: sender_hs_def sn_send_empty_flags_def Let_def plain_def ts_default_def th_default_def
      ts_length_in_sequence_space_def no_wrap)

lemma sender_hs_empty: "sender_hs True s \<Longrightarrow> sender_hs True (sn_send_empty_segment s)"
  by (simp add: sender_hs_def sn_send_empty_segment_def plain_def ts_default_def th_default_def)

lemma sn_ack_loop_all: "list_all P segs \<Longrightarrow> list_all P (sn_outstanding_segments (sn_ack_loop segs a s))"
  by (induction segs a s rule: sn_ack_loop.induct) (simp_all add: Let_def)

lemma sender_hs_ack: "sender_hs True s \<Longrightarrow> sender_hs True (sn_ack_received a w s)"
proof -
  assume hs: "sender_hs True s"
  have "sender_hs True (sn_ack_loop (sn_outstanding_segments s) u (s\<lparr>sn_window_size := v, sn_abs_ackno := u\<rparr>))" for u v
    using hs by (simp add: sender_hs_def sn_ack_loop_fields sn_ack_loop_all)
  moreover have "sender_hs True (s\<lparr>sn_window_size := v\<rparr>)" for v using hs by (simp add: sender_hs_def)
  ultimately show ?thesis by (simp add: sn_ack_received_def Let_def sender_hs_fill)
qed

lemma sender_hs_reply: "sender_hs True s \<Longrightarrow> sender_hs True (tc_reply seg r s)"
  by (simp add: tc_reply_def Let_def sender_hs_empty sender_hs_fill split: option.split)

lemma sender_hs_fields [simp]:
  "sender_hs b (s\<lparr>sn_stream := t\<rparr>) = sender_hs b s" "sender_hs b (sn_set_error s) = sender_hs b s"
  "sender_hs b s \<Longrightarrow> sender_hs b (s\<lparr>sn_segments_out := []\<rparr>)"
  by (simp_all add: sender_hs_def)

text \<open>What a segment on its way shows: \<open>hx\<close> and \<open>hy\<close> say whether its source and its destination have seen
  the SYN of the other side.\<close>

definition carries :: "bool \<Rightarrow> bool \<Rightarrow> TCPSegment \<Rightarrow> bool" where
  "carries hx hy seg \<longleftrightarrow> (th_ack (ts_header seg) \<longrightarrow> hx) \<and>
     (th_ack (ts_header seg) \<or> th_syn (ts_header seg) \<or> th_rst (ts_header seg) \<or> hy)"

definition conn_hs :: "bool \<Rightarrow> TCPConnection \<Rightarrow> bool" where
  "conn_hs hy c \<longleftrightarrow> sender_hs (tr_syn (tc_receiver c) \<or> hy) (tc_sender c) \<and>
     list_all (carries (tr_syn (tc_receiver c)) hy) (tc_segments_out c)"

lemma carries_mono: "carries hx hy seg \<Longrightarrow> (hx \<longrightarrow> hx') \<Longrightarrow> (hy \<longrightarrow> hy') \<Longrightarrow> carries hx' hy' seg"
  by (auto simp: carries_def)

lemma conn_hs_mono: "conn_hs hy c \<Longrightarrow> (hy \<longrightarrow> hy') \<Longrightarrow> conn_hs hy' c"
  by (auto simp: conn_hs_def list_all_iff intro: carries_mono sender_hs_mono)

lemma conn_hs_clear: "conn_hs hy c \<Longrightarrow> conn_hs hy (tc_clear_sender_buffer c)"
  by (auto simp: conn_hs_def list_all_iff) (auto simp: carries_def sender_hs_def plain_def list_all_iff)

lemma conn_hs_kill: "conn_hs hy c \<Longrightarrow> conn_hs hy (tc_kill_connection clean c)"
  by (simp add: conn_hs_def)

lemma conn_hs_sender:
  "conn_hs hy c \<Longrightarrow> sender_hs (tr_syn (tc_receiver c) \<or> hy) s \<Longrightarrow> conn_hs hy (c\<lparr>tc_sender := s\<rparr>)"
  by (simp add: conn_hs_def)

lemma conn_hs_rst: "conn_hs hy c \<Longrightarrow> tc_ok S R isn c \<Longrightarrow> conn_hs hy (tc_send_rst_empty_segment c)"
  unfolding tc_send_rst_empty_segment_def using sn_okD(4,7)[of S "tc_sender c"]
  by (intro conn_hs_clear conn_hs_sender sender_hs_rst) (auto simp: conn_hs_def tc_ok_def)

lemma conn_hs_tick:
  assumes "conn_hs hy c" "tc_ok S R isn c"
  shows "conn_hs hy (tc_tick ms c)"
proof -
  let ?c = "c\<lparr>tc_time_last_recv := add64 (tc_time_last_recv c) ms\<rparr>"
  have c: "conn_hs hy ?c" "conn_hs hy (?c\<lparr>tc_sender := sn_tick ms (tc_sender c)\<rparr>)" "tc_ok S R isn ?c"
    using assms sender_hs_tick by (simp_all add: conn_hs_def tc_ok_def)
  show ?thesis
    using conn_hs_kill[OF conn_hs_rst[OF c(1,3)]] conn_hs_clear[OF c(2)] conn_hs_clear[OF conn_hs_kill[OF c(2)]]
    by (simp add: tc_tick_def Let_def)
qed

lemma conn_hs_filled:
  "conn_hs hy c \<Longrightarrow> conn_hs hy (tc_clear_sender_buffer (c\<lparr>tc_sender := sn_fill_window ((tc_sender c)\<lparr>sn_stream := t\<rparr>)\<rparr>))"
  by (intro conn_hs_clear conn_hs_sender sender_hs_fill) (simp_all add: conn_hs_def)

lemma conn_hs_ops:
  assumes "conn_hs hy c"
  shows "conn_hs hy (tc_connect c)" "conn_hs hy (tc_end_input_stream c)" "conn_hs hy (fst (tc_write d c))"
    "conn_hs hy (fst (tc_read n c))"
proof -
  show "conn_hs hy (tc_connect c)"
    using conn_hs_filled[OF assms, of "sn_stream (tc_sender c)"] by (simp add: tc_connect_def)
  show "conn_hs hy (tc_end_input_stream c)"
    using conn_hs_filled[OF assms, of "bs_end_input (tc_stream_in c)"]
    by (simp add: tc_end_input_stream_def Let_def) (simp add: conn_hs_def)
  show "conn_hs hy (fst (tc_write d c))"
    using conn_hs_filled[OF assms] by (simp add: tc_write_def split_beta)
  show "conn_hs hy (fst (tc_read n c))"
    using assms by (simp add: tc_read_def split_beta conn_hs_def)
qed

lemma conn_hs_destroy:
  assumes "conn_hs hy c" "tc_ok S R isn c"
  shows "conn_hs hy (tc_destroy c)"
proof -
  let ?c = "c\<lparr>tc_sender := sn_set_error (tc_sender c), tc_receiver := tr_set_error (tc_receiver c)\<rparr>"
  have "conn_hs hy ?c" "tc_ok S R isn ?c" using assms by (simp_all add: conn_hs_def tc_ok_def)
  from conn_hs_rst[OF this] show ?thesis
    using assms(1) by (simp add: tc_destroy_def Let_def) (simp add: conn_hs_def)
qed

lemma conn_hs_received:
  assumes hs: "conn_hs hy c" and seg: "carries hy (tr_syn (tc_receiver c)) seg"
    and rec: "tc_segment_received seg c = Inr c'"
  shows "conn_hs hy c'" "tr_syn (tc_receiver c) \<longrightarrow> tr_syn (tc_receiver c')"
proof -
  have "conn_hs hy c' \<and> (tr_syn (tc_receiver c) \<longrightarrow> tr_syn (tc_receiver c'))"
  proof (cases "th_rst (ts_header seg)")
    case True
    then show ?thesis using rec hs conn_hs_kill by (auto simp: tc_segment_received_def)
  next
    case False
    obtain r ackno where r: "tr_segment_received (tc_receiver c) seg = Some r"
      and a: "(if th_ack (ts_header seg) then Some (th_ackno (ts_header seg)) else tr_ackno r) = Some ackno"
      using rec False by (auto simp: tc_segment_received_def Let_def split: option.splits if_splits)
    define s where "s = tc_reply seg r (sn_ack_received ackno (th_win (ts_header seg)) (tc_sender c))"
    obtain d where d: "tc_segment_received seg c = Inr d" "tc_receiver d = r"
      "tc_sender d = s\<lparr>sn_segments_out := []\<rparr>"
      "tc_segments_out d = tc_segments_out c @ map (tc_fill_header r) (sn_segments_out s)"
      using tc_segment_received_Inr[OF False r a s_def[symmetric]] by metis
    have syn: "tr_syn r \<longleftrightarrow> tr_syn (tc_receiver c) \<or> th_syn (ts_header seg)"
      by (rule tr_segment_received_syn[OF r])
    then have b: "tr_syn r \<or> hy" using seg False by (auto simp: carries_def)
    have "sender_hs True (tc_sender c)" using hs by (auto simp: conn_hs_def intro: sender_hs_mono)
    then have s: "sender_hs True s" unfolding s_def by (intro sender_hs_reply sender_hs_ack)
    then have "list_all (carries (tr_syn r) hy) (map (tc_fill_header r) (sn_segments_out s))"
      using b by (auto simp: carries_def sender_hs_def plain_def list_all_iff)
    moreover have "list_all (carries (tr_syn r) hy) (tc_segments_out c)"
      using hs syn by (auto simp: conn_hs_def list_all_iff intro: carries_mono)
    moreover have "sender_hs (tr_syn r \<or> hy) (s\<lparr>sn_segments_out := []\<rparr>)" using s b by simp
    ultimately have "conn_hs hy d" using d(2-4) by (simp add: conn_hs_def)
    then show ?thesis using d rec syn by simp
  qed
  then show "conn_hs hy c'" "tr_syn (tc_receiver c) \<longrightarrow> tr_syn (tc_receiver c')" by auto
qed

section \<open>The invariant of a connected pair\<close>

abbreviation ep_isn :: "endpoint \<Rightarrow> WrappingInt32" where "ep_isn e \<equiv> sn_isn (tc_sender (ep_conn e))"
abbreviation ep_heard :: "endpoint \<Rightarrow> bool" where "ep_heard e \<equiv> tr_syn (tc_receiver (ep_conn e))"

definition linked :: "endpoint \<Rightarrow> endpoint \<Rightarrow> bool" where
  "linked x y \<longleftrightarrow> tc_ok (ep_written x) (ep_written y) (ep_isn y) (ep_conn x) \<and>
     length (ep_written x) < 2147483648 \<and>
     list_all (segment_of (ep_written x) (ep_isn x)) (ep_wire x) \<and>
     ep_read x = take (bs_bytes_read (tc_inbound_stream (ep_conn x))) (ep_written y) \<and>
     conn_hs (ep_heard y) (ep_conn x) \<and>
     list_all (carries (ep_heard x) (ep_heard y)) (ep_wire x)"

definition pair_inv :: "endpoint \<Rightarrow> endpoint \<Rightarrow> bool" where
  "pair_inv x y \<longleftrightarrow> linked x y \<and> linked y x"

text \<open>A step of one side leaves the invariant of the other side alone, as long as the history only
  grows.\<close>

lemma linked_other:
  assumes "linked y x" "ep_written x' = ep_written x @ T" "ep_isn x' = ep_isn x" "ep_heard x \<longrightarrow> ep_heard x'"
  shows "linked y x'"
proof -
  have ok: "tc_ok (ep_written y) (ep_written x) (ep_isn x) (ep_conn y)" using assms(1) by (simp add: linked_def)
  then have "sr_ok (tr_reassembler (tc_receiver (ep_conn y)))"
    "bs.tracks (ep_written x) (sr_output (tr_reassembler (tc_receiver (ep_conn y))))"
    by (simp_all add: tc_ok_def recv_ok_def)
  then have "bs_bytes_read (tc_inbound_stream (ep_conn y)) \<le> length (ep_written x)"
    using tracks_le bs_okD(4)[OF sr_invD(1)[OF sr_ok_inv]]
    by (fastforce simp: tc_inbound_stream_def tr_stream_out_def)
  then show ?thesis
    using assms tc_ok_mono[OF ok, of T]
    by (auto simp: linked_def list_all_iff intro: conn_hs_mono carries_mono)
qed

lemma pair_inv_step:
  assumes "pair_inv x y" "ep_written x' = ep_written x @ T" "ep_isn x' = ep_isn x" "ep_heard x \<longrightarrow> ep_heard x'"
    and "linked x' y"
  shows "pair_inv x' y"
  using assms linked_other[of y x x' T] by (simp add: pair_inv_def)

text \<open>Steps that change only the connection.\<close>

lemma linked_conn:
  assumes "linked x y" "tc_ok (ep_written x) (ep_written y) (ep_isn y) c" "conn_hs (ep_heard y) c"
    and "sn_isn (tc_sender c) = ep_isn x" "ep_heard x \<longrightarrow> tr_syn (tc_receiver c)"
    and "bs_bytes_read (tc_inbound_stream c) = bs_bytes_read (tc_inbound_stream (ep_conn x))"
  shows "linked (x\<lparr>ep_conn := c\<rparr>) y"
  using assms by (auto simp: linked_def list_all_iff intro: carries_mono)

lemma tc_op_isn [simp]:
  "sn_isn (tc_sender (tc_connect c)) = sn_isn (tc_sender c)"
  "sn_isn (tc_sender (tc_end_input_stream c)) = sn_isn (tc_sender c)"
  "sn_isn (tc_sender (tc_tick ms c)) = sn_isn (tc_sender c)"
  "sn_isn (tc_sender (tc_destroy c)) = sn_isn (tc_sender c)"
  "sn_isn (tc_sender (fst (tc_write d c))) = sn_isn (tc_sender c)"
  by (simp_all add: tc_connect_def tc_end_input_stream_def tc_tick_def tc_destroy_def tc_write_def
      tc_send_rst_empty_segment_def Let_def split_beta)

lemma tc_op_receiver:
  "tc_receiver (tc_connect c) = tc_receiver c" "tc_receiver (tc_end_input_stream c) = tc_receiver c"
  "tc_receiver (fst (tc_write d c)) = tc_receiver c"
  "tr_syn (tc_receiver (tc_tick ms c)) = tr_syn (tc_receiver c)"
  "tr_syn (tc_receiver (tc_destroy c)) = tr_syn (tc_receiver c)"
  "bs_bytes_read (tc_inbound_stream (tc_tick ms c)) = bs_bytes_read (tc_inbound_stream c)"
  "bs_bytes_read (tc_inbound_stream (tc_destroy c)) = bs_bytes_read (tc_inbound_stream c)"
  by (simp_all add: tc_connect_def tc_end_input_stream_def tc_tick_def tc_destroy_def tc_write_def
      tc_send_rst_empty_segment_def tc_inbound_stream_def tr_stream_out_def Let_def split_beta)
    (simp_all add: tr_set_error_def)

lemma pair_inv_conn:
  assumes "pair_inv x y" "tc_ok (ep_written x) (ep_written y) (ep_isn y) c" "conn_hs (ep_heard y) c"
    and "sn_isn (tc_sender c) = ep_isn x" "ep_heard x \<longrightarrow> tr_syn (tc_receiver c)"
    and "bs_bytes_read (tc_inbound_stream c) = bs_bytes_read (tc_inbound_stream (ep_conn x))"
  shows "pair_inv (x\<lparr>ep_conn := c\<rparr>) y"
  using assms by (intro pair_inv_step[OF assms(1), where T = "[]"] linked_conn) (simp_all add: pair_inv_def)

lemma pair_inv_read:
  assumes "pair_inv x y"
  shows "pair_inv (x\<lparr>ep_conn := fst (tc_read n (ep_conn x)), ep_read := ep_read x @ snd (tc_read n (ep_conn x))\<rparr>) y"
proof -
  let ?c = "ep_conn x"
  have x: "linked x y" using assms by (simp add: pair_inv_def)
  then have "sr_ok (tr_reassembler (tc_receiver ?c))" "bs.tracks (ep_written y) (sr_output (tr_reassembler (tc_receiver ?c)))"
    by (simp_all add: linked_def tc_ok_def recv_ok_def)
  note t = sr_take_ok[OF this, of n]
  have "tc_ok (ep_written x) (ep_written y) (ep_isn y) (fst (tc_read n ?c))"
    using x t(1,2) by (simp add: linked_def tc_ok_def recv_ok_def tc_read_def split_beta tc_inbound_stream_def tr_stream_out_def)
  moreover have "conn_hs (ep_heard y) (fst (tc_read n ?c))" using x conn_hs_ops(4) by (simp add: linked_def)
  moreover have "ep_read x @ snd (tc_read n ?c)
      = take (bs_bytes_read (tc_inbound_stream (fst (tc_read n ?c)))) (ep_written y)"
    using x t(3) by (simp add: linked_def tc_read_def split_beta tc_inbound_stream_def tr_stream_out_def)
  moreover have keep: "sn_isn (tc_sender (fst (tc_read n ?c))) = ep_isn x" "tr_syn (tc_receiver (fst (tc_read n ?c))) = ep_heard x"
    by (simp_all add: tc_read_def split_beta)
  ultimately have "linked (x\<lparr>ep_conn := fst (tc_read n ?c), ep_read := ep_read x @ snd (tc_read n ?c)\<rparr>) y"
    using x by (simp add: linked_def)
  then show ?thesis by (intro pair_inv_step[OF assms, where T = "[]"]) (simp_all add: keep)
qed

lemma pair_inv_write:
  assumes "pair_inv x y" "\<not> bs_input_ended (tc_stream_in (ep_conn x))" "length (ep_written x) + length d < 2147483648"
  shows "pair_inv (x\<lparr>ep_conn := fst (tc_write d (ep_conn x)),
    ep_written := ep_written x @ take (snd (tc_write d (ep_conn x))) d\<rparr>) y"
proof -
  let ?c = "ep_conn x" and ?T = "take (snd (tc_write d (ep_conn x))) d"
  have x: "linked x y" using assms by (simp add: pair_inv_def)
  have "tc_ok (ep_written x @ ?T) (ep_written y) (ep_isn y) (fst (tc_write d ?c))"
    using x assms(2,3) by (intro tc_ok_write) (simp_all add: linked_def)
  moreover have "conn_hs (ep_heard y) (fst (tc_write d ?c))" using x conn_hs_ops(3) by (simp add: linked_def)
  moreover have "list_all (segment_of (ep_written x @ ?T) (ep_isn x)) (ep_wire x)"
    using x segment_of_mono by (auto simp: linked_def list_all_iff)
  moreover have "length (ep_written x @ ?T) < 2147483648" using assms(3) by simp
  ultimately have "linked (x\<lparr>ep_conn := fst (tc_write d ?c), ep_written := ep_written x @ ?T\<rparr>) y"
    using x tc_op_receiver(3)[of d ?c] by (simp add: linked_def tc_inbound_stream_def)
  then show ?thesis
    by (intro pair_inv_step[OF assms(1), where T = ?T]) (simp_all add: tc_op_receiver)
qed

lemma pair_inv_send:
  assumes "pair_inv x y" "tc_segments_out (ep_conn x) = seg # rest"
  shows "pair_inv (x\<lparr>ep_conn := (ep_conn x)\<lparr>tc_segments_out := rest\<rparr>, ep_wire := ep_wire x @ [seg]\<rparr>) y"
proof -
  have "linked (x\<lparr>ep_conn := (ep_conn x)\<lparr>tc_segments_out := rest\<rparr>, ep_wire := ep_wire x @ [seg]\<rparr>) y"
    using assms by (simp add: pair_inv_def linked_def tc_ok_def conn_hs_def tc_inbound_stream_def)
  then show ?thesis by (intro pair_inv_step[OF assms(1), where T = "[]"]) simp_all
qed

lemma pair_inv_own:
  assumes inv: "pair_inv x y" and "ep_step x x'"
  shows "pair_inv x' y"
proof -
  have ok: "tc_ok (ep_written x) (ep_written y) (ep_isn y) (ep_conn x)" "conn_hs (ep_heard y) (ep_conn x)"
    using inv by (simp_all add: pair_inv_def linked_def)
  note conn = pair_inv_conn[OF inv]
  from assms(2) show ?thesis
  proof (cases rule: ep_step.cases)
    case Connect
    then show ?thesis using conn[OF tc_ok_connect[OF ok(1)] conn_hs_ops(1)[OF ok(2)]]
      by (simp add: tc_op_receiver tc_inbound_stream_def)
  next
    case (Write data c n)
    then show ?thesis using pair_inv_write[OF inv Write(2,3)] by simp
  next
    case End
    then show ?thesis using conn[OF tc_ok_end_input[OF ok(1)] conn_hs_ops(2)[OF ok(2)]]
      by (simp add: tc_op_receiver tc_inbound_stream_def)
  next
    case (Tick ms)
    then show ?thesis using conn[OF tc_ok_tick[OF ok(1)] conn_hs_tick[OF ok(2,1)]] by (simp add: tc_op_receiver)
  next
    case (Read n c data)
    then show ?thesis using pair_inv_read[OF inv, of n] by simp
  next
    case (Send seg rest)
    then show ?thesis using pair_inv_send[OF inv] by simp
  next
    case Destroy
    then show ?thesis using conn[OF tc_ok_destroy[OF ok(1)] conn_hs_destroy[OF ok(2,1)]] by (simp add: tc_op_receiver)
  qed
qed

lemma pair_inv_deliver:
  assumes inv: "pair_inv x y" and seg: "seg \<in> set (ep_wire y)"
  shows "\<exists>x'. ep_deliver seg x = Some x' \<and> pair_inv x' y"
proof -
  have ok: "tc_ok (ep_written x) (ep_written y) (ep_isn y) (ep_conn x)" "conn_hs (ep_heard y) (ep_conn x)"
    "segment_of (ep_written y) (ep_isn y) seg" "length (ep_written y) < 2147483648"
    "carries (ep_heard y) (ep_heard x) seg"
    using inv seg by (auto simp: pair_inv_def linked_def list_all_iff)
  have "th_rst (ts_header seg) \<or> th_ack (ts_header seg) \<or> th_syn (ts_header seg) \<or> ep_heard x"
    using ok(5) by (auto simp: carries_def)
  then obtain c where c: "tc_segment_received seg (ep_conn x) = Inr c"
    "tc_ok (ep_written x) (ep_written y) (ep_isn y) c"
    "bs_bytes_read (tc_inbound_stream c) = bs_bytes_read (tc_inbound_stream (ep_conn x))"
    "sn_isn (tc_sender c) = ep_isn x"
    using tc_segment_received_ok[OF ok(1,3,4)] by metis
  note hs = conn_hs_received[OF ok(2,5) c(1)]
  have "pair_inv (x\<lparr>ep_conn := c\<rparr>) y" using c hs by (intro pair_inv_conn[OF inv]) simp_all
  then show ?thesis using c(1) by (simp add: ep_deliver_def)
qed

interpretation tcp_pair: two_party ep_step ep_wire ep_deliver pair_inv
proof unfold_locales
  fix x y x' :: endpoint and m
  show "pair_inv x y \<Longrightarrow> ep_step x x' \<Longrightarrow> pair_inv x' y" by (rule pair_inv_own)
  show "pair_inv x y \<Longrightarrow> m \<in> set (ep_wire y) \<Longrightarrow> \<exists>x'. ep_deliver m x = Some x' \<and> pair_inv x' y"
    by (rule pair_inv_deliver)
  show "pair_inv x y \<Longrightarrow> pair_inv y x" by (simp add: pair_inv_def)
qed

lemma pair_inv_new:
  assumes "cfg_send_capacity cfga < two64" "cfg_recv_capacity cfga < two64"
    and "cfg_send_capacity cfgb < two64" "cfg_recv_capacity cfgb < two64"
  shows "pair_inv (ep_new ra cfga) (ep_new rb cfgb)"
proof -
  have "linked (ep_new r cfg) (ep_new r' cfg')"
    if "cfg_send_capacity cfg < two64" "cfg_recv_capacity cfg < two64" for r r' cfg cfg'
    using that sn_ok_new recv_ok_new
    by (simp add: linked_def ep_new_def tc_new_def tc_ok_def conn_hs_def) (simp add: sender_hs_def sn_new_def)
  then show ?thesis using assms by (simp add: pair_inv_def)
qed

text \<open>What the invariant says about the delivered bytes.\<close>

lemma pair_inv_delivered:
  assumes "pair_inv x y"
  shows "\<exists>n \<le> length (ep_written y). ep_read x @ bs_buffer (tc_inbound_stream (ep_conn x)) = take n (ep_written y)"
proof -
  let ?a = "tr_reassembler (tc_receiver (ep_conn x))" and ?S = "ep_written y"
  have ok: "sr_ok ?a" "bs.tracks ?S (sr_output ?a)" "ep_read x = take (bs_bytes_read (sr_output ?a)) ?S"
    using assms by (simp_all add: pair_inv_def linked_def tc_ok_def recv_ok_def tc_inbound_stream_def tr_stream_out_def)
  note inv = sr_invD[OF sr_ok_inv[OF ok(1)]]
  have "ep_read x @ bs_buffer (sr_output ?a) = take (bs_bytes_written (sr_output ?a)) ?S"
    using ok(2,3) bs_okD(4)[OF inv(1)]
      span_append[of 0 "bs_bytes_read (sr_output ?a)" "bs_bytes_written (sr_output ?a)" ?S]
    by (simp add: bs.tracks_def span_0)
  then show ?thesis using tracks_le[OF ok(2)] by (auto simp: tc_inbound_stream_def tr_stream_out_def)
qed

end
