(* ===== verification/TCP_State.thy ===== *)
theory TCP_State
  imports TCP_Connection
begin

text \<open>
  The summary of a connection as one of the official TCP states (\<^verbatim>\<open>tcp_helpers/tcp_state.hh\<close> and
  \<^verbatim>\<open>.cc\<close>). The strings of the summaries are kept as the code has them; \<open>ts_name\<close> prints them. The
  lemmas show which states the operations of a connection lead to, up to the three-way handshake.
\<close>

section \<open>Model\<close>

definition RECEIVER_ERROR :: string where "RECEIVER_ERROR = ''error (connection was reset)''"
definition RECEIVER_LISTEN :: string where "RECEIVER_LISTEN = ''waiting for SYN: ackno is empty''"
definition RECEIVER_SYN_RECV :: string where
  "RECEIVER_SYN_RECV = ''SYN received (ackno exists), and input to stream hasn't ended''"
definition RECEIVER_FIN_RECV :: string where "RECEIVER_FIN_RECV = ''input to stream has ended''"

definition SENDER_ERROR :: string where "SENDER_ERROR = ''error (connection was reset)''"
definition SENDER_CLOSED :: string where "SENDER_CLOSED = ''waiting for stream to begin (no SYN sent)''"
definition SENDER_SYN_SENT :: string where "SENDER_SYN_SENT = ''stream started but nothing acknowledged''"
definition SENDER_SYN_ACKED :: string where "SENDER_SYN_ACKED = ''stream ongoing''"
definition SENDER_FIN_SENT :: string where
  "SENDER_FIN_SENT = ''stream finished (FIN sent) but not fully acknowledged''"
definition SENDER_FIN_ACKED :: string where
  "SENDER_FIN_ACKED = ''stream finished and fully acknowledged''"

lemmas summary_strings = RECEIVER_ERROR_def RECEIVER_LISTEN_def RECEIVER_SYN_RECV_def RECEIVER_FIN_RECV_def
  SENDER_ERROR_def SENDER_CLOSED_def SENDER_SYN_SENT_def SENDER_SYN_ACKED_def SENDER_FIN_SENT_def
  SENDER_FIN_ACKED_def

datatype State = LISTEN | SYN_RCVD | SYN_SENT | ESTABLISHED | CLOSE_WAIT | LAST_ACK | FIN_WAIT_1
  | FIN_WAIT_2 | CLOSING | TIME_WAIT | CLOSED | RESET

record TCPState =
  st_sender :: string
  st_receiver :: string
  st_active :: bool
  st_linger_after_streams_finish :: bool

definition st_default :: TCPState where
  "st_default = \<lparr>st_sender = [], st_receiver = [], st_active = True, st_linger_after_streams_finish = True\<rparr>"

definition st_equal :: "TCPState \<Rightarrow> TCPState \<Rightarrow> bool" where
  "st_equal s other \<longleftrightarrow> st_active s = st_active other \<and>
     st_linger_after_streams_finish s = st_linger_after_streams_finish other \<and>
     st_sender s = st_sender other \<and> st_receiver s = st_receiver other"

definition st_bool_string :: "bool \<Rightarrow> string" where
  "st_bool_string b = (if b then ''1'' else ''0'')"

definition st_name :: "TCPState \<Rightarrow> string" where
  "st_name s = ''sender=`'' @ st_sender s @ ''`, receiver=`'' @ st_receiver s @ ''`, active='' @
     st_bool_string (st_active s) @ '', linger_after_streams_finish='' @
     st_bool_string (st_linger_after_streams_finish s)"

fun st_of_state :: "State \<Rightarrow> TCPState" where
  "st_of_state LISTEN = st_default\<lparr>st_receiver := RECEIVER_LISTEN, st_sender := SENDER_CLOSED\<rparr>"
| "st_of_state SYN_RCVD = st_default\<lparr>st_receiver := RECEIVER_SYN_RECV, st_sender := SENDER_SYN_SENT\<rparr>"
| "st_of_state SYN_SENT = st_default\<lparr>st_receiver := RECEIVER_LISTEN, st_sender := SENDER_SYN_SENT\<rparr>"
| "st_of_state ESTABLISHED = st_default\<lparr>st_receiver := RECEIVER_SYN_RECV, st_sender := SENDER_SYN_ACKED\<rparr>"
| "st_of_state CLOSE_WAIT = st_default\<lparr>st_receiver := RECEIVER_FIN_RECV, st_sender := SENDER_SYN_ACKED,
     st_linger_after_streams_finish := False\<rparr>"
| "st_of_state LAST_ACK = st_default\<lparr>st_receiver := RECEIVER_FIN_RECV, st_sender := SENDER_FIN_SENT,
     st_linger_after_streams_finish := False\<rparr>"
| "st_of_state CLOSING = st_default\<lparr>st_receiver := RECEIVER_FIN_RECV, st_sender := SENDER_FIN_SENT\<rparr>"
| "st_of_state FIN_WAIT_1 = st_default\<lparr>st_receiver := RECEIVER_SYN_RECV, st_sender := SENDER_FIN_SENT\<rparr>"
| "st_of_state FIN_WAIT_2 = st_default\<lparr>st_receiver := RECEIVER_SYN_RECV, st_sender := SENDER_FIN_ACKED\<rparr>"
| "st_of_state TIME_WAIT = st_default\<lparr>st_receiver := RECEIVER_FIN_RECV, st_sender := SENDER_FIN_ACKED\<rparr>"
| "st_of_state RESET = st_default\<lparr>st_receiver := RECEIVER_ERROR, st_sender := SENDER_ERROR,
     st_linger_after_streams_finish := False, st_active := False\<rparr>"
| "st_of_state CLOSED = st_default\<lparr>st_receiver := RECEIVER_FIN_RECV, st_sender := SENDER_FIN_ACKED,
     st_linger_after_streams_finish := False, st_active := False\<rparr>"

definition st_receiver_summary :: "TCPReceiver \<Rightarrow> string" where
  "st_receiver_summary receiver =
     (if bs_error (tr_stream_out receiver) then RECEIVER_ERROR
      else if tr_ackno receiver = None then RECEIVER_LISTEN
      else if bs_input_ended (tr_stream_out receiver) then RECEIVER_FIN_RECV
      else RECEIVER_SYN_RECV)"

definition st_sender_summary :: "TCPSender \<Rightarrow> string" where
  "st_sender_summary sender =
     (if bs_error (sn_stream sender) then SENDER_ERROR
      else if sn_next_seqno sender = 0 then SENDER_CLOSED
      else if sn_next_seqno sender = sn_bytes_in_flight sender then SENDER_SYN_SENT
      else if \<not> bs_eof (sn_stream sender) then SENDER_SYN_ACKED
      else if sn_next_seqno sender < add64 (bs_bytes_written (sn_stream sender)) 2 then SENDER_SYN_ACKED
      else if sn_bytes_in_flight sender \<noteq> 0 then SENDER_FIN_SENT
      else SENDER_FIN_ACKED)"

definition st_make :: "TCPSender \<Rightarrow> TCPReceiver \<Rightarrow> bool \<Rightarrow> bool \<Rightarrow> TCPState" where
  "st_make sender receiver active linger =
     \<lparr>st_sender = st_sender_summary sender, st_receiver = st_receiver_summary receiver,
      st_active = active, st_linger_after_streams_finish = (if active then linger else False)\<rparr>"

definition tc_state :: "TCPConnection \<Rightarrow> TCPState" where
  "tc_state c = st_make (tc_sender c) (tc_receiver c) (tc_active c) (tc_linger_after_streams_finish c)"

section \<open>The official states\<close>

lemma st_equal_iff: "st_equal s t \<longleftrightarrow> s = t"
  by (cases s; cases t) (auto simp: st_equal_def)

text \<open>No two official states have the same summary: comparing summaries tells the states apart.\<close>

lemma st_of_state_inject: "st_of_state a = st_of_state b \<longleftrightarrow> a = b"
  by (cases a; cases b) (simp_all add: st_default_def summary_strings)

text \<open>When does a connection show a given state? The summaries, read backwards.\<close>

lemma receiver_summary_iff:
  "st_receiver_summary r = RECEIVER_ERROR \<longleftrightarrow> bs_error (tr_stream_out r)"
  "st_receiver_summary r = RECEIVER_LISTEN \<longleftrightarrow> \<not> bs_error (tr_stream_out r) \<and> \<not> tr_syn r"
  "st_receiver_summary r = RECEIVER_FIN_RECV \<longleftrightarrow>
     \<not> bs_error (tr_stream_out r) \<and> tr_syn r \<and> bs_input_ended (tr_stream_out r)"
  "st_receiver_summary r = RECEIVER_SYN_RECV \<longleftrightarrow>
     \<not> bs_error (tr_stream_out r) \<and> tr_syn r \<and> \<not> bs_input_ended (tr_stream_out r)"
  by (auto simp: st_receiver_summary_def tr_ackno_def Let_def summary_strings)

section \<open>Opening a connection\<close>

text \<open>A sender with nothing buffered, before its SYN, after it, and after its acknowledgement.\<close>

definition quiet :: "TCPSender \<Rightarrow> bool" where
  "quiet s \<longleftrightarrow> bs_buffer (sn_stream s) = [] \<and> bs_bytes_read (sn_stream s) = 0 \<and>
     \<not> bs_input_ended (sn_stream s) \<and> \<not> bs_error (sn_stream s) \<and> sn_segments_out s = [] \<and>
     sn_window_size s < two64"

definition fresh :: "TCPSender \<Rightarrow> bool" where
  "fresh s \<longleftrightarrow> quiet s \<and> sn_next_seqno s = 0 \<and> sn_abs_ackno s = 0 \<and> sn_in_flight s = 0 \<and>
     sn_outstanding_segments s = []"

definition half_open :: "TCPSender \<Rightarrow> bool" where
  "half_open s \<longleftrightarrow> quiet s \<and> sn_next_seqno s = 1 \<and> sn_abs_ackno s = 0 \<and>
     sn_outstanding_segments s = [(0, syn_segment (sn_isn s))]"

definition full_open :: "TCPSender \<Rightarrow> bool" where
  "full_open s \<longleftrightarrow> quiet s \<and> sn_next_seqno s = 1 \<and> sn_abs_ackno s = 1 \<and> sn_outstanding_segments s = []"

lemma syn_length [simp]: "ts_length_in_sequence_space (syn_segment isn) = 1"
  by (simp add: syn_segment_def ts_length_in_sequence_space_def th_default_def)

lemma fresh_new: "fresh (sn_new rnd cap rto fixed)"
  by (simp add: fresh_def quiet_def sn_new_def bs_new_def)

lemma fresh_fill:
  assumes "fresh s"
  shows "sn_segments_out (sn_fill_window s) = [syn_segment (sn_isn s)]"
    "half_open ((sn_fill_window s)\<lparr>sn_segments_out := []\<rparr>)"
proof -
  have f: "sn_fill_window s = s\<lparr>sn_segments_out := sn_segments_out s @ [syn_segment (sn_isn s)],
    sn_outstanding_segments := sn_outstanding_segments s @ [(0, syn_segment (sn_isn s))],
    sn_in_flight := 1, sn_next_seqno := 1,
    sn_timer := (if \<not> tm_active (sn_timer s)
                 then tm_start (sn_retransmission_timeout s mod two32) (sn_timer s) else sn_timer s)\<rparr>"
    using assms by (intro sn_fill_syn) (simp_all add: fresh_def quiet_def)
  show "sn_segments_out (sn_fill_window s) = [syn_segment (sn_isn s)]"
    "half_open ((sn_fill_window s)\<lparr>sn_segments_out := []\<rparr>)"
    unfolding f using assms by (simp_all add: fresh_def half_open_def quiet_def)
qed

lemma half_open_acked:
  assumes "half_open s"
  shows "full_open (sn_ack_received (wrap 1 (sn_isn s)) w s)"
proof -
  have "unwrap (wrap 1 (sn_isn s)) (sn_isn s) 1 = 1" by (rule unwrap_wrap_near) simp_all
  moreover have "unat w < two64"
    using unsigned_less[of w, where ?'a = nat] by simp
  ultimately show ?thesis
    using assms by (simp add: half_open_def full_open_def quiet_def sn_ack_received_def Let_def no_wrap sn_fill_idle)
qed

lemma half_open_summary:
  "fresh s \<Longrightarrow> st_sender_summary s = SENDER_CLOSED"
  "half_open s \<Longrightarrow> st_sender_summary s = SENDER_SYN_SENT"
  "full_open s \<Longrightarrow> st_sender_summary s = SENDER_SYN_ACKED"
  by (simp_all add: fresh_def half_open_def full_open_def quiet_def st_sender_summary_def
      sn_bytes_in_flight_def bs_eof_def no_wrap)

lemma fresh_window: "fresh s \<Longrightarrow> fresh (s\<lparr>sn_window_size := unat (w :: u16)\<rparr>)"
  using unsigned_less[of w, where ?'a = nat] by (simp add: fresh_def quiet_def)

lemma fresh_reply:
  assumes "fresh s" "0 < ts_length_in_sequence_space seg"
  shows "tc_reply seg r (sn_ack_received a w s) = sn_fill_window (s\<lparr>sn_window_size := unat w\<rparr>)"
proof (cases "unwrap a (sn_isn s) (add64 (sn_abs_ackno s) 1) = 0")
  case True
  have eq: "s\<lparr>sn_window_size := unat w, sn_abs_ackno := 0, sn_outstanding_segments := []\<rparr>
      = s\<lparr>sn_window_size := unat w\<rparr>"
    using assms(1) by (simp add: fresh_def)
  have "sn_ack_received a w s = sn_fill_window (s\<lparr>sn_window_size := unat w\<rparr>)"
    using True arg_cong[OF eq, of sn_fill_window] assms(1) by (simp add: sn_ack_received_def fresh_def)
  then show ?thesis
    using assms fresh_fill(1)[of "s\<lparr>sn_window_size := unat w\<rparr>"]
    by (simp add: tc_reply_def Let_def fresh_window split: option.split)
next
  case False
  have "sn_ack_received a w s = s\<lparr>sn_window_size := unat w\<rparr>"
    using False assms(1) by (simp add: sn_ack_received_def Let_def fresh_def)
  then show ?thesis
    using assms fresh_fill(1)[of "s\<lparr>sn_window_size := unat w\<rparr>"]
    by (simp add: tc_reply_def Let_def fresh_window split: option.split) (simp add: fresh_def quiet_def)
qed

definition synced :: "nat \<Rightarrow> WrappingInt32 \<Rightarrow> TCPReceiver" where
  "synced cap isn = (tr_new cap)\<lparr>tr_isn := isn, tr_syn := True\<rparr>"

lemma synced_simps [simp]:
  "tr_ackno (synced cap isn) = Some (wrap 1 isn)" "tr_syn (synced cap isn)"
  "st_receiver_summary (synced cap isn) = RECEIVER_SYN_RECV"
  "\<not> bs_input_ended (tr_stream_out (synced cap isn))"
  by (simp_all add: synced_def tr_new_def tr_ackno_def tr_stream_out_def sr_new_def bs_new_def Let_def no_wrap
      st_receiver_summary_def)

lemma listen_summary: "st_receiver_summary (tr_new cap) = RECEIVER_LISTEN"
  by (simp add: st_receiver_summary_def tr_new_def tr_ackno_def tr_stream_out_def sr_new_def bs_new_def)

text \<open>The first, the second and the third message of the handshake, at the side that gets it.\<close>

lemma syn_received:
  assumes "fresh (tc_sender c)" "tc_receiver c = tr_new cap" "tc_segments_out c = []"
  obtains c' where "tc_segment_received (tc_fill_header (tr_new n) (syn_segment isn)) c = Inr c'"
    "tc_receiver c' = synced cap isn" "half_open (tc_sender c')" "sn_isn (tc_sender c') = sn_isn (tc_sender c)"
    "tc_segments_out c' = [tc_fill_header (synced cap isn) (syn_segment (sn_isn (tc_sender c)))]"
    "tc_active c' = tc_active c" "tc_linger_after_streams_finish c' = tc_linger_after_streams_finish c"
proof -
  let ?seg = "tc_fill_header (tr_new n) (syn_segment isn)"
  let ?s = "(tc_sender c)\<lparr>sn_window_size := unat (th_win (ts_header ?seg))\<rparr>"
  have seg: "\<not> th_rst (ts_header ?seg)" "\<not> th_ack (ts_header ?seg)" "ts_length_in_sequence_space ?seg = 1"
    "th_syn (ts_header ?seg)" "\<not> th_fin (ts_header ?seg)" "ts_payload ?seg = []" "th_seqno (ts_header ?seg) = isn"
    by (simp_all add: syn_segment_def th_default_def ts_length_in_sequence_space_def tr_new_def)
  have r: "tr_segment_received (tc_receiver c) ?seg = Some (synced cap isn)"
    unfolding assms(2) using tr_syn_received(1)[OF seg(4-6)] seg(7) by (simp add: synced_def[of cap])
  have a: "(if th_ack (ts_header ?seg) then Some (th_ackno (ts_header ?seg)) else tr_ackno (synced cap isn))
      = Some (wrap 1 isn)"
    using seg(2) by simp
  have s: "fresh ?s" using assms(1) by (rule fresh_window)
  have t: "tc_reply ?seg (synced cap isn) (sn_ack_received (wrap 1 isn) (th_win (ts_header ?seg)) (tc_sender c))
      = sn_fill_window ?s"
    using seg(3) by (intro fresh_reply assms(1)) simp
  obtain c' where c': "tc_segment_received ?seg c = Inr c'" "tc_receiver c' = synced cap isn"
    "tc_sender c' = (sn_fill_window ?s)\<lparr>sn_segments_out := []\<rparr>" "tc_active c' = tc_active c"
    "tc_segments_out c' = tc_segments_out c @ map (tc_fill_header (synced cap isn)) (sn_segments_out (sn_fill_window ?s))"
    "tc_linger_after_streams_finish c' \<longleftrightarrow> tc_linger_after_streams_finish c \<and>
       \<not> (bs_input_ended (tr_stream_out (synced cap isn)) \<and> \<not> bs_input_ended (sn_stream (sn_fill_window ?s)))"
    using tc_segment_received_Inr[OF seg(1) r a t] by blast
  show thesis
    by (rule that[of c']) (use c' fresh_fill[OF s] assms(3) in simp_all)
qed

lemma synack_received:
  assumes "half_open (tc_sender c)" "tc_receiver c = tr_new cap" "tc_segments_out c = []"
  obtains c' where "tc_segment_received (tc_fill_header (synced n (sn_isn (tc_sender c))) (syn_segment isn)) c = Inr c'"
    "tc_receiver c' = synced cap isn" "full_open (tc_sender c')" "sn_isn (tc_sender c') = sn_isn (tc_sender c)"
    "tc_segments_out c' = [tc_fill_header (synced cap isn)
       (ts_default\<lparr>ts_header := th_default\<lparr>th_seqno := wrap 1 (sn_isn (tc_sender c))\<rparr>\<rparr>)]"
    "tc_active c' = tc_active c" "tc_linger_after_streams_finish c' = tc_linger_after_streams_finish c"
proof -
  let ?isn = "sn_isn (tc_sender c)"
  let ?seg = "tc_fill_header (synced n ?isn) (syn_segment isn)"
  let ?s = "sn_ack_received (wrap 1 ?isn) (th_win (ts_header ?seg)) (tc_sender c)"
  have seg: "\<not> th_rst (ts_header ?seg)" "th_ack (ts_header ?seg)" "ts_length_in_sequence_space ?seg = 1"
    "th_syn (ts_header ?seg)" "\<not> th_fin (ts_header ?seg)" "ts_payload ?seg = []" "th_seqno (ts_header ?seg) = isn"
    "th_ackno (ts_header ?seg) = wrap 1 ?isn"
    by (simp_all add: syn_segment_def th_default_def ts_length_in_sequence_space_def)
      (simp add: tc_fill_header_def Let_def)
  have r: "tr_segment_received (tc_receiver c) ?seg = Some (synced cap isn)"
    unfolding assms(2) using tr_syn_received(1)[OF seg(4-6)] seg(7) by (simp add: synced_def[of cap])
  have a: "(if th_ack (ts_header ?seg) then Some (th_ackno (ts_header ?seg)) else tr_ackno (synced cap isn))
      = Some (wrap 1 ?isn)"
    using seg(2,8) by simp
  have s: "full_open ?s" using assms(1) by (rule half_open_acked)
  then have t: "tc_reply ?seg (synced cap isn) ?s = sn_send_empty_segment ?s"
    using seg(3) by (simp add: tc_reply_def full_open_def quiet_def sn_fill_idle)
  have e: "full_open ((sn_send_empty_segment ?s)\<lparr>sn_segments_out := []\<rparr>)"
    "sn_segments_out (sn_send_empty_segment ?s)
      = [ts_default\<lparr>ts_header := th_default\<lparr>th_seqno := wrap 1 ?isn\<rparr>\<rparr>]"
    using s by (simp_all add: full_open_def quiet_def sn_send_empty_segment_def)
  obtain c' where c': "tc_segment_received ?seg c = Inr c'" "tc_receiver c' = synced cap isn"
    "tc_sender c' = (sn_send_empty_segment ?s)\<lparr>sn_segments_out := []\<rparr>" "tc_active c' = tc_active c"
    "tc_segments_out c' = tc_segments_out c @ map (tc_fill_header (synced cap isn)) (sn_segments_out (sn_send_empty_segment ?s))"
    "tc_linger_after_streams_finish c' \<longleftrightarrow> tc_linger_after_streams_finish c \<and>
       \<not> (bs_input_ended (tr_stream_out (synced cap isn)) \<and> \<not> bs_input_ended (sn_stream (sn_send_empty_segment ?s)))"
    using tc_segment_received_Inr[OF seg(1) r a t] by blast
  show thesis
    by (rule that[of c']) (use c' e assms(3) in simp_all)
qed

lemma ack_received:
  assumes "half_open (tc_sender c)" "tc_receiver c = synced cap isn" "tc_segments_out c = []"
  obtains c' where "tc_segment_received (tc_fill_header (synced n (sn_isn (tc_sender c)))
      (ts_default\<lparr>ts_header := th_default\<lparr>th_seqno := wrap 1 isn\<rparr>\<rparr>)) c = Inr c'"
    "tc_receiver c' = synced cap isn" "full_open (tc_sender c')" "tc_segments_out c' = []"
    "tc_active c' = tc_active c" "tc_linger_after_streams_finish c' = tc_linger_after_streams_finish c"
proof -
  let ?isn = "sn_isn (tc_sender c)"
  let ?seg = "tc_fill_header (synced n ?isn) (ts_default\<lparr>ts_header := th_default\<lparr>th_seqno := wrap 1 isn\<rparr>\<rparr>)"
  let ?s = "sn_ack_received (wrap 1 ?isn) (th_win (ts_header ?seg)) (tc_sender c)"
  have seg: "\<not> th_rst (ts_header ?seg)" "th_ack (ts_header ?seg)" "ts_length_in_sequence_space ?seg = 0"
    "\<not> th_syn (ts_header ?seg)" "\<not> th_fin (ts_header ?seg)" "ts_payload ?seg = []"
    "th_seqno (ts_header ?seg) = wrap 1 isn" "th_ackno (ts_header ?seg) = wrap 1 ?isn"
    by (simp_all add: ts_default_def th_default_def ts_length_in_sequence_space_def)
      (simp add: tc_fill_header_def Let_def)
  have r: "tr_segment_received (tc_receiver c) ?seg = Some (synced cap isn)"
    unfolding assms(2) using seg(4-6)
    by (simp add: tr_segment_received_def tr_push_def tr_finish_def Let_def) (simp add: synced_def tr_new_def)
  have a: "(if th_ack (ts_header ?seg) then Some (th_ackno (ts_header ?seg)) else tr_ackno (synced cap isn))
      = Some (wrap 1 ?isn)"
    using seg(2,8) by simp
  have "wrap 1 isn \<noteq> wi_minus (wrap 1 isn) 1"
    by (cases isn) (simp add: wrap_def wi_plus_def wi_minus_def)
  moreover have s: "full_open ?s" using assms(1) by (rule half_open_acked)
  ultimately have t: "tc_reply ?seg (synced cap isn) ?s = ?s"
    using seg(3,7) by (simp add: tc_reply_def)
  have e: "full_open (?s\<lparr>sn_segments_out := []\<rparr>)" "sn_segments_out ?s = []"
    using s by (simp_all add: full_open_def quiet_def)
  obtain c' where c': "tc_segment_received ?seg c = Inr c'" "tc_receiver c' = synced cap isn"
    "tc_sender c' = (?s)\<lparr>sn_segments_out := []\<rparr>" "tc_active c' = tc_active c"
    "tc_segments_out c' = tc_segments_out c @ map (tc_fill_header (synced cap isn)) (sn_segments_out (?s))"
    "tc_linger_after_streams_finish c' \<longleftrightarrow> tc_linger_after_streams_finish c \<and>
       \<not> (bs_input_ended (tr_stream_out (synced cap isn)) \<and> \<not> bs_input_ended (sn_stream (?s)))"
    using tc_segment_received_Inr[OF seg(1) r a t] by blast
  show thesis
    by (rule that[of c']) (use c' e assms(3) in simp_all)
qed

lemma tc_new_fields:
  "fresh (tc_sender (tc_new r cfg))" "tc_receiver (tc_new r cfg) = tr_new (cfg_recv_capacity cfg)"
  "tc_segments_out (tc_new r cfg) = []" "tc_active (tc_new r cfg)" "tc_linger_after_streams_finish (tc_new r cfg)"
  by (simp_all add: tc_new_def fresh_new)

lemma tc_connect_new:
  "half_open (tc_sender (tc_connect (tc_new r cfg)))"
  "sn_isn (tc_sender (tc_connect (tc_new r cfg))) = sn_isn (tc_sender (tc_new r cfg))"
  "tc_receiver (tc_connect (tc_new r cfg)) = tr_new (cfg_recv_capacity cfg)"
  "tc_segments_out (tc_connect (tc_new r cfg))
     = [tc_fill_header (tr_new (cfg_recv_capacity cfg)) (syn_segment (sn_isn (tc_sender (tc_new r cfg))))]"
  "tc_active (tc_connect (tc_new r cfg))" "tc_linger_after_streams_finish (tc_connect (tc_new r cfg))"
  using tc_new_fields[of r cfg] fresh_fill[OF tc_new_fields(1), of r cfg] by (simp_all add: tc_connect_def)

section \<open>Properties\<close>

text \<open>The twelve official states have different summaries, so a comparison of summaries decides
  whether two official states are the same.\<close>

lemma official_states_distinct:
  "st_equal (st_of_state a) (st_of_state b) \<longleftrightarrow> a = b"
  by (simp add: st_equal_iff st_of_state_inject)

text \<open>C31: The three-way handshake. A new connection is in the state LISTEN, after \<open>connect\<close> in
  SYN\_SENT with one segment to send. The listening side answers it and is in SYN\_RCVD, the answer
  takes the first side to ESTABLISHED with one more segment, and that one takes the other side to
  ESTABLISHED with nothing left to send, whatever the configurations and the random initial
  sequence numbers are.\<close>

theorem three_way_handshake:
  "tc_state (tc_new rb cfgb) = st_of_state LISTEN \<and> tc_state (tc_connect (tc_new ra cfga)) = st_of_state SYN_SENT \<and>
   (\<exists>syn synack ack a b b'.
      tc_segments_out (tc_connect (tc_new ra cfga)) = [syn] \<and>
      tc_segment_received syn (tc_new rb cfgb) = Inr b \<and>
      tc_state b = st_of_state SYN_RCVD \<and> tc_segments_out b = [synack] \<and>
      tc_segment_received synack ((tc_connect (tc_new ra cfga))\<lparr>tc_segments_out := []\<rparr>) = Inr a \<and>
      tc_state a = st_of_state ESTABLISHED \<and> tc_segments_out a = [ack] \<and>
      tc_segment_received ack (b\<lparr>tc_segments_out := []\<rparr>) = Inr b' \<and>
      tc_state b' = st_of_state ESTABLISHED \<and> tc_segments_out b' = [])"
proof -
  let ?a = "tc_connect (tc_new ra cfga)" and ?b = "tc_new rb cfgb"
  define isna where "isna = sn_isn (tc_sender (tc_new ra cfga))"
  note new = tc_new_fields and con = tc_connect_new[of ra cfga, folded isna_def]
  obtain b where b: "tc_segment_received (tc_fill_header (tr_new (cfg_recv_capacity cfga)) (syn_segment isna)) ?b = Inr b"
    "tc_receiver b = synced (cfg_recv_capacity cfgb) isna" "half_open (tc_sender b)"
    "tc_segments_out b = [tc_fill_header (synced (cfg_recv_capacity cfgb) isna) (syn_segment (sn_isn (tc_sender ?b)))]"
    "tc_active b" "tc_linger_after_streams_finish b" "sn_isn (tc_sender b) = sn_isn (tc_sender ?b)"
    using syn_received[OF new(1-3)[of rb cfgb], of "cfg_recv_capacity cfga" isna] new(4,5)[of rb cfgb] by metis
  let ?a' = "?a\<lparr>tc_segments_out := []\<rparr>" and ?b' = "b\<lparr>tc_segments_out := []\<rparr>"
  let ?isnb = "sn_isn (tc_sender ?b)"
  obtain a where a: "tc_segment_received (tc_fill_header (synced (cfg_recv_capacity cfgb) isna) (syn_segment ?isnb)) ?a' = Inr a"
    "tc_receiver a = synced (cfg_recv_capacity cfga) ?isnb" "full_open (tc_sender a)"
    "tc_segments_out a = [tc_fill_header (synced (cfg_recv_capacity cfga) ?isnb)
       (ts_default\<lparr>ts_header := th_default\<lparr>th_seqno := wrap 1 isna\<rparr>\<rparr>)]"
    "tc_active a" "tc_linger_after_streams_finish a"
    using synack_received[of ?a' "cfg_recv_capacity cfga" "cfg_recv_capacity cfgb" ?isnb] con by auto
  obtain b' where b': "tc_segment_received (tc_fill_header (synced (cfg_recv_capacity cfga) ?isnb)
       (ts_default\<lparr>ts_header := th_default\<lparr>th_seqno := wrap 1 isna\<rparr>\<rparr>)) ?b' = Inr b'"
    "tc_receiver b' = synced (cfg_recv_capacity cfgb) isna" "full_open (tc_sender b')" "tc_segments_out b' = []"
    "tc_active b'" "tc_linger_after_streams_finish b'"
    using ack_received[of ?b' "cfg_recv_capacity cfgb" isna "cfg_recv_capacity cfga"] b by auto
  have st: "tc_state ?b = st_of_state LISTEN" "tc_state ?a = st_of_state SYN_SENT" "tc_state b = st_of_state SYN_RCVD"
    "tc_state a = st_of_state ESTABLISHED" "tc_state b' = st_of_state ESTABLISHED"
    using new[of rb cfgb] con a b b'
    by (simp_all add: tc_state_def st_make_def st_default_def half_open_summary listen_summary)
  then show ?thesis using con(4) a b b' by blast
qed

end
