(* ===== verification/TCP_Wire.thy ===== *)
theory TCP_Wire
  imports TCP_Network TCP_State
begin

text \<open>
  Two endpoints that exchange bytes instead of segments. What an endpoint puts on the wire is the
  serialized form of its segments (\<open>TCPSegment::serialize\<close>), and what arrives is parsed
  (\<open>TCPSegment::parse\<close>) before \<open>segment_received\<close> sees it, as the adapters do. Every segment of a
  connection has a well-formed header and a payload of bounded size, so that it can be serialized
  and is parsed back; with that the safety of the system of segments carries over to the system of
  bytes.
\<close>

section \<open>Well-formed segments\<close>

definition tidy :: "TCPSegment \<Rightarrow> bool" where
  "tidy seg \<longleftrightarrow> th_doff (ts_header seg) = 5 \<and> length (ts_payload seg) \<le> MAX_PAYLOAD_SIZE"

definition sender_tidy :: "TCPSender \<Rightarrow> bool" where
  "sender_tidy s \<longleftrightarrow> list_all tidy (sn_segments_out s) \<and> list_all (\<lambda>x. tidy (snd x)) (sn_outstanding_segments s)"

definition conn_tidy :: "TCPConnection \<Rightarrow> bool" where
  "conn_tidy c \<longleftrightarrow> sender_tidy (tc_sender c) \<and> list_all tidy (tc_segments_out c)"

definition ep_tidy :: "endpoint \<Rightarrow> bool" where
  "ep_tidy e \<longleftrightarrow> conn_tidy (ep_conn e) \<and> list_all tidy (ep_wire e)"

named_theorems tidy_ops

lemma tidy_make: "sn_make_segment s av syn = (seg, stream) \<Longrightarrow> tidy seg"
proof -
  assume m: "sn_make_segment s av syn = (seg, stream)"
  have "th_doff (ts_header seg) = 5" using m by (auto simp: sn_make_segment_def th_default_def Let_def split_beta split: if_splits)
  then show "tidy seg" by (simp add: tidy_def sn_make_segment_parts(2)[OF m])
qed

lemma sender_tidy_fields [simp]:
  "sender_tidy (s\<lparr>sn_stream := t\<rparr>) = sender_tidy s" "sender_tidy (s\<lparr>sn_window_size := w\<rparr>) = sender_tidy s"
  "sender_tidy (s\<lparr>sn_abs_ackno := a\<rparr>) = sender_tidy s" "sender_tidy (s\<lparr>sn_timer := u\<rparr>) = sender_tidy s"
  "sender_tidy (sn_set_error s) = sender_tidy s"
  by (simp_all add: sender_tidy_def sn_set_error_def)

lemma sender_tidy_fill [tidy_ops]: "sender_tidy s \<Longrightarrow> sender_tidy (sn_fill_window s)"
proof (rule sn_fill_window_invar[where P = sender_tidy])
  fix s s' assume t: "sender_tidy s" and st: "sn_fill_step s = (s', True)"
  show "sender_tidy s'" by (rule sn_fill_step_True[OF st]) (use t tidy_make in \<open>auto simp: sender_tidy_def\<close>)
qed

lemma sender_tidy_ack [tidy_ops]: "sender_tidy s \<Longrightarrow> sender_tidy (sn_ack_received a w s)"
proof -
  assume t: "sender_tidy s"
  have "sender_tidy (sn_ack_loop (sn_outstanding_segments s) u (s\<lparr>sn_window_size := v, sn_abs_ackno := u\<rparr>))" for u v
    using t by (simp add: sender_tidy_def sn_ack_loop_fields sn_ack_loop_all)
  then show ?thesis using t by (simp add: sn_ack_received_def Let_def sender_tidy_fill)
qed

lemma sender_tidy_tick [tidy_ops]: "sender_tidy s \<Longrightarrow> sender_tidy (sn_tick ms s)"
  by (auto simp: sender_tidy_def sn_tick_def Let_def tidy_def split: list.splits)

lemma sender_tidy_empty [tidy_ops]:
  "sender_tidy s \<Longrightarrow> sender_tidy (sn_send_empty_segment s)" "sender_tidy s \<Longrightarrow> sender_tidy (sn_send_empty_flags syn fin rst s)"
  by (simp_all add: sender_tidy_def sn_send_empty_segment_def sn_send_empty_flags_def Let_def tidy_def ts_default_def th_default_def)

lemma sender_tidy_reply [tidy_ops]: "sender_tidy s \<Longrightarrow> sender_tidy (tc_reply seg r s)"
  by (simp add: tc_reply_def Let_def tidy_ops split: option.split)

lemma tidy_fill_header: "tidy seg \<Longrightarrow> tidy (tc_fill_header r seg)"
  by (simp add: tc_fill_header_def tidy_def Let_def split: option.split)

lemma tidy_clear_loop: "list_all tidy queue \<Longrightarrow> list_all tidy out \<Longrightarrow> list_all tidy (tc_clear_loop r queue out)"
  by (induction r queue out rule: tc_clear_loop.induct) (simp_all add: tidy_fill_header)

lemma conn_tidy_clear [tidy_ops]: "conn_tidy c \<Longrightarrow> conn_tidy (tc_clear_sender_buffer c)"
  by (simp add: conn_tidy_def tc_clear_sender_buffer_def tidy_clear_loop sender_tidy_def)

lemma conn_tidy_fields [simp]:
  "conn_tidy (c\<lparr>tc_receiver := r\<rparr>) = conn_tidy c" "conn_tidy (c\<lparr>tc_time_last_recv := t\<rparr>) = conn_tidy c"
  "conn_tidy (c\<lparr>tc_linger_after_streams_finish := b\<rparr>) = conn_tidy c" "conn_tidy (c\<lparr>tc_active := b\<rparr>) = conn_tidy c"
  "conn_tidy (tc_kill_connection clean c) = conn_tidy c"
  by (simp_all add: conn_tidy_def tc_kill_connection_def Let_def)

lemma conn_tidy_sender: "conn_tidy c \<Longrightarrow> sender_tidy s \<Longrightarrow> conn_tidy (c\<lparr>tc_sender := s\<rparr>)"
  by (simp add: conn_tidy_def)

lemma conn_tidyD: "conn_tidy c \<Longrightarrow> sender_tidy (tc_sender c)"
  by (simp add: conn_tidy_def)

section \<open>Every operation keeps segments well-formed\<close>

lemma conn_tidy_ops:
  assumes "conn_tidy c"
  shows "conn_tidy (tc_connect c)" "conn_tidy (fst (tc_write data c))" "conn_tidy (tc_tick ms c)"
    "conn_tidy (tc_end_input_stream c)" "conn_tidy (tc_destroy c)" "conn_tidy (fst (tc_read n c))"
  using assms conn_tidyD[OF assms]
  by (simp_all add: tc_connect_def tc_write_def tc_tick_def tc_end_input_stream_def tc_destroy_def tc_send_rst_empty_segment_def
      tc_read_def Let_def split_beta conn_tidy_sender tidy_ops)

lemma conn_tidy_received: "conn_tidy c \<Longrightarrow> tc_segment_received seg c = Inr c' \<Longrightarrow> conn_tidy c'"
  using conn_tidyD[of c]
  by (auto simp: tc_segment_received_def Let_def conn_tidy_sender tidy_ops split: if_splits option.splits)

lemma ep_tidy_own: "ep_step x x' \<Longrightarrow> ep_tidy x \<Longrightarrow> ep_tidy x'"
proof (induction rule: ep_step.induct)
  case (Write e data c n)
  then show ?case using conn_tidy_ops(2)[of "ep_conn e" data] by (simp add: ep_tidy_def)
next
  case (Read n e c data)
  then show ?case using conn_tidy_ops(6)[of "ep_conn e" n] by (simp add: ep_tidy_def)
next
  case (Send e seg rest)
  then show ?case by (simp add: ep_tidy_def conn_tidy_def)
qed (simp_all add: ep_tidy_def conn_tidy_ops)

lemma ep_tidy_deliver: "ep_deliver seg x = Some x' \<Longrightarrow> ep_tidy x \<Longrightarrow> ep_tidy x'"
  by (auto simp: ep_deliver_def ep_tidy_def conn_tidy_received split: sum.splits)

lemma ep_tidy_new: "ep_tidy (ep_new rnd cfg)"
  by (simp add: ep_tidy_def ep_new_def conn_tidy_def tc_new_def sender_tidy_def sn_new_def)

lemma tidy_valid: "tidy seg \<Longrightarrow> unat psum \<le> 16842495 \<Longrightarrow> ts_valid psum seg"
  by (simp add: tidy_def ts_valid_def)

lemma tidy_wire_size: "tidy seg \<Longrightarrow> ts_serialize seg psum = Some bl \<Longrightarrow> length (concat bl) \<le> 20 + MAX_PAYLOAD_SIZE"
  using ts_serialize_eq[of seg psum] by (auto simp: tidy_def Let_def th_front_def th_back_def be16_def be32_def)

section \<open>Bytes on the wire\<close>

definition wire_bytes :: "u32 \<Rightarrow> endpoint \<Rightarrow> bytes list" where
  "wire_bytes psum e = map (\<lambda>seg. case ts_serialize seg psum of None \<Rightarrow> [] | Some bl \<Rightarrow> concat bl) (ep_wire e)"

text \<open>A packet that does not parse is dropped.\<close>

definition deliver_bytes :: "u32 \<Rightarrow> bytes \<Rightarrow> endpoint \<Rightarrow> endpoint option" where
  "deliver_bytes psum b e =
     (case ts_parse ts_default b psum of (seg, result) \<Rightarrow> if result = NoError then ep_deliver seg e else Some e)"

abbreviation bytes_reach :: "u32 \<Rightarrow> endpoint \<times> endpoint \<Rightarrow> endpoint \<times> endpoint \<Rightarrow> bool" where
  "bytes_reach psum \<equiv> (net_step ep_step (wire_bytes psum) (deliver_bytes psum))\<^sup>*\<^sup>*"

lemma received_ignores_cksum:
  "tc_segment_received (seg\<lparr>ts_header := (ts_header seg)\<lparr>th_cksum := x\<rparr>\<rparr>) c = tc_segment_received seg c"
proof -
  let ?seg = "seg\<lparr>ts_header := (ts_header seg)\<lparr>th_cksum := x\<rparr>\<rparr>"
  have "tr_push r ?seg = tr_push r seg" "tr_finish r ?seg = tr_finish r seg" for r by (simp_all add: tr_push_def tr_finish_def Let_def)
  then have "tr_segment_received r ?seg = tr_segment_received r seg" for r by (simp add: tr_segment_received_def Let_def)
  moreover have "ts_length_in_sequence_space ?seg = ts_length_in_sequence_space seg" by (simp add: ts_length_in_sequence_space_def)
  then have "tc_reply ?seg r t = tc_reply seg r t" for r t unfolding tc_reply_def Let_def by (simp split: option.split)
  ultimately show ?thesis unfolding tc_segment_received_def Let_def by (simp cong: option.case_cong if_cong)
qed

lemma deliver_serialized:
  assumes "tidy seg" "unat psum \<le> 16842495" "ts_serialize seg psum = Some bl"
  shows "deliver_bytes psum (concat bl) e = ep_deliver seg e"
proof -
  obtain c where "ts_parse ts_default (concat bl) psum = (seg\<lparr>ts_header := (ts_header seg)\<lparr>th_cksum := c\<rparr>\<rparr>, NoError)"
    using tcp.arrives[OF tidy_valid[OF assms(1,2)] assms(3), of ts_default]
    by (metis prod.collapse ts_same_def)
  then show ?thesis by (simp add: deliver_bytes_def ep_deliver_def received_ignores_cksum)
qed

lemma wire_bytes_segment:
  assumes "b \<in> set (wire_bytes psum e)" "ep_tidy e" "unat psum \<le> 16842495"
  obtains seg bl where "seg \<in> set (ep_wire e)" "ts_serialize seg psum = Some bl" "b = concat bl" "tidy seg"
proof -
  obtain seg where seg: "seg \<in> set (ep_wire e)" "b = (case ts_serialize seg psum of None \<Rightarrow> [] | Some bl \<Rightarrow> concat bl)"
    using assms(1) by (auto simp: wire_bytes_def)
  then have "tidy seg" using assms(2) by (simp add: ep_tidy_def list_all_iff)
  moreover obtain bl where "ts_serialize seg psum = Some bl" using tcp.roundtrip[OF tidy_valid[OF \<open>tidy seg\<close> assms(3)]] by blast
  ultimately show thesis using that seg by simp
qed

text \<open>The sum of the pseudo-header is one that addresses and length can give.\<close>

definition bytes_inv :: "u32 \<Rightarrow> endpoint \<Rightarrow> endpoint \<Rightarrow> bool" where
  "bytes_inv psum x y \<longleftrightarrow> unat psum \<le> 16842495 \<and> pair_inv x y \<and> ep_tidy x \<and> ep_tidy y"

interpretation byte_pair: two_party ep_step "wire_bytes psum" "deliver_bytes psum" "bytes_inv psum"
proof unfold_locales
  fix x y x' :: endpoint and b
  show "bytes_inv psum x y \<Longrightarrow> ep_step x x' \<Longrightarrow> bytes_inv psum x' y"
    using pair_inv_own ep_tidy_own by (simp add: bytes_inv_def) blast
  show "bytes_inv psum x y \<Longrightarrow> bytes_inv psum y x" using tcp_pair.inv_sym by (auto simp: bytes_inv_def)
  assume inv: "bytes_inv psum x y" and b: "b \<in> set (wire_bytes psum y)"
  then obtain seg bl where seg: "seg \<in> set (ep_wire y)" "ts_serialize seg psum = Some bl" "b = concat bl" "tidy seg"
    by (elim wire_bytes_segment) (simp_all add: bytes_inv_def)
  then obtain x' where "ep_deliver seg x = Some x'" "pair_inv x' y" using pair_inv_deliver[of x y seg] inv unfolding bytes_inv_def by blast
  then show "\<exists>x'. deliver_bytes psum b x = Some x' \<and> bytes_inv psum x' y"
    using deliver_serialized seg inv ep_tidy_deliver by (auto simp: bytes_inv_def)
qed

lemma bytes_inv_new:
  assumes "cfg_send_capacity cfga < two64" "cfg_recv_capacity cfga < two64"
    and "cfg_send_capacity cfgb < two64" "cfg_recv_capacity cfgb < two64" "unat psum \<le> 16842495"
  shows "bytes_inv psum (ep_new ra cfga) (ep_new rb cfgb)"
  using pair_inv_new[OF assms(1-4)] assms(5) by (simp add: bytes_inv_def ep_tidy_new)

section \<open>Properties\<close>

text \<open>C4: Every segment that an endpoint ever puts on the wire is well-formed: its header has the fixed
  length of five words and its payload at most the maximal size, so \<open>serialize\<close> does not throw, gives
  at most 1020 bytes, and these bytes are parsed back to the same segment with the checksum filled
  in.\<close>

theorem wire_segments_well_formed:
  assumes "cfg_send_capacity cfga < two64" "cfg_recv_capacity cfga < two64"
    and "cfg_send_capacity cfgb < two64" "cfg_recv_capacity cfgb < two64" "unat psum \<le> 16842495"
    and "bytes_reach psum (ep_new ra cfga, ep_new rb cfgb) (x, y)" "seg \<in> set (ep_wire x)"
  shows "\<exists>bl c. ts_serialize seg psum = Some bl \<and> length (concat bl) \<le> 20 + MAX_PAYLOAD_SIZE \<and>
    ts_parse s0 (concat bl) psum = (seg\<lparr>ts_header := (ts_header seg)\<lparr>th_cksum := c\<rparr>\<rparr>, NoError)"
proof -
  have "bytes_inv psum x y" using byte_pair.reach_inv[OF assms(6)] bytes_inv_new[OF assms(1-5)] by simp
  then have t: "tidy seg" using assms(7) by (simp add: bytes_inv_def ep_tidy_def list_all_iff)
  obtain bl c where bl: "ts_serialize seg psum = Some bl"
    "ts_parse s0 (concat bl) psum = (seg\<lparr>ts_header := (ts_header seg)\<lparr>th_cksum := c\<rparr>\<rparr>, NoError)"
    using tcp.roundtrip[OF tidy_valid[OF t assms(5)], of s0] unfolding ts_same_def by blast
  moreover have "length (concat bl) \<le> 20 + MAX_PAYLOAD_SIZE" by (rule tidy_wire_size[OF t bl(1)])
  ultimately show ?thesis by blast
qed

theorem wire_segments_well_formed_witness:
  "\<exists>x y seg bl. bytes_reach 0 (ep_new 1 cfg_default, ep_new 2 cfg_default) (x, y) \<and> seg \<in> set (ep_wire x) \<and>
     ts_serialize seg 0 = Some bl \<and> length (concat bl) \<le> 1020"
proof -
  let ?x = "ep_new 1 cfg_default" and ?y = "ep_new 2 cfg_default"
  let ?x1 = "?x\<lparr>ep_conn := tc_connect (ep_conn ?x)\<rparr>"
  obtain seg where out: "tc_segments_out (ep_conn ?x1) = seg # []"
    using tc_connect_new(4)[of 1 cfg_default] by (simp add: ep_new_def)
  let ?x2 = "?x1\<lparr>ep_conn := (ep_conn ?x1)\<lparr>tc_segments_out := []\<rparr>, ep_wire := ep_wire ?x1 @ [seg]\<rparr>"
  have "bytes_reach 0 (?x, ?y) (?x1, ?y)" by (intro r_into_rtranclp net_step.Own ep_step.Connect)
  moreover have "net_step ep_step (wire_bytes 0) (deliver_bytes 0) (?x1, ?y) (?x2, ?y)"
    by (intro net_step.Own ep_step.Send out)
  ultimately have r: "bytes_reach 0 (?x, ?y) (?x2, ?y)" by (rule rtranclp.rtrancl_into_rtrancl)
  obtain bl where "ts_serialize seg 0 = Some bl" "length (concat bl) \<le> 1020"
    using wire_segments_well_formed[OF _ _ _ _ _ r, of seg] by (auto simp: cfg_default_def)
  then show ?thesis using r by fastforce
qed



end
