(* ===== verification/Effects.thy ===== *)
theory Effects
  imports Sponge_Prelude
begin

text \<open>
  Computations on a state that may throw, for the parts of the program that call the operating
  system or run callbacks. A computation maps a state to an error or a result, together with the
  state that it leaves behind: an exception does not undo what happened before it. The collection
  \<open>eff\<close> holds the equations that run a computation.
\<close>

type_synonym ('s, 'e, 'a) eff = "'s \<Rightarrow> ('e + 'a) \<times> 's"

named_theorems eff \<open>equations that run a computation\<close>

definition ereturn :: "'a \<Rightarrow> ('s, 'e, 'a) eff" where
  [eff]: "ereturn a s = (Inr a, s)"

definition ethrow :: "'e \<Rightarrow> ('s, 'e, 'a) eff" where
  [eff]: "ethrow e s = (Inl e, s)"

definition ebind :: "('s, 'e, 'a) eff \<Rightarrow> ('a \<Rightarrow> ('s, 'e, 'b) eff) \<Rightarrow> ('s, 'e, 'b) eff" where
  "ebind m f s = (case m s of (Inl e, t) \<Rightarrow> (Inl e, t) | (Inr a, t) \<Rightarrow> f a t)"

definition eseq :: "('s, 'e, 'a) eff \<Rightarrow> ('s, 'e, 'b) eff \<Rightarrow> ('s, 'e, 'b) eff" where
  "eseq m n = ebind m (\<lambda>_. n)"

definition eget :: "('s \<Rightarrow> 'a) \<Rightarrow> ('s, 'e, 'a) eff" where
  [eff]: "eget f s = (Inr (f s), s)"

definition emodify :: "('s \<Rightarrow> 's) \<Rightarrow> ('s, 'e, unit) eff" where
  [eff]: "emodify f s = (Inr (), f s)"

definition ewhen :: "bool \<Rightarrow> ('s, 'e, unit) eff \<Rightarrow> ('s, 'e, unit) eff" where
  "ewhen b m = (if b then m else ereturn ())"

text \<open>A result that is already known, thrown or returned.\<close>

definition eresult :: "'e + 'a \<Rightarrow> ('s, 'e, 'a) eff" where
  [eff]: "eresult r s = (r, s)"

text \<open>A computation on a part of the state.\<close>

definition ezoom :: "('s \<Rightarrow> 't) \<Rightarrow> ('t \<Rightarrow> 's \<Rightarrow> 's) \<Rightarrow> ('t, 'e, 'a) eff \<Rightarrow> ('s, 'e, 'a) eff" where
  [eff]: "ezoom get put m s = (case m (get s) of (r, t) \<Rightarrow> (r, put t s))"

lemma ebind_Inr [eff]: "m s = (Inr a, t) \<Longrightarrow> ebind m f s = f a t"
  by (simp add: ebind_def)

lemma ebind_Inl [eff]: "m s = (Inl e, t) \<Longrightarrow> ebind m f s = (Inl e, t)"
  by (simp add: ebind_def)

lemma eseq_Inr [eff]: "m s = (Inr a, t) \<Longrightarrow> eseq m n s = n t"
  by (simp add: eseq_def ebind_def)

lemma eseq_Inl [eff]: "m s = (Inl e, t) \<Longrightarrow> eseq m n s = (Inl e, t)"
  by (simp add: eseq_def ebind_def)

lemma ewhen_simps [eff]: "ewhen True m = m" "ewhen False m s = (Inr (), s)"
  by (simp_all add: ewhen_def ereturn_def)

lemma ebind_InrD:
  assumes "ebind m f s = (Inr b, u)"
  obtains a t where "m s = (Inr a, t)" "f a t = (Inr b, u)"
  using assms by (auto simp: ebind_def split: prod.splits sum.splits)

lemma eseq_InrD:
  assumes "eseq m n s = (Inr b, u)"
  obtains a t where "m s = (Inr a, t)" "n t = (Inr b, u)"
  using ebind_InrD[OF assms[unfolded eseq_def]] by blast

text \<open>What every computation of a sequence keeps, the sequence keeps.\<close>

definition ekeeps :: "('s \<Rightarrow> bool) \<Rightarrow> ('s, 'e, 'a) eff \<Rightarrow> bool" where
  "ekeeps P m \<longleftrightarrow> (\<forall>s. P s \<longrightarrow> P (snd (m s)))"

lemma ekeeps_simple [intro]:
  "ekeeps P (ereturn a)" "ekeeps P (ethrow e)" "ekeeps P (eget f)" "ekeeps P (eresult r)"
  by (simp_all add: ekeeps_def eff)

lemma ekeeps_ebind [intro]: "ekeeps P m \<Longrightarrow> (\<And>a. ekeeps P (f a)) \<Longrightarrow> ekeeps P (ebind m f)"
  by (fastforce simp: ekeeps_def ebind_def split: prod.splits sum.splits)

lemma ekeeps_eseq [intro]: "ekeeps P m \<Longrightarrow> ekeeps P n \<Longrightarrow> ekeeps P (eseq m n)"
  unfolding eseq_def by (rule ekeeps_ebind)

lemma ekeeps_ewhen [intro]: "ekeeps P m \<Longrightarrow> ekeeps P (ewhen b m)"
  by (simp add: ewhen_def ekeeps_simple(1))

lemma ekeepsD: "ekeeps P m \<Longrightarrow> P s \<Longrightarrow> m s = (r, t) \<Longrightarrow> P t"
  unfolding ekeeps_def by (metis snd_conv)

lemma ekeeps_ezoom:
  assumes "ekeeps P m" "\<And>s. Q s \<Longrightarrow> P (get s)" "\<And>s t. Q s \<Longrightarrow> P t \<Longrightarrow> Q (put t s)"
  shows "ekeeps Q (ezoom get put m)"
  unfolding ekeeps_def
proof (intro allI impI)
  fix s assume q: "Q s"
  obtain r t where m: "m (get s) = (r, t)" by fastforce
  have "P t" using ekeepsD[OF assms(1) assms(2)[OF q] m] .
  then show "Q (snd (ezoom get put m s))" using assms(3)[OF q] m by (simp add: ezoom_def)
qed

text \<open>What holds after a computation that returns.\<close>

definition eensures :: "('s \<Rightarrow> bool) \<Rightarrow> ('s, 'e, 'a) eff \<Rightarrow> ('s \<Rightarrow> bool) \<Rightarrow> bool" where
  "eensures P m Q \<longleftrightarrow> (\<forall>s a t. P s \<longrightarrow> m s = (Inr a, t) \<longrightarrow> Q t)"

lemma eensures_ebind:
  assumes "eensures P m Q" "\<And>a. ekeeps Q (f a)"
  shows "eensures P (ebind m f) Q"
  unfolding eensures_def
proof (intro allI impI)
  fix s b u assume p: "P s" and b: "ebind m f s = (Inr b, u)"
  obtain a t where "m s = (Inr a, t)" "f a t = (Inr b, u)" by (rule ebind_InrD[OF b])
  then show "Q u" using assms p by (metis eensures_def ekeepsD)
qed

lemma eensures_before:
  assumes "ekeeps P m" "\<And>a. eensures P (f a) Q"
  shows "eensures P (ebind m f) Q"
  unfolding eensures_def
proof (intro allI impI)
  fix s b u assume p: "P s" and b: "ebind m f s = (Inr b, u)"
  obtain a t where t: "m s = (Inr a, t)" "f a t = (Inr b, u)" by (rule ebind_InrD[OF b])
  have "P t" using ekeepsD[OF assms(1) p t(1)] .
  then show "Q u" using assms(2)[of a] t(2) by (auto simp: eensures_def)
qed

lemma eensures_eseq:
  "eensures P m Q \<Longrightarrow> ekeeps Q n \<Longrightarrow> eensures P (eseq m n) Q"
  "ekeeps P m \<Longrightarrow> eensures P k Q \<Longrightarrow> eensures P (eseq m k) Q"
  unfolding eseq_def by (rule eensures_ebind; simp) (rule eensures_before; simp)

lemma eensures_then:
  assumes "eensures P m R" "\<And>a. eensures R (f a) Q"
  shows "eensures P (ebind m f) Q"
  unfolding eensures_def
proof (intro allI impI)
  fix s b u assume p: "P s" and b: "ebind m f s = (Inr b, u)"
  obtain a t where t: "m s = (Inr a, t)" "f a t = (Inr b, u)" by (rule ebind_InrD[OF b])
  then show "Q u" using assms p unfolding eensures_def by blast
qed

lemma eensures_ezoom:
  assumes "eensures P m R" "\<And>s. Q s \<Longrightarrow> P (get s)" "\<And>s t. R t \<Longrightarrow> U (put t s)"
  shows "eensures Q (ezoom get put m) U"
  using assms by (force simp: eensures_def ezoom_def split: prod.splits)

lemma eensures_weaken: "eensures P m Q \<Longrightarrow> (\<And>s. Q s \<Longrightarrow> R s) \<Longrightarrow> eensures P m R"
  unfolding eensures_def by blast

text \<open>Errors that a computation does not throw.\<close>

definition eavoids :: "'e \<Rightarrow> ('s, 'e, 'a) eff \<Rightarrow> bool" where
  "eavoids e m \<longleftrightarrow> (\<forall>s. fst (m s) \<noteq> Inl e)"

lemma eavoids_ebind:
  assumes "eavoids e m" "\<And>a. eavoids e (f a)"
  shows "eavoids e (ebind m f)"
  unfolding eavoids_def
proof
  fix s
  obtain r t where m: "m s = (r, t)" by fastforce
  have "r \<noteq> Inl e" using assms(1) m by (metis eavoids_def fst_conv)
  then show "fst (ebind m f s) \<noteq> Inl e" using m assms(2) by (cases r) (auto simp: ebind_def eavoids_def)
qed

lemma eavoids_intros:
  "eavoids e (ereturn a)" "eavoids e (eget g)" "eavoids e (emodify u)"
  "eavoids e m \<Longrightarrow> eavoids e n \<Longrightarrow> eavoids e (eseq m n)"
  "eavoids e k \<Longrightarrow> eavoids e (ewhen b k)"
  by (simp_all add: eavoids_ebind eseq_def ewhen_def) (simp_all add: eavoids_def eff)

end
