(* ===== verification/IPv4_Datagram.thy ===== *)
theory IPv4_Datagram
  imports TCP_Segment
begin

text \<open>
  IPv4 headers and datagrams (\<^verbatim>\<open>libsponge/tcp_helpers/ipv4_header.hh\<close>, \<^verbatim>\<open>ipv4_header.cc\<close>,
  \<^verbatim>\<open>ipv4_datagram.hh\<close>, \<^verbatim>\<open>ipv4_datagram.cc\<close>). \<open>IPv4Header::parse\<close> returns early on several
  errors, so the model takes the header it would leave unchanged. The payload of a datagram is a
  buffer list: the list of its byte strings. The lemmas: a datagram whose length field is right is
  read back from its wire form; the datagram parser accepts it whatever its checksum field holds.
\<close>

section \<open>Header\<close>

record IPv4Header =
  ip_ver :: u8
  ip_hlen :: u8
  ip_tos :: u8
  ip_len :: u16
  ip_id :: u16
  ip_df :: bool
  ip_mf :: bool
  ip_offset :: u16
  ip_ttl :: u8
  ip_proto :: u8
  ip_cksum :: u16
  ip_src :: u32
  ip_dst :: u32

abbreviation IP_LENGTH :: nat where
  "IP_LENGTH \<equiv> 20"

abbreviation DEFAULT_TTL :: u8 where
  "DEFAULT_TTL \<equiv> 128"

abbreviation PROTO_TCP :: u8 where
  "PROTO_TCP \<equiv> 6"

definition ip_default :: IPv4Header where
  "ip_default = \<lparr>ip_ver = 4, ip_hlen = 5, ip_tos = 0, ip_len = 0, ip_id = 0, ip_df = True,
     ip_mf = False, ip_offset = 0, ip_ttl = DEFAULT_TTL, ip_proto = PROTO_TCP, ip_cksum = 0,
     ip_src = 0, ip_dst = 0\<rparr>"

definition ip_parse :: "IPv4Header \<Rightarrow> NetParser \<Rightarrow> IPv4Header \<times> NetParser \<times> ParseResult" where
  "ip_parse h0 p0 =
     (let original = np_buffer p0;
          data_size = length original
      in if data_size < IP_LENGTH then (h0, p0, PacketTooShort)
         else
           case np_u8 p0 of (first_byte, p) \<Rightarrow>
           case np_u8 p of (tos, p) \<Rightarrow>
           case np_u16 p of (len, p) \<Rightarrow>
           case np_u16 p of (ident, p) \<Rightarrow>
           case np_u16 p of (fo_val, p) \<Rightarrow>
           case np_u8 p of (ttl, p) \<Rightarrow>
           case np_u8 p of (proto, p) \<Rightarrow>
           case np_u16 p of (cksum, p) \<Rightarrow>
           case np_u32 p of (src, p) \<Rightarrow>
           case np_u32 p of (dst, p) \<Rightarrow>
             (let hlen = first_byte AND 0x0f;
                  h = \<lparr>ip_ver = drop_bit 4 first_byte, ip_hlen = hlen, ip_tos = tos, ip_len = len,
                       ip_id = ident, ip_df = (fo_val AND 0x4000 \<noteq> 0),
                       ip_mf = (fo_val AND 0x2000 \<noteq> 0), ip_offset = fo_val AND 0x1fff,
                       ip_ttl = ttl, ip_proto = proto, ip_cksum = cksum, ip_src = src,
                       ip_dst = dst\<rparr>
              in if data_size < 4 * unat hlen then (h, p, PacketTooShort)
                 else if ip_ver h \<noteq> 4 then (h, p, WrongIPVersion)
                 else if hlen < 5 then (h, p, HeaderTooShort)
                 else if data_size \<noteq> unat len then (h, p, TruncatedPacket)
                 else
                   (let p' = np_remove_prefix (unat hlen * 4 - IP_LENGTH) p
                    in if np_is_error p' then (h, p', np_error p')
                       else if ck_value (ck_add (ck_new 0) (take (4 * unat hlen) original)) \<noteq> 0
                       then (h, p', BadChecksum)
                       else (h, p', NoError))))"

definition ip_first_byte :: "IPv4Header \<Rightarrow> u8" where
  "ip_first_byte h = push_bit 4 (ip_ver h) OR (ip_hlen h AND 0xf)"

definition ip_fo_val :: "IPv4Header \<Rightarrow> u16" where
  "ip_fo_val h = (if ip_df h then 0x4000 else 0) OR (if ip_mf h then 0x2000 else 0) OR
     (ip_offset h AND 0x1fff)"

definition ip_serialize :: "IPv4Header \<Rightarrow> bytes option" where
  "ip_serialize h =
     (if ip_ver h \<noteq> 4 then None
      else if 4 * unat (ip_hlen h) < IP_LENGTH then None
      else let ret = unparse_u8 [] (ip_first_byte h);
               ret = unparse_u8 ret (ip_tos h);
               ret = unparse_u16 ret (ip_len h);
               ret = unparse_u16 ret (ip_id h);
               ret = unparse_u16 ret (ip_fo_val h);
               ret = unparse_u8 ret (ip_ttl h);
               ret = unparse_u8 ret (ip_proto h);
               ret = unparse_u16 ret (ip_cksum h);
               ret = unparse_u32 ret (ip_src h);
               ret = unparse_u32 ret (ip_dst h)
           in Some (resize ret (4 * unat (ip_hlen h))))"

definition ip_payload_length :: "IPv4Header \<Rightarrow> u16" where
  "ip_payload_length h = ip_len h - 4 * ucast (ip_hlen h)"

definition ip_pseudo_cksum :: "IPv4Header \<Rightarrow> u32" where
  "ip_pseudo_cksum h =
     (let pcksum = drop_bit 16 (ip_src h) + (ip_src h AND 0xffff);
          pcksum = pcksum + (drop_bit 16 (ip_dst h) + (ip_dst h AND 0xffff));
          pcksum = pcksum + ucast (ip_proto h)
      in pcksum + ucast (ip_payload_length h))"

section \<open>Datagram\<close>

record IPv4Datagram =
  dg_header :: IPv4Header
  dg_payload :: "bytes list"

definition dg_default :: IPv4Datagram where
  "dg_default = \<lparr>dg_header = ip_default, dg_payload = []\<rparr>"

definition dg_parse :: "IPv4Datagram \<Rightarrow> bytes \<Rightarrow> IPv4Datagram \<times> ParseResult" where
  "dg_parse d buffer =
     (case ip_parse (dg_header d) (np_new buffer) of (h, p, _) \<Rightarrow>
        (let payload = [np_buffer p];
             d' = \<lparr>dg_header = h, dg_payload = payload\<rparr>
         in if bvl_size payload \<noteq> unat (ip_payload_length h) then (d', PacketTooShort)
            else (d', np_error p)))"

definition dg_serialize :: "IPv4Datagram \<Rightarrow> bytes list option" where
  "dg_serialize d =
     (if bvl_size (dg_payload d) \<noteq> unat (ip_payload_length (dg_header d)) then None
      else let header_out = (dg_header d)\<lparr>ip_cksum := 0\<rparr>
           in case ip_serialize header_out of
                None \<Rightarrow> None
              | Some header_zero_checksum \<Rightarrow>
                  (let check = ck_add (ck_new 0) header_zero_checksum;
                       header_out' = header_out\<lparr>ip_cksum := ck_value check\<rparr>
                   in case ip_serialize header_out' of
                        None \<Rightarrow> None
                      | Some form \<Rightarrow> Some ([form] @ dg_payload d)))"

section \<open>Wire form\<close>

definition ip_front :: "IPv4Header \<Rightarrow> bytes" where
  "ip_front h = be8 (ip_first_byte h) @ be8 (ip_tos h) @ be16 (ip_len h) @ be16 (ip_id h) @
     be16 (ip_fo_val h) @ be8 (ip_ttl h) @ be8 (ip_proto h)"

definition ip_back :: "IPv4Header \<Rightarrow> bytes" where
  "ip_back h = be32 (ip_src h) @ be32 (ip_dst h) @ replicate (4 * unat (ip_hlen h) - 20) 0"

lemma ip_front_length [simp]: "length (ip_front h) = 10"
  by (simp add: ip_front_def)

lemma ip_wire_cksum [simp]:
  "ip_front (h\<lparr>ip_cksum := c\<rparr>) = ip_front h" "ip_back (h\<lparr>ip_cksum := c\<rparr>) = ip_back h"
  "ip_payload_length (h\<lparr>ip_cksum := c\<rparr>) = ip_payload_length h"
  by (simp_all add: ip_front_def ip_back_def ip_first_byte_def ip_fo_val_def ip_payload_length_def)

lemma ip_serialize_eq:
  "ip_serialize h =
     (if ip_ver h \<noteq> 4 \<or> 4 * unat (ip_hlen h) < 20 then None
      else Some (ip_front h @ be16 (ip_cksum h) @ ip_back h))"
proof (cases "ip_ver h \<noteq> 4 \<or> 4 * unat (ip_hlen h) < 20")
  case False
  have "resize s n = s @ replicate (n - length s) 0" if "length s \<le> n" for s n
    using that by (simp add: resize_def)
  then show ?thesis
    using False by (simp add: ip_serialize_def Let_def wire ip_front_def ip_back_def)
qed (auto simp: ip_serialize_def)

text \<open>The header fields that fit their place on the wire.\<close>

definition ip_wf :: "IPv4Header \<Rightarrow> bool" where
  "ip_wf h \<longleftrightarrow> ip_ver h = 4 \<and> 5 \<le> ip_hlen h \<and> ip_hlen h < 16 \<and> ip_offset h < 0x2000"

lemma and_f: "(w :: u8) < 16 \<Longrightarrow> w AND 0xf = w"
proof -
  assume "w < 16"
  then have "take_bit 4 w = w" by (simp add: take_bit_eq_mod mod_word_less)
  then show ?thesis by (simp add: take_bit_eq_mask mask_eq_exp_minus_1)
qed

lemma ip_first_byte_parts:
  assumes "ip_wf h"
  shows "drop_bit 4 (ip_first_byte h) = 4" "ip_first_byte h AND 0xf = ip_hlen h"
proof -
  have h: "ip_hlen h AND 0xf = ip_hlen h" "ip_ver h = 4" "take_bit 4 (ip_hlen h) = ip_hlen h"
    using assms and_f[of "ip_hlen h"]
    by (simp_all add: ip_wf_def take_bit_eq_mod mod_word_less)
  have f: "ip_first_byte h = 0x40 OR take_bit 4 (ip_hlen h)" using h by (simp add: ip_first_byte_def)
  have m: "(0xf :: u8) = mask 4" by (simp add: mask_eq_exp_minus_1)
  show "drop_bit 4 (ip_first_byte h) = 4"
    unfolding f by (simp only: drop_bit_or drop_bit_take_bit) simp
  have "(0x40 :: u8) AND mask 4 = 0" by (simp add: mask_eq_exp_minus_1)
  then show "ip_first_byte h AND 0xf = ip_hlen h"
    unfolding f m by (simp add: bit.conj_disj_distrib2 take_bit_eq_mask[symmetric] h(3))
qed

lemma ip_fo_val_parts:
  assumes "ip_wf h"
  shows "(ip_fo_val h AND 0x4000 \<noteq> 0) = ip_df h" "(ip_fo_val h AND 0x2000 \<noteq> 0) = ip_mf h"
    "ip_fo_val h AND 0x1fff = ip_offset h"
proof -
  have "take_bit 13 (ip_offset h) = ip_offset h"
    using assms by (simp add: ip_wf_def take_bit_eq_mod mod_word_less)
  then have o: "ip_offset h AND 0x1fff = ip_offset h"
    by (simp add: take_bit_eq_mask mask_eq_exp_minus_1)
  have z: "(ip_offset h AND 0x1fff) AND 0x4000 = 0" "(ip_offset h AND 0x1fff) AND 0x2000 = 0"
    by (simp_all add: and.assoc)
  show "(ip_fo_val h AND 0x4000 \<noteq> 0) = ip_df h" "(ip_fo_val h AND 0x2000 \<noteq> 0) = ip_mf h"
    "ip_fo_val h AND 0x1fff = ip_offset h"
    using o z by (cases "ip_df h"; cases "ip_mf h"; simp add: ip_fo_val_def bit.conj_disj_distrib2)+
qed

lemma ip_parse_wire:
  assumes wf: "ip_wf h" and len: "unat (ip_len h) = 4 * unat (ip_hlen h) + length rest"
  shows "ip_parse h0 (np_new (ip_front h @ be16 (ip_cksum h) @ ip_back h @ rest)) =
    (h, np_new rest,
     if ck_value (ck_add (ck_new 0) (ip_front h @ be16 (ip_cksum h) @ ip_back h)) \<noteq> 0
     then BadChecksum else NoError)"
proof -
  have hl: "\<not> ip_hlen h < 5" "ip_ver h = 4" using wf by (auto simp: ip_wf_def)
  have n: "5 \<le> unat (ip_hlen h)" by (rule doff_unat[OF hl(1)])
  let ?wire = "ip_front h @ be16 (ip_cksum h) @ ip_back h"
  have w: "length ?wire = 4 * unat (ip_hlen h)" using n by (simp add: ip_back_def)
  then have tk: "take (4 * unat (ip_hlen h)) (?wire @ rest) = ?wire"
    by (metis append_eq_conv_conj)
  have size: "\<not> length (?wire @ rest) < 20" "\<not> length (?wire @ rest) < 4 * unat (ip_hlen h)"
    "length (?wire @ rest) = unat (ip_len h)"
    using w n len by simp_all
  have pad: "np_remove_prefix (unat (ip_hlen h) * 4 - 20)
      \<lparr>np_buffer = replicate (4 * unat (ip_hlen h) - 20) 0 @ rest, np_error = NoError\<rparr> = np_new rest"
    by (simp add: np_remove_prefix_code np_new_def)
  have parsed: "\<lparr>ip_ver = 4, ip_hlen = ip_hlen h, ip_tos = ip_tos h, ip_len = ip_len h, ip_id = ip_id h,
      ip_df = ip_df h, ip_mf = ip_mf h, ip_offset = ip_offset h, ip_ttl = ip_ttl h,
      ip_proto = ip_proto h, ip_cksum = ip_cksum h, ip_src = ip_src h, ip_dst = ip_dst h\<rparr> = h"
    using hl(2) by (cases h) simp
  have buf: "np_buffer (np_new (ip_front h @ be16 (ip_cksum h) @ ip_back h @ rest)) = ?wire @ rest"
    by (simp add: np_new_def)
  have new: "np_new (ip_front h @ be16 (ip_cksum h) @ ip_back h @ rest) =
      \<lparr>np_buffer = be8 (ip_first_byte h) @ be8 (ip_tos h) @ be16 (ip_len h) @ be16 (ip_id h) @
        be16 (ip_fo_val h) @ be8 (ip_ttl h) @ be8 (ip_proto h) @ be16 (ip_cksum h) @ be32 (ip_src h) @
        be32 (ip_dst h) @ replicate (4 * unat (ip_hlen h) - 20) 0 @ rest, np_error = NoError\<rparr>"
    by (simp add: np_new_def ip_front_def ip_back_def)
  show ?thesis
    unfolding ip_parse_def Let_def buf unfolding new np_get prod.case ip_first_byte_parts[OF wf]
      ip_fo_val_parts[OF wf] pad tk parsed
    using hl size by (simp add: np_new_def)
qed

lemma ip_payload_length_eq:
  assumes "unat (ip_len h) = 4 * unat (ip_hlen h) + n"
  shows "unat (ip_payload_length h) = n"
proof -
  have l: "unat (ip_hlen h) < 256" using unsigned_less[of "ip_hlen h", where ?'a = nat] by simp
  have "unat (ucast (ip_hlen h) :: u16) = unat (ip_hlen h)"
    using l by (simp only: unsigned_ucast_eq) (simp add: take_bit_eq_mod)
  then have m: "unat (4 * ucast (ip_hlen h) :: u16) = 4 * unat (ip_hlen h)"
    using l by (simp add: unat_word_ariths)
  then have "4 * ucast (ip_hlen h) \<le> ip_len h" using assms by (simp add: word_le_nat_alt)
  then show ?thesis using assms m by (simp add: ip_payload_length_def unat_sub)
qed

lemma dg_parse_serialize:
  assumes "ip_wf (dg_header d)"
    and "unat (ip_len (dg_header d)) = 4 * unat (ip_hlen (dg_header d)) + length (concat (dg_payload d))"
  shows "\<exists>bl c. dg_serialize d = Some bl \<and>
    dg_parse d0 (concat bl) =
      (\<lparr>dg_header = (dg_header d)\<lparr>ip_cksum := c\<rparr>, dg_payload = [concat (dg_payload d)]\<rparr>, NoError) \<and>
    snd (snd (ip_parse ip_default (np_new (concat bl)))) = NoError"
proof -
  let ?h = "dg_header d" and ?rest = "concat (dg_payload d)"
  have hl: "\<not> 4 * unat (ip_hlen ?h) < 20" "ip_ver ?h = 4" "unat (ip_hlen ?h) < 16"
    using assms(1) by (auto simp: ip_wf_def word_le_nat_alt word_less_nat_alt)
  define c where "c = ck_value (ck_add (ck_new 0) (ip_front ?h @ [0, 0] @ ip_back ?h))"
  have "ck_fits 0 (ip_front ?h @ [0, 0] @ ip_back ?h)" using hl by (simp add: ck_fits_def ip_back_def)
  then have zero: "ck_value (ck_add (ck_new 0) (ip_front ?h @ be16 c @ ip_back ?h)) = 0"
    by (rule checksum_fill) (simp_all add: c_def)
  let ?h' = "?h\<lparr>ip_cksum := c\<rparr>"
  have "ip_wf ?h'" using assms(1) by (simp add: ip_wf_def)
  then have p: "ip_parse h0 (np_new (ip_front ?h @ be16 c @ ip_back ?h @ ?rest)) = (?h', np_new ?rest, NoError)"
    for h0
    using ip_parse_wire[of ?h' ?rest h0] assms(2) zero by simp
  have n: "unat (ip_payload_length ?h) = length ?rest" by (rule ip_payload_length_eq[OF assms(2)])
  have "length ?rest < two64" using assms(2) unsigned_less[of "ip_len ?h", where ?'a = nat] by simp
  then have size: "bvl_size (dg_payload d) = length ?rest" "bvl_size [?rest] = length ?rest"
    by (simp_all add: bvl_size_eq)
  have "be16 0 = [0, 0]" by (simp add: be16_def)
  then have "dg_serialize d = Some ((ip_front ?h @ be16 c @ ip_back ?h) # dg_payload d)"
    using hl n size(1) by (simp add: dg_serialize_def ip_serialize_eq c_def Let_def)
  moreover have "dg_parse d0 (ip_front ?h @ be16 c @ ip_back ?h @ ?rest)
      = (\<lparr>dg_header = ?h', dg_payload = [?rest]\<rparr>, NoError)"
    using n size(2) by (simp add: dg_parse_def p) (simp add: np_new_def)
  ultimately show ?thesis using p by auto
qed

definition dg_valid :: "IPv4Datagram \<Rightarrow> bool" where
  "dg_valid d \<longleftrightarrow> ip_wf (dg_header d) \<and>
     unat (ip_len (dg_header d)) = 4 * unat (ip_hlen (dg_header d)) + length (concat (dg_payload d))"

definition dg_same :: "IPv4Datagram \<Rightarrow> IPv4Datagram \<Rightarrow> bool" where
  "dg_same d e \<longleftrightarrow>
     (\<exists>c. e = \<lparr>dg_header = (dg_header d)\<lparr>ip_cksum := c\<rparr>, dg_payload = [concat (dg_payload d)]\<rparr>)"

interpretation ipv4: wire_format dg_parse dg_serialize dg_valid dg_same
  by unfold_locales (use dg_parse_serialize in \<open>fastforce simp: dg_valid_def dg_same_def\<close>)

section \<open>Properties\<close>

text \<open>C18: A datagram with a legal header and a correct length field is serialized to bytes that
  parse back to the same header (with the checksum filled in) and the same payload bytes; the
  header parser itself also accepts them.\<close>

theorem ipv4_datagram_roundtrip:
  assumes "ip_wf (dg_header d)"
    and "unat (ip_len (dg_header d)) = 4 * unat (ip_hlen (dg_header d)) + length (concat (dg_payload d))"
  shows "\<exists>bl c. dg_serialize d = Some bl \<and>
    dg_parse d0 (concat bl) =
      (\<lparr>dg_header = (dg_header d)\<lparr>ip_cksum := c\<rparr>, dg_payload = [concat (dg_payload d)]\<rparr>, NoError) \<and>
    snd (snd (ip_parse ip_default (np_new (concat bl)))) = NoError"
  using assms by (rule dg_parse_serialize)

theorem ipv4_datagram_roundtrip_witness:
  "\<exists>bl c. dg_serialize \<lparr>dg_header = ip_default\<lparr>ip_len := 23\<rparr>, dg_payload = [[1], [2, 3]]\<rparr> = Some bl \<and>
    dg_parse dg_default (concat bl) =
      (\<lparr>dg_header = ip_default\<lparr>ip_len := 23, ip_cksum := c\<rparr>, dg_payload = [[1, 2, 3]]\<rparr>, NoError) \<and>
    snd (snd (ip_parse ip_default (np_new (concat bl)))) = NoError"
  using ipv4_datagram_roundtrip[of "\<lparr>dg_header = ip_default\<lparr>ip_len := 23\<rparr>, dg_payload = [[1], [2, 3]]\<rparr>" dg_default]
  by (simp add: ip_default_def ip_wf_def)

text \<open>\<open>IPv4Datagram::parse\<close> discards the result of the header parser: the wire form of a legal
  datagram is accepted with every value of the checksum field, although the header parser
  reports the wrong ones.\<close>

lemma ipv4_datagram_ignores_checksum:
  assumes "ip_wf h" "unat (ip_len h) = 4 * unat (ip_hlen h) + length rest"
    and "ck_value (ck_add (ck_new 0) (ip_front h @ be16 (ip_cksum h) @ ip_back h)) \<noteq> 0"
  shows "snd (snd (ip_parse h0 (np_new (ip_front h @ be16 (ip_cksum h) @ ip_back h @ rest)))) = BadChecksum \<and>
    dg_parse d0 (ip_front h @ be16 (ip_cksum h) @ ip_back h @ rest) =
      (\<lparr>dg_header = h, dg_payload = [rest]\<rparr>, NoError)"
proof -
  have "length rest < two64" using assms(2) unsigned_less[of "ip_len h", where ?'a = nat] by simp
  then have "bvl_size [rest] = length rest" by (simp add: bvl_size_eq)
  then show ?thesis
    using ip_parse_wire[OF assms(1,2)] assms(3) ip_payload_length_eq[OF assms(2)]
    by (simp add: dg_parse_def Let_def) (simp add: np_new_def)
qed

end
