(* ===== verification/Ethernet_ARP.thy ===== *)
theory Ethernet_ARP
  imports Net_Parser
begin

text \<open>
  Ethernet headers and frames, and ARP messages (\<^verbatim>\<open>libsponge/tcp_helpers/ethernet_header.hh\<close>,
  \<^verbatim>\<open>ethernet_header.cc\<close>, \<^verbatim>\<open>ethernet_frame.hh\<close>, \<^verbatim>\<open>ethernet_frame.cc\<close>, \<^verbatim>\<open>arp_message.hh\<close>,
  \<^verbatim>\<open>arp_message.cc\<close>). An Ethernet address is the list of its six bytes; well-formedness says
  that there are six. The lemmas: frames and supported messages are read back from their wire
  form; frames shorter than a header are accepted with the header unchanged.
\<close>

section \<open>Ethernet\<close>

type_synonym EthernetAddress = "u8 list"

definition ETHERNET_BROADCAST :: EthernetAddress where
  "ETHERNET_BROADCAST = [0xff, 0xff, 0xff, 0xff, 0xff, 0xff]"

record EthernetHeader =
  eh_dst :: EthernetAddress
  eh_src :: EthernetAddress
  eh_type :: u16

abbreviation ETH_LENGTH :: nat where "ETH_LENGTH \<equiv> 14"
abbreviation TYPE_IPv4 :: u16 where "TYPE_IPv4 \<equiv> 0x800"
abbreviation TYPE_ARP :: u16 where "TYPE_ARP \<equiv> 0x806"

definition eh_default :: EthernetHeader where
  "eh_default = \<lparr>eh_dst = replicate 6 0, eh_src = replicate 6 0, eh_type = 0\<rparr>"

definition eh_parse :: "EthernetHeader \<Rightarrow> NetParser \<Rightarrow> EthernetHeader \<times> NetParser \<times> ParseResult" where
  "eh_parse h p =
     (if length (np_buffer p) < ETH_LENGTH then (h, p, PacketTooShort)
      else case np_array 6 p of (dst, p) \<Rightarrow>
           case np_array 6 p of (src, p) \<Rightarrow>
           case np_u16 p of (type, p) \<Rightarrow>
             (\<lparr>eh_dst = dst, eh_src = src, eh_type = type\<rparr>, p, np_error p))"

definition eh_serialize :: "EthernetHeader \<Rightarrow> bytes" where
  "eh_serialize h =
     (let ret = unparse_array [] (eh_dst h);
          ret = unparse_array ret (eh_src h)
      in unparse_u16 ret (eh_type h))"

record EthernetFrame =
  ef_header :: EthernetHeader
  ef_payload :: "bytes list"

definition ef_default :: EthernetFrame where
  "ef_default = \<lparr>ef_header = eh_default, ef_payload = []\<rparr>"

definition ef_parse :: "EthernetFrame \<Rightarrow> bytes \<Rightarrow> EthernetFrame \<times> ParseResult" where
  "ef_parse f buffer =
     (case eh_parse (ef_header f) (np_new buffer) of (h, p, _) \<Rightarrow>
        (\<lparr>ef_header = h, ef_payload = [np_buffer p]\<rparr>, np_error p))"

definition ef_serialize :: "EthernetFrame \<Rightarrow> bytes list" where
  "ef_serialize f = [eh_serialize (ef_header f)] @ ef_payload f"

section \<open>ARP\<close>

record ARPMessage =
  arp_hardware_type :: u16
  arp_protocol_type :: u16
  arp_hardware_address_size :: u8
  arp_protocol_address_size :: u8
  arp_opcode :: u16
  arp_sender_ethernet_address :: EthernetAddress
  arp_sender_ip_address :: u32
  arp_target_ethernet_address :: EthernetAddress
  arp_target_ip_address :: u32

abbreviation ARP_LENGTH :: nat where "ARP_LENGTH \<equiv> 28"
abbreviation TYPE_ETHERNET :: u16 where "TYPE_ETHERNET \<equiv> 1"
abbreviation OPCODE_REQUEST :: u16 where "OPCODE_REQUEST \<equiv> 1"
abbreviation OPCODE_REPLY :: u16 where "OPCODE_REPLY \<equiv> 2"

definition arp_default :: ARPMessage where
  "arp_default = \<lparr>arp_hardware_type = TYPE_ETHERNET, arp_protocol_type = TYPE_IPv4,
     arp_hardware_address_size = 6, arp_protocol_address_size = 4, arp_opcode = 0,
     arp_sender_ethernet_address = replicate 6 0, arp_sender_ip_address = 0,
     arp_target_ethernet_address = replicate 6 0, arp_target_ip_address = 0\<rparr>"

definition arp_supported :: "ARPMessage \<Rightarrow> bool" where
  "arp_supported m \<longleftrightarrow> arp_hardware_type m = TYPE_ETHERNET \<and> arp_protocol_type m = TYPE_IPv4 \<and>
     arp_hardware_address_size m = 6 \<and> arp_protocol_address_size m = 4 \<and>
     (arp_opcode m = OPCODE_REQUEST \<or> arp_opcode m = OPCODE_REPLY)"

definition arp_parse :: "ARPMessage \<Rightarrow> bytes \<Rightarrow> ARPMessage \<times> ParseResult" where
  "arp_parse m buffer =
     (let p = np_new buffer in
      if length (np_buffer p) < ARP_LENGTH then (m, PacketTooShort)
      else case np_u16 p of (hw, p) \<Rightarrow>
           case np_u16 p of (proto, p) \<Rightarrow>
           case np_u8 p of (hsize, p) \<Rightarrow>
           case np_u8 p of (psize, p) \<Rightarrow>
           case np_u16 p of (opcode, p) \<Rightarrow>
             (let m' = m\<lparr>arp_hardware_type := hw, arp_protocol_type := proto,
                         arp_hardware_address_size := hsize, arp_protocol_address_size := psize,
                         arp_opcode := opcode\<rparr>
              in if \<not> arp_supported m' then (m', Unsupported)
                 else case np_array 6 p of (sender_eth, p) \<Rightarrow>
                      case np_u32 p of (sender_ip, p) \<Rightarrow>
                      case np_array 6 p of (target_eth, p) \<Rightarrow>
                      case np_u32 p of (target_ip, p) \<Rightarrow>
                        (m'\<lparr>arp_sender_ethernet_address := sender_eth, arp_sender_ip_address := sender_ip,
                            arp_target_ethernet_address := target_eth,
                            arp_target_ip_address := target_ip\<rparr>, np_error p)))"

definition arp_serialize :: "ARPMessage \<Rightarrow> bytes option" where
  "arp_serialize m =
     (if \<not> arp_supported m then None
      else let ret = unparse_u16 [] (arp_hardware_type m);
               ret = unparse_u16 ret (arp_protocol_type m);
               ret = unparse_u8 ret (arp_hardware_address_size m);
               ret = unparse_u8 ret (arp_protocol_address_size m);
               ret = unparse_u16 ret (arp_opcode m);
               ret = unparse_array ret (arp_sender_ethernet_address m);
               ret = unparse_u32 ret (arp_sender_ip_address m);
               ret = unparse_array ret (arp_target_ethernet_address m);
               ret = unparse_u32 ret (arp_target_ip_address m)
           in Some ret)"

section \<open>Wire form\<close>

definition eh_wf :: "EthernetHeader \<Rightarrow> bool" where
  "eh_wf h \<longleftrightarrow> length (eh_dst h) = 6 \<and> length (eh_src h) = 6"

definition arp_wf :: "ARPMessage \<Rightarrow> bool" where
  "arp_wf m \<longleftrightarrow> length (arp_sender_ethernet_address m) = 6 \<and> length (arp_target_ethernet_address m) = 6"

lemma eh_serialize_eq: "eh_serialize h = eh_dst h @ eh_src h @ be16 (eh_type h)"
  by (simp add: eh_serialize_def Let_def wire)

lemma eh_parse_wire:
  assumes "eh_wf h"
  shows "eh_parse h0 (np_new (eh_serialize h @ rest)) = (h, np_new rest, NoError)"
proof -
  have d: "length (eh_dst h) = 6" and s: "length (eh_src h) = 6" using assms by (auto simp: eh_wf_def)
  have "\<not> length (eh_serialize h @ rest) < ETH_LENGTH" using d s by (simp add: eh_serialize_eq)
  then show ?thesis
    unfolding eh_parse_def np_new_def eh_serialize_eq append_assoc np_array_code[OF d] np_array_code[OF s]
      np_get prod.case by simp
qed

lemma ef_parse_serialize:
  assumes "eh_wf (ef_header f)"
  shows "ef_parse f0 (concat (ef_serialize f)) =
    (\<lparr>ef_header = ef_header f, ef_payload = [concat (ef_payload f)]\<rparr>, NoError)"
  using eh_parse_wire[OF assms] by (simp add: ef_parse_def ef_serialize_def) (simp add: np_new_def)

lemma arp_serialize_eq:
  "arp_supported m \<Longrightarrow> arp_serialize m =
     Some (be16 (arp_hardware_type m) @ be16 (arp_protocol_type m) @ be8 (arp_hardware_address_size m) @
       be8 (arp_protocol_address_size m) @ be16 (arp_opcode m) @ arp_sender_ethernet_address m @
       be32 (arp_sender_ip_address m) @ arp_target_ethernet_address m @ be32 (arp_target_ip_address m))"
  by (simp add: arp_serialize_def Let_def wire)

lemma arp_parse_serialize:
  assumes "arp_supported m" "arp_wf m"
  obtains bs where "arp_serialize m = Some bs" "length bs = 28" "arp_parse m0 (bs @ rest) = (m, NoError)"
proof -
  have s: "length (arp_sender_ethernet_address m) = 6" and t: "length (arp_target_ethernet_address m) = 6"
    using assms(2) by (auto simp: arp_wf_def)
  let ?bs = "be16 (arp_hardware_type m) @ be16 (arp_protocol_type m) @ be8 (arp_hardware_address_size m) @
       be8 (arp_protocol_address_size m) @ be16 (arp_opcode m) @ arp_sender_ethernet_address m @
       be32 (arp_sender_ip_address m) @ arp_target_ethernet_address m @ be32 (arp_target_ip_address m)"
  have len: "length ?bs = 28" using s t by simp
  have "arp_parse m0 (?bs @ rest) = (m, NoError)"
    unfolding arp_parse_def np_new_def append_assoc np_get prod.case Let_def np_array_code[OF s]
      np_array_code[OF t]
    using assms(1) s t by (simp add: arp_supported_def)
  then show thesis using that len arp_serialize_eq[OF assms(1)] by blast
qed

definition ef_same :: "EthernetFrame \<Rightarrow> EthernetFrame \<Rightarrow> bool" where
  "ef_same f g \<longleftrightarrow> g = \<lparr>ef_header = ef_header f, ef_payload = [concat (ef_payload f)]\<rparr>"

interpretation ethernet: wire_format ef_parse "\<lambda>f. Some (ef_serialize f)" "\<lambda>f. eh_wf (ef_header f)" ef_same
  by unfold_locales (simp add: ef_parse_serialize ef_same_def)

interpretation arp: wire_format arp_parse "\<lambda>m. map_option (\<lambda>bs. [bs]) (arp_serialize m)"
    "\<lambda>m. arp_supported m \<and> arp_wf m" "(=)"
proof
  fix m m0 assume "arp_supported m \<and> arp_wf m"
  then show "\<exists>bl y. map_option (\<lambda>bs. [bs]) (arp_serialize m) = Some bl \<and>
      arp_parse m0 (concat bl) = (y, NoError) \<and> m = y"
    using arp_parse_serialize[of m m0 "[]"] by force
qed

section \<open>Properties\<close>

text \<open>C19: A frame is read back from its wire form with the same header and payload bytes, and a
  supported ARP message is read back unchanged from its 28 bytes, also when padding follows.\<close>

theorem ethernet_arp_roundtrip:
  assumes "eh_wf (ef_header f)" "arp_supported m" "arp_wf m"
  shows "ef_parse f0 (concat (ef_serialize f)) =
      (\<lparr>ef_header = ef_header f, ef_payload = [concat (ef_payload f)]\<rparr>, NoError) \<and>
    (\<exists>bs. arp_serialize m = Some bs \<and> length bs = 28 \<and> arp_parse m0 (bs @ padding) = (m, NoError))"
  using ef_parse_serialize[OF assms(1)] arp_parse_serialize[OF assms(2,3)] by metis

theorem ethernet_arp_roundtrip_witness:
  "ef_parse ef_default (concat (ef_serialize (ef_default\<lparr>ef_payload := [[1], [2]]\<rparr>))) =
      (ef_default\<lparr>ef_payload := [[1, 2]]\<rparr>, NoError) \<and>
    (\<exists>bs. arp_serialize (arp_default\<lparr>arp_opcode := 2\<rparr>) = Some bs \<and> length bs = 28 \<and>
      arp_parse arp_default (bs @ [0, 0]) = (arp_default\<lparr>arp_opcode := 2\<rparr>, NoError))"
  using ethernet_arp_roundtrip[of "ef_default\<lparr>ef_payload := [[1], [2]]\<rparr>" "arp_default\<lparr>arp_opcode := 2\<rparr>"
      ef_default arp_default "[0, 0]"]
  by (simp add: ef_default_def eh_default_def eh_wf_def arp_supported_def arp_wf_def arp_default_def)

text \<open>\<open>EthernetFrame::parse\<close> discards the result of the header parser, which reports a frame that
  is too short without recording it in the parser: a frame of fewer than 14 bytes is accepted,
  with the header the object had before and all bytes as payload.\<close>

lemma short_frame_accepted:
  assumes "length buffer < 14"
  shows "snd (snd (eh_parse (ef_header f) (np_new buffer))) = PacketTooShort \<and>
    ef_parse f buffer = (\<lparr>ef_header = ef_header f, ef_payload = [buffer]\<rparr>, NoError)"
  using assms by (simp add: ef_parse_def eh_parse_def np_new_def)

end
