(* ===== verification/Text_Output.thy ===== *)
theory Text_Output
  imports TCP_Segment IPv4_Datagram Ethernet_ARP
begin

text \<open>
  Text that the library prints: numbers in a base, as the output streams write them, the functions
  \<open>to_string\<close> and \<open>summary\<close> of the packet headers (\<^verbatim>\<open>tcp_header.cc\<close>, \<^verbatim>\<open>ipv4_header.cc\<close>,
  \<^verbatim>\<open>ethernet_header.cc\<close>, \<^verbatim>\<open>arp_message.cc\<close>) and \<open>hexdump\<close> of \<^verbatim>\<open>util/util.cc\<close>. A stream is the string
  written so far; the manipulators \<^verbatim>\<open>hex\<close>, \<^verbatim>\<open>boolalpha\<close>, \<^verbatim>\<open>setw\<close> and \<^verbatim>\<open>setfill\<close> choose the printing function.

  The numbers can be read back from the text, so different values never look the same.
\<close>

section \<open>Numbers\<close>

definition digit_char :: "nat \<Rightarrow> char" where
  "digit_char d = (if d < 10 then char_of (48 + d) else char_of (87 + d))"

definition digit_value :: "char \<Rightarrow> nat" where
  "digit_value c = (let n = of_char c in if n < 58 then n - 48 else n - 87)"

fun show_base :: "nat \<Rightarrow> nat \<Rightarrow> string" where
  "show_base b n = (if b < 2 \<or> n < b then [digit_char n] else show_base b (n div b) @ [digit_char (n mod b)])"

declare show_base.simps [simp del]

definition show_dec :: "nat \<Rightarrow> string" where "show_dec n = show_base 10 n"
definition show_hex :: "nat \<Rightarrow> string" where "show_hex n = show_base 16 n"

definition pad_left :: "nat \<Rightarrow> char \<Rightarrow> string \<Rightarrow> string" where
  "pad_left w fill s = replicate (w - length s) fill @ s"

definition show_boolalpha :: "bool \<Rightarrow> string" where
  "show_boolalpha b = (if b then ''true'' else ''false'')"

definition NL :: string where "NL = [CHR 0x0A]"

section \<open>Reading numbers back\<close>

definition read_base :: "nat \<Rightarrow> string \<Rightarrow> nat" where
  "read_base b s = foldl (\<lambda>n c. n * b + digit_value c) 0 s"

lemma digit_value_char [simp]: "d < 16 \<Longrightarrow> digit_value (digit_char d) = d"
  by (simp add: digit_value_def digit_char_def Let_def)

lemma show_base_small: "n < b \<Longrightarrow> show_base b n = [digit_char n]"
  by (simp add: show_base.simps)

lemma show_base_large: "2 \<le> b \<Longrightarrow> b \<le> n \<Longrightarrow> show_base b n = show_base b (n div b) @ [digit_char (n mod b)]"
  by (subst show_base.simps) simp

lemma read_show_base: "2 \<le> b \<Longrightarrow> b \<le> 16 \<Longrightarrow> read_base b (show_base b n) = n"
proof (induction b n rule: show_base.induct)
  case (1 b n)
  show ?case
  proof (cases "n < b")
    case True
    then show ?thesis using 1 by (simp add: show_base_small read_base_def)
  next
    case False
    then have "read_base b (show_base b (n div b)) = n div b" using 1 by simp
    moreover have "n mod b < 16" using 1(2,3) mod_less_divisor[of b n] by linarith
    ultimately show ?thesis using 1(2) False by (simp add: show_base_large read_base_def)
  qed
qed

lemma show_base_inject: "2 \<le> b \<Longrightarrow> b \<le> 16 \<Longrightarrow> show_base b m = show_base b n \<longleftrightarrow> m = n"
  by (metis read_show_base)

lemma show_dec_inject [simp]: "show_dec m = show_dec n \<longleftrightarrow> m = n"
  and show_hex_inject [simp]: "show_hex m = show_hex n \<longleftrightarrow> m = n"
  by (simp_all add: show_dec_def show_hex_def show_base_inject)

lemma of_char_digit: "d < 16 \<Longrightarrow> of_char (digit_char d) = (if d < 10 then 48 + d else 87 + d)"
  by (simp add: digit_char_def)

lemma digit_char_0 [simp]: "digit_char 0 = CHR ''0''"
  by code_simp

lemma digit_char_not:
  assumes "d < 16"
  shows "digit_char d \<noteq> CHR ''.''" "digit_char d \<noteq> CHR '':''"
  using of_char_digit[OF assms] assms by (auto split: if_splits)

lemma show_base_chars: "2 \<le> b \<Longrightarrow> c \<in> set (show_base b n) \<Longrightarrow> \<exists>d<b. c = digit_char d"
proof (induction b n rule: show_base.induct)
  case (1 b n)
  show ?case
  proof (cases "n < b")
    case True
    then show ?thesis using 1 by (auto simp: show_base_small intro: exI[of _ n])
  next
    case False
    have "n mod b < b" using 1(2) by simp
    then show ?thesis using 1 False by (auto simp: show_base_large intro: exI[of _ "n mod b"])
  qed
qed

text \<open>Two hexadecimal digits are enough for a byte.\<close>

lemma show_hex_byte:
  assumes "n < 256"
  shows "pad_left 2 CHR ''0'' (show_hex n) = [digit_char (n div 16), digit_char (n mod 16)]"
proof (cases "n < 16")
  case True
  then show ?thesis by (simp add: show_hex_def show_base_small pad_left_def)
next
  case False
  then have "show_hex n = [digit_char (n div 16), digit_char (n mod 16)]"
    using assms by (simp add: show_hex_def show_base_large show_base_small)
  then show ?thesis by (simp add: pad_left_def)
qed

section \<open>Addresses\<close>

definition wi_show :: "(nat \<Rightarrow> string) \<Rightarrow> WrappingInt32 \<Rightarrow> string" where
  "wi_show number a = number (unat (raw_value a))"

text \<open>\<open>inet_ntoa\<close> of an address given in host order.\<close>

definition inet_ntoa :: "u32 \<Rightarrow> string" where
  "inet_ntoa a =
     show_dec (unat (drop_bit 24 a)) @ ''.'' @ show_dec (unat (take_bit 8 (drop_bit 16 a))) @ ''.'' @
     show_dec (unat (take_bit 8 (drop_bit 8 a))) @ ''.'' @ show_dec (unat (take_bit 8 a))"

fun eth_to_string :: "EthernetAddress \<Rightarrow> string" where
  "eth_to_string [] = []"
| "eth_to_string [b] = pad_left 2 CHR ''0'' (show_hex (unat b))"
| "eth_to_string (b # address) = pad_left 2 CHR ''0'' (show_hex (unat b)) @ '':'' @ eth_to_string address"

section \<open>Headers\<close>

definition th_to_string :: "TCPHeader \<Rightarrow> string" where
  "th_to_string h =
     ''TCP source port: '' @ show_hex (unat (th_sport h)) @ NL @
     ''TCP dest port: '' @ show_hex (unat (th_dport h)) @ NL @
     ''TCP seqno: '' @ wi_show show_hex (th_seqno h) @ NL @
     ''TCP ackno: '' @ wi_show show_hex (th_ackno h) @ NL @
     ''TCP doff: '' @ show_hex (unat (th_doff h)) @ NL @
     ''Flags: urg: '' @ show_boolalpha (th_urg h) @ '' ack: '' @ show_boolalpha (th_ack h) @
     '' psh: '' @ show_boolalpha (th_psh h) @ '' rst: '' @ show_boolalpha (th_rst h) @
     '' syn: '' @ show_boolalpha (th_syn h) @ '' fin: '' @ show_boolalpha (th_fin h) @ NL @
     ''TCP winsize: '' @ show_hex (unat (th_win h)) @ NL @
     ''TCP cksum: '' @ show_hex (unat (th_cksum h)) @ NL @
     ''TCP uptr: '' @ show_hex (unat (th_uptr h)) @ NL"

definition th_summary :: "TCPHeader \<Rightarrow> string" where
  "th_summary h =
     ''Header(flags='' @ (if th_syn h then ''S'' else []) @ (if th_ack h then ''A'' else []) @
     (if th_rst h then ''R'' else []) @ (if th_fin h then ''F'' else []) @
     '',seqno='' @ wi_show show_dec (th_seqno h) @ '',ack='' @ wi_show show_dec (th_ackno h) @
     '',win='' @ show_dec (unat (th_win h)) @ '')''"

definition ip_to_string :: "IPv4Header \<Rightarrow> string" where
  "ip_to_string h =
     ''IP version: '' @ show_hex (unat (ip_ver h)) @ NL @
     ''IP hdr len: '' @ show_hex (unat (ip_hlen h)) @ NL @
     ''IP tos: '' @ show_hex (unat (ip_tos h)) @ NL @
     ''IP dgram len: '' @ show_hex (unat (ip_len h)) @ NL @
     ''IP id: '' @ show_hex (unat (ip_id h)) @ NL @
     ''Flags: df: '' @ show_boolalpha (ip_df h) @ '' mf: '' @ show_boolalpha (ip_mf h) @ NL @
     ''Offset: '' @ show_hex (unat (ip_offset h)) @ NL @
     ''TTL: '' @ show_hex (unat (ip_ttl h)) @ NL @
     ''Protocol: '' @ show_hex (unat (ip_proto h)) @ NL @
     ''Checksum: '' @ show_hex (unat (ip_cksum h)) @ NL @
     ''Src addr: '' @ show_hex (unat (ip_src h)) @ NL @
     ''Dst addr: '' @ show_hex (unat (ip_dst h)) @ NL"

definition ip_summary :: "IPv4Header \<Rightarrow> string" where
  "ip_summary h =
     ''IPv'' @ show_hex (unat (ip_ver h)) @ '', '' @ ''len='' @ show_hex (unat (ip_len h)) @ '', '' @
     ''protocol='' @ show_hex (unat (ip_proto h)) @ '', '' @
     (if ip_ttl h \<ge> 10 then [] else ''ttl='' @ show_dec (unat (ip_ttl h)) @ '', '') @
     ''src='' @ inet_ntoa (ip_src h) @ '', '' @ ''dst='' @ inet_ntoa (ip_dst h)"

definition eh_to_string :: "EthernetHeader \<Rightarrow> string" where
  "eh_to_string h =
     ''dst='' @ eth_to_string (eh_dst h) @ '', src='' @ eth_to_string (eh_src h) @ '', type='' @
     (if eh_type h = TYPE_IPv4 then ''IPv4''
      else if eh_type h = TYPE_ARP then ''ARP''
      else ''[unknown type '' @ show_hex (unat (eh_type h)) @ ''!]'')"

definition arp_to_string :: "ARPMessage \<Rightarrow> string" where
  "arp_to_string m =
     (let opcode_str = ''(unknown type)'';
          opcode_str = (if arp_opcode m = OPCODE_REQUEST then ''REQUEST'' else opcode_str);
          opcode_str = (if arp_opcode m = OPCODE_REPLY then ''REPLY'' else opcode_str)
      in ''opcode='' @ opcode_str @ '', sender='' @ eth_to_string (arp_sender_ethernet_address m) @ ''/'' @
         inet_ntoa (arp_sender_ip_address m) @ '', target='' @
         eth_to_string (arp_target_ethernet_address m) @ ''/'' @ inet_ntoa (arp_target_ip_address m))"

section \<open>Hexdump\<close>

text \<open>A string stream that was constructed with a content writes over it from the start: \<open>(s, k)\<close> is the
  content and the position of the next character.\<close>

fun ss_put :: "char \<Rightarrow> string \<times> nat \<Rightarrow> string \<times> nat" where
  "ss_put c (s, k) = (take k s @ [c] @ drop (Suc k) s, Suc k)"

definition is_print :: "u8 \<Rightarrow> bool" where
  "is_print b \<longleftrightarrow> 32 \<le> b \<and> b < 127"

fun hexdump_loop :: "bytes \<Rightarrow> string \<Rightarrow> nat \<Rightarrow> string \<times> nat \<Rightarrow> string \<Rightarrow> string \<times> nat \<times> (string \<times> nat)" where
  "hexdump_loop [] indent_string printed pchars out = (out, printed, pchars)"
| "hexdump_loop (b # data) indent_string printed pchars out =
     (case (if printed mod 16 = 0 then
              (case (if printed \<noteq> 0 then (out @ ''    '' @ fst pchars @ NL, ('' '', 0))
                     else (out, pchars)) of (out1, pchars1) \<Rightarrow>
                 (out1 @ indent_string @ pad_left 8 CHR ''0'' (show_hex printed) @ '':    '', pchars1))
            else if printed mod 2 = 0 then (out @ '' '', pchars)
            else (out, pchars)) of (out2, pchars2) \<Rightarrow>
        hexdump_loop data indent_string (printed + 1)
          (ss_put (if is_print b then char_of (unat b) else CHR ''.'') pchars2)
          (out2 @ pad_left 2 CHR ''0'' (show_hex (unat b))))"

definition hexdump :: "bytes \<Rightarrow> nat \<Rightarrow> string" where
  "hexdump data indent =
     (case hexdump_loop data (replicate indent CHR '' '') 0 ('' '', 0) [] of (out, printed, pchars) \<Rightarrow>
        (let print_rem = (16 - printed mod 16) mod 16
         in out @ replicate (2 * print_rem + print_rem div 2 + 4) CHR '' '' @ fst pchars @ NL @ NL))"

section \<open>Text tells values apart\<close>

lemma separated_inject:
  "c \<notin> set xs \<Longrightarrow> c \<notin> set xs' \<Longrightarrow> xs @ c # ys = xs' @ c # ys' \<longleftrightarrow> xs = xs' \<and> ys = ys'"
proof (induction xs arbitrary: xs')
  case Nil
  then show ?case by (cases xs') auto
next
  case (Cons x xs)
  then show ?case by (cases xs') auto
qed

lemma dot_not_in_dec [simp]: "CHR ''.'' \<notin> set (show_dec n)"
proof
  assume "CHR ''.'' \<in> set (show_dec n)"
  then obtain d where "d < 10" "CHR ''.'' = digit_char d"
    using show_base_chars[of 10 "CHR ''.''" n] by (auto simp: show_dec_def)
  then show False using digit_char_not(1)[of d] by simp
qed

lemma inet_ntoa_inject: "inet_ntoa a = inet_ntoa b \<longleftrightarrow> a = b"
proof
  assume "inet_ntoa a = inet_ntoa b"
  then have e: "unat (drop_bit 24 a) = unat (drop_bit 24 b)"
    "unat (take_bit 8 (drop_bit 16 a)) = unat (take_bit 8 (drop_bit 16 b))"
    "unat (take_bit 8 (drop_bit 8 a)) = unat (take_bit 8 (drop_bit 8 b))"
    "unat (take_bit 8 a) = unat (take_bit 8 b)"
    by (simp_all add: inet_ntoa_def separated_inject)
  show "a = b"
  proof (rule bit_word_eqI)
    fix n assume "n < LENGTH(32)"
    then consider "n < 8" | "8 \<le> n" "n < 16" | "16 \<le> n" "n < 24" | "24 \<le> n" "n < 32" by fastforce
    then show "bit a n = bit b n"
    proof cases
      case 1
      then show ?thesis using e(4) by (metis bit_take_bit_iff unsigned_word_eqI)
    next
      case 2
      then have "bit (take_bit 8 (drop_bit 8 x)) (n - 8) = bit x n" for x :: u32
        by (auto simp: bit_take_bit_iff bit_drop_bit_eq)
      then show ?thesis using e(3) by (metis unsigned_word_eqI)
    next
      case 3
      then have "bit (take_bit 8 (drop_bit 16 x)) (n - 16) = bit x n" for x :: u32
        by (auto simp: bit_take_bit_iff bit_drop_bit_eq)
      then show ?thesis using e(2) by (metis unsigned_word_eqI)
    next
      case 4
      then have "bit (drop_bit 24 x) (n - 24) = bit x n" for x :: u32
        by (auto simp: bit_drop_bit_eq)
      then show ?thesis using e(1) by (metis unsigned_word_eqI)
    qed
  qed
qed simp

lemma hex_byte_inject:
  "pad_left 2 CHR ''0'' (show_hex (unat (a :: u8))) = pad_left 2 CHR ''0'' (show_hex (unat b)) \<longleftrightarrow> a = b"
proof
  have lt: "unat x < 256" for x :: u8 using unsigned_less[of x, where ?'a = nat] by simp
  assume "pad_left 2 CHR ''0'' (show_hex (unat a)) = pad_left 2 CHR ''0'' (show_hex (unat b))"
  then have d: "digit_char (unat a div 16) = digit_char (unat b div 16)" "digit_char (unat a mod 16) = digit_char (unat b mod 16)"
    using lt[of a] lt[of b] by (simp_all add: show_hex_byte)
  have "unat x div 16 < 16" "unat x mod 16 < 16" for x :: u8 using lt[of x] by simp_all
  then have "unat a div 16 = unat b div 16" "unat a mod 16 = unat b mod 16"
    using arg_cong[OF d(1), of digit_value] arg_cong[OF d(2), of digit_value] by (simp_all only: digit_value_char)
  then have "unat a = unat b" by (metis div_mult_mod_eq)
  then show "a = b" by (rule unsigned_word_eqI)
qed simp

lemma length_hex_byte: "length (pad_left 2 CHR ''0'' (show_hex (unat (a :: u8)))) = 2"
proof -
  have "unat a < 256" using unsigned_less[of a, where ?'a = nat] by simp
  then show ?thesis by (simp add: show_hex_byte)
qed

lemma eth_to_string_inject:
  "length a = length b \<Longrightarrow> eth_to_string a = eth_to_string b \<longleftrightarrow> a = b"
proof (induction a arbitrary: b rule: eth_to_string.induct)
  case (2 x)
  then show ?case by (cases b rule: eth_to_string.cases) (auto simp: hex_byte_inject)
next
  case (3 x y xs)
  obtain x' y' xs' where b: "b = x' # y' # xs'" using 3(2) by (cases b rule: eth_to_string.cases) auto
  then show ?case using 3(2) "3.IH"[of "y' # xs'"] by (auto simp: length_hex_byte append_eq_append_conv hex_byte_inject)
qed simp

end
