(* ===== verification/File_Descriptor.thy ===== *)
theory File_Descriptor
  imports Effects Net_Buffer Text_Output
begin

text \<open>
  File descriptors (\<^verbatim>\<open>util/file_descriptor.hh\<close> and \<^verbatim>\<open>.cc\<close>) and the error-checking wrapper of system calls
  (\<^verbatim>\<open>util/util.cc\<close>). The kernel is a type of states, and each system call is an argument: it takes the
  call's parameters and the state of the kernel and gives the return value with \<^verbatim>\<open>errno\<close>, what it stores
  through pointers, and the new state. A computation runs on the shared \<open>FDWrapper\<close> and the kernel.

  The return value of a call goes through the \<open>int\<close> parameter of \<open>SystemCall\<close>; \<open>as_int\<close> is that
  conversion. Exceptions are values of \<open>sys_error\<close>, one constructor for each class of exceptions that
  the program throws; undefined behaviour is one more.
\<close>

section \<open>System calls\<close>

datatype sys_error = UnixError string int | TaggedError string int | RuntimeError string | OutOfRange
  | LengthError | InvalidArgument | BadOptional | UndefinedBehaviour

definition as_int :: "int \<Rightarrow> int" where
  "as_int r = signed_take_bit 31 r"

definition as_ssize :: "nat \<Rightarrow> int" where
  "as_ssize n = signed_take_bit 63 (int n)"

definition as_size :: "int \<Rightarrow> nat" where
  "as_size r = nat (take_bit 64 r)"

definition SystemCall :: "string \<Rightarrow> int \<times> int \<Rightarrow> int \<Rightarrow> sys_error + int" where
  "SystemCall attempt ret errno_mask =
     (case ret of (return_value, errno) \<Rightarrow>
        if as_int return_value \<ge> 0 \<or> errno = errno_mask then Inr (as_int return_value)
        else Inl (UnixError attempt errno))"

type_synonym ('w, 'a) syscall = "'w \<Rightarrow> (int \<times> int) \<times> 'a \<times> 'w"

section \<open>Model\<close>

record FDWrapper =
  fd_num :: int
  fd_eof :: bool
  fd_closed :: bool
  fd_read_count :: nat
  fd_write_count :: nat

type_synonym ('w, 'a) fd_eff = "(FDWrapper \<times> 'w, sys_error, 'a) eff"

text \<open>A call on the descriptor's number, checked.\<close>

definition fd_call :: "string \<Rightarrow> (int \<Rightarrow> ('w, 'a) syscall) \<Rightarrow> ('w, int \<times> 'a) fd_eff" where
  "fd_call attempt call s =
     (case s of (f, w) \<Rightarrow>
        (case call (fd_num f) w of (ret, a, w') \<Rightarrow>
           (case SystemCall attempt ret 0 of
              Inl e \<Rightarrow> (Inl e, f, w')
            | Inr r \<Rightarrow> (Inr (r, a), f, w'))))"

definition show_int :: "int \<Rightarrow> string" where
  "show_int i = (if i < 0 then ''-'' @ show_dec (nat (- i)) else show_dec (nat i))"

definition fd_wrapper :: "int \<Rightarrow> sys_error + FDWrapper" where
  "fd_wrapper fd =
     (if fd < 0 then Inl (RuntimeError (''invalid fd number:'' @ show_int fd))
      else Inr \<lparr>fd_num = fd, fd_eof = False, fd_closed = False, fd_read_count = 0, fd_write_count = 0\<rparr>)"

definition fd_update :: "(FDWrapper \<Rightarrow> FDWrapper) \<Rightarrow> ('w, unit) fd_eff" where
  "fd_update u = emodify (\<lambda>(f, w). (u f, w))"

definition register_read :: "FDWrapper \<Rightarrow> FDWrapper" where
  "register_read f = f\<lparr>fd_read_count := add32 (fd_read_count f) 1\<rparr>"

definition register_write :: "FDWrapper \<Rightarrow> FDWrapper" where
  "register_write f = f\<lparr>fd_write_count := add32 (fd_write_count f) 1\<rparr>"

definition fd_close :: "(int \<Rightarrow> ('w, unit) syscall) \<Rightarrow> ('w, unit) fd_eff" where
  "fd_close sys_close =
     eseq (fd_call ''close'' sys_close) (fd_update (\<lambda>f. f\<lparr>fd_eof := True, fd_closed := True\<rparr>))"

text \<open>The destructor of the wrapper swallows the exception.\<close>

definition fd_destroy :: "(int \<Rightarrow> ('w, unit) syscall) \<Rightarrow> FDWrapper \<times> 'w \<Rightarrow> FDWrapper \<times> 'w" where
  "fd_destroy sys_close s =
     (if fd_closed (fst s) then s
      else snd (fd_close sys_close s))"

abbreviation READ_BUFFER_SIZE :: nat where "READ_BUFFER_SIZE \<equiv> 1048576"

text \<open>The kernel stores \<open>data\<close> at the start of the string.\<close>

definition fd_read_into :: "(int \<Rightarrow> nat \<Rightarrow> ('w, bytes) syscall) \<Rightarrow> bytes \<Rightarrow> nat \<Rightarrow> ('w, bytes) fd_eff" where
  "fd_read_into sys_read str limit =
     (let size_to_read = min READ_BUFFER_SIZE limit;
          str = resize str size_to_read
      in ebind (fd_call ''read'' (\<lambda>fd. sys_read fd size_to_read)) (\<lambda>(bytes_read, data).
         eseq (ewhen (limit > 0 \<and> bytes_read = 0) (fd_update (\<lambda>f. f\<lparr>fd_eof := True\<rparr>)))
           (if bytes_read > int size_to_read then ethrow (RuntimeError ''read() read more than requested'')
            else if bytes_read < 0 then ethrow LengthError
            else eseq (fd_update register_read)
                   (ereturn (resize (data @ drop (length data) str) (nat bytes_read))))))"

definition fd_read :: "(int \<Rightarrow> nat \<Rightarrow> ('w, bytes) syscall) \<Rightarrow> nat \<Rightarrow> ('w, bytes) fd_eff" where
  "fd_read sys_read limit = fd_read_into sys_read [] limit"

text \<open>One round of the loop of \<open>write\<close>: what is left of the buffer and the number of bytes written.\<close>

definition fd_write_step :: "(int \<Rightarrow> (bytes \<times> nat) list \<Rightarrow> ('w, unit) syscall) \<Rightarrow> BufferViewList \<Rightarrow>
    ('w, BufferViewList \<times> nat) fd_eff" where
  "fd_write_step sys_writev buffer =
     ebind (fd_call ''writev'' (\<lambda>fd. sys_writev fd (bvl_as_iovecs buffer))) (\<lambda>(bytes_written, _).
       if bytes_written = 0 \<and> bvl_size buffer \<noteq> 0
       then ethrow (RuntimeError ''write returned 0 given non-empty input buffer'')
       else if bytes_written > as_ssize (bvl_size buffer)
       then ethrow (RuntimeError ''write wrote more than length of input buffer'')
       else eseq (fd_update register_write)
         (case bvl_remove_prefix buffer (as_size bytes_written) of
            None \<Rightarrow> ethrow OutOfRange
          | Some buffer' \<Rightarrow> ereturn (buffer', as_size bytes_written)))"

lemma as_size_pos: "- 9223372036854775808 \<le> r \<Longrightarrow> r < 9223372036854775808 \<Longrightarrow> as_size r = 0 \<Longrightarrow> r = 0"
proof (rule ccontr)
  assume r: "- 9223372036854775808 \<le> r" "r < 9223372036854775808" "as_size r = 0" "r \<noteq> 0"
  have "take_bit 64 r \<le> 0" using r(3) by (simp add: as_size_def)
  then have "take_bit 64 r = 0" by (rule antisym) simp
  then have "18446744073709551616 dvd r" by (simp add: take_bit_eq_mod dvd_eq_mod_eq_0)
  then show False using dvd_imp_le_int[OF r(4)] r(1,2) by fastforce
qed

lemma as_int_range: "- 2147483648 \<le> as_int r" "as_int r < 2147483648"
  using signed_take_bit_int_greater_eq_minus_exp[of 31 r] signed_take_bit_int_less_exp[of 31 r]
  by (simp_all add: as_int_def)

lemma as_int_id: "- 2147483648 \<le> r \<Longrightarrow> r < 2147483648 \<Longrightarrow> as_int r = r"
  unfolding as_int_def by (rule signed_take_bit_int_eq_self) simp_all

lemma fd_write_step_shrinks:
  assumes "fd_write_step sys_writev buffer s = (Inr (buffer', n), s')" "bvl_size buffer' \<noteq> 0"
  shows "length (concat buffer') < length (concat buffer)"
proof -
  obtain r where r: "bvl_remove_prefix buffer (as_size (as_int r)) = Some buffer'"
    "as_int r = 0 \<longrightarrow> bvl_size buffer = 0"
    using assms(1)
    by (fastforce simp: fd_write_step_def fd_call_def SystemCall_def ebind_def eseq_def fd_update_def eff
        split: prod.splits sum.splits if_splits option.splits)
  have "as_size (as_int r) \<noteq> 0"
  proof
    assume z: "as_size (as_int r) = 0"
    then have "as_int r = 0" using as_size_pos[of "as_int r"] as_int_range[of r] by simp
    moreover have "buffer' = buffer" using r(1) z by (cases buffer) auto
    ultimately show False using r(2) assms(2) by simp
  qed
  then show ?thesis using bvl_remove_prefix_concat[of buffer "as_size (as_int r)"] r(1) by auto
qed

function fd_write_loop :: "(int \<Rightarrow> (bytes \<times> nat) list \<Rightarrow> ('w, unit) syscall) \<Rightarrow> bool \<Rightarrow> BufferViewList \<Rightarrow> nat \<Rightarrow>
    ('w, nat) fd_eff" where
  "fd_write_loop sys_writev write_all buffer total_bytes_written s =
     (case fd_write_step sys_writev buffer s of
        (Inl e, s') \<Rightarrow> (Inl e, s')
      | (Inr (buffer', n), s') \<Rightarrow>
          (let total_bytes_written = add64 total_bytes_written n
           in if write_all \<and> bvl_size buffer' \<noteq> 0
              then fd_write_loop sys_writev write_all buffer' total_bytes_written s'
              else (Inr total_bytes_written, s')))"
  by pat_completeness auto
termination
  by (relation "measure (\<lambda>(_, _, buffer, _, _). length (concat buffer))")
    (auto dest: fd_write_step_shrinks[OF sym])

declare fd_write_loop.simps [simp del]

definition fd_write :: "(int \<Rightarrow> (bytes \<times> nat) list \<Rightarrow> ('w, unit) syscall) \<Rightarrow> BufferViewList \<Rightarrow> bool \<Rightarrow> ('w, nat) fd_eff" where
  "fd_write sys_writev buffer write_all = fd_write_loop sys_writev write_all buffer 0"

definition fd_write_string :: "(int \<Rightarrow> (bytes \<times> nat) list \<Rightarrow> ('w, unit) syscall) \<Rightarrow> bytes \<Rightarrow> bool \<Rightarrow> ('w, nat) fd_eff" where
  "fd_write_string sys_writev str write_all = fd_write sys_writev (bvl_of_string str) write_all"

abbreviation O_NONBLOCK :: int where "O_NONBLOCK \<equiv> 2048"

definition fd_set_blocking :: "(int \<Rightarrow> ('w, unit) syscall) \<Rightarrow> (int \<Rightarrow> int \<Rightarrow> ('w, unit) syscall) \<Rightarrow> bool \<Rightarrow> ('w, unit) fd_eff" where
  "fd_set_blocking sys_getfl sys_setfl blocking_state =
     ebind (fd_call ''fcntl'' sys_getfl) (\<lambda>(flags, _).
       let flags = (if blocking_state then flags XOR (flags AND O_NONBLOCK) else flags OR O_NONBLOCK)
       in eseq (fd_call ''fcntl'' (\<lambda>fd. sys_setfl fd flags)) (ereturn ()))"

section \<open>What operations keep of the wrapper\<close>

definition fd_keeps :: "(FDWrapper \<Rightarrow> bool) \<Rightarrow> ('w, 'a) fd_eff \<Rightarrow> bool" where
  "fd_keeps P = ekeeps (\<lambda>(f, w). P f)"

lemma fd_keeps_call [intro]: "fd_keeps P (fd_call attempt call)"
  by (auto simp: fd_keeps_def ekeeps_def fd_call_def split: prod.splits sum.splits)

lemma fd_keeps_update [intro]: "(\<And>f. P f \<Longrightarrow> P (u f)) \<Longrightarrow> fd_keeps P (fd_update u)"
  by (auto simp: fd_keeps_def ekeeps_def fd_update_def eff)

lemma fd_keeps_eff [intro]:
  "fd_keeps P (ereturn a)" "fd_keeps P (ethrow e)" "fd_keeps P (eresult r)"
  "fd_keeps P m \<Longrightarrow> (\<And>a. fd_keeps P (g a)) \<Longrightarrow> fd_keeps P (ebind m g)"
  "fd_keeps P m \<Longrightarrow> fd_keeps P n \<Longrightarrow> fd_keeps P (eseq m n)"
  "fd_keeps P k \<Longrightarrow> fd_keeps P (ewhen b k)"
  unfolding fd_keeps_def by blast+

lemma fd_keepsD: "fd_keeps P m \<Longrightarrow> m (f, w) = (r, (f', w')) \<Longrightarrow> P f \<Longrightarrow> P f'"
  unfolding fd_keeps_def using ekeepsD by fastforce

lemma fd_keeps_write_step:
  assumes "\<And>f. P f \<Longrightarrow> P (register_write f)"
  shows "fd_keeps P (fd_write_step sys_writev buffer)"
  unfolding fd_write_step_def
  by (intro fd_keeps_eff fd_keeps_call, simp split: prod.split option.split)
    (auto intro!: fd_keeps_eff fd_keeps_update assms)

lemma fd_keeps_write:
  assumes "\<And>f. P f \<Longrightarrow> P (register_write f)"
  shows "fd_keeps P (fd_write sys_writev buffer write_all)"
proof -
  have "P f \<Longrightarrow> P (fst (snd (fd_write_loop sys_writev write_all buffer n (f, w))))" for f w n
  proof (induction "length (concat buffer)" arbitrary: buffer n f w rule: less_induct)
    case less
    obtain r f' w' where st: "fd_write_step sys_writev buffer (f, w) = (r, (f', w'))" by (metis prod_cases3)
    have "fd_keeps P (fd_write_step sys_writev buffer)" by (rule fd_keeps_write_step) (rule assms)
    from fd_keepsD[OF this st less.prems] have "P f'" .
    then show ?case
      using less.hyps fd_write_step_shrinks st
      by (subst fd_write_loop.simps) (fastforce simp: Let_def split: sum.splits prod.splits)
  qed
  then show ?thesis by (auto simp: fd_keeps_def ekeeps_def fd_write_def split_beta)
qed

lemma add32_neq: "add32 n 1 \<noteq> n"
proof
  assume n: "add32 n 1 = n"
  then have "n < two32" using add32_less[of n 1] by simp
  then show False using n by (cases "n = 4294967295") (simp_all add: add32_def)
qed

lemma fd_read_counts:
  assumes "fd_read sys_read limit (f, w) = (Inr data, (f', w'))"
  shows "fd_read_count f' = add32 (fd_read_count f) 1"
  using assms
  by (auto simp: fd_read_def fd_read_into_def fd_call_def ebind_def eseq_def ewhen_def fd_update_def eff register_read_def Let_def
      split: prod.splits sum.splits if_splits)

lemma fd_keeps_read:
  assumes "\<And>f. P f \<Longrightarrow> P (register_read f)" "\<And>f. P f \<Longrightarrow> P (f\<lparr>fd_eof := True\<rparr>)"
  shows "fd_keeps P (fd_read sys_read limit)"
  unfolding fd_read_def fd_read_into_def Let_def
  by (intro fd_keeps_eff fd_keeps_call, simp split: prod.split)
    (auto intro!: fd_keeps_eff fd_keeps_update assms)

section \<open>Writing to a kernel that makes progress\<close>

text \<open>What \<^verbatim>\<open>writev(2)\<close> documents for a descriptor on which no error occurs: it takes a part of the data,
  at least one byte unless there is none, and the bytes it takes are added to those written before.\<close>

definition writev_progress :: "('w \<Rightarrow> bytes) \<Rightarrow> (int \<Rightarrow> (bytes \<times> nat) list \<Rightarrow> ('w, unit) syscall) \<Rightarrow> int \<Rightarrow> bool" where
  "writev_progress written sys_writev fd \<longleftrightarrow>
     (\<forall>iov w. \<exists>n errno w'. sys_writev fd iov w = ((int n, errno), (), w') \<and>
        n \<le> length (concat (map fst iov)) \<and> n < 2147483648 \<and>
        (concat (map fst iov) \<noteq> [] \<longrightarrow> 0 < n) \<and>
        written w' = written w @ take n (concat (map fst iov)))"

lemma as_ssize_id: "n < 9223372036854775808 \<Longrightarrow> as_ssize n = int n"
  unfolding as_ssize_def by (rule signed_take_bit_int_eq_self) simp_all

lemma as_size_int: "n < 9223372036854775808 \<Longrightarrow> as_size (int n) = n"
  using take_bit_int_eq_self[of "int n" 64] by (simp add: as_size_def)

lemma iovecs_bytes: "map fst (bvl_as_iovecs buffer) = buffer"
  by (simp add: bvl_as_iovecs_def comp_def)

lemma fd_write_step_progress:
  assumes "writev_progress written sys_writev (fd_num f)" "length (concat buffer) < 9223372036854775808"
  obtains buffer' n w' where
    "fd_write_step sys_writev buffer (f, w) = (Inr (buffer', n), register_write f, w')"
    "concat buffer' = drop n (concat buffer)" "n \<le> length (concat buffer)" "concat buffer \<noteq> [] \<longrightarrow> 0 < n"
    "written w' = written w @ take n (concat buffer)"
proof -
  obtain n errno w' where c: "sys_writev (fd_num f) (bvl_as_iovecs buffer) w = ((int n, errno), (), w')"
      "n \<le> length (concat buffer)" "n < 2147483648" "concat buffer \<noteq> [] \<longrightarrow> 0 < n"
      "written w' = written w @ take n (concat buffer)"
    using assms(1) unfolding writev_progress_def by (metis iovecs_bytes)
  obtain buffer' where b: "bvl_remove_prefix buffer n = Some buffer'" "concat buffer' = drop n (concat buffer)"
    using bvl_remove_prefix_concat[of buffer n] c(2) by (auto split: option.splits)
  have size: "bvl_size buffer = length (concat buffer)" by (rule bvl_size_eq) (use assms(2) in simp)
  have "SystemCall ''writev'' (int n, errno) 0 = Inr (int n)"
    using c(3) by (simp add: SystemCall_def as_int_id)
  then have call: "fd_call ''writev'' (\<lambda>fd. sys_writev fd (bvl_as_iovecs buffer)) (f, w) = (Inr (int n, ()), f, w')"
    by (simp add: fd_call_def c(1))
  have "\<not> (int n = 0 \<and> bvl_size buffer \<noteq> 0)" using c(4) size by auto
  moreover have "\<not> int n > as_ssize (bvl_size buffer)" using as_ssize_id[OF assms(2)] size c(2) by simp
  moreover have "as_size (int n) = n" using c(3) by (simp add: as_size_int)
  ultimately have "fd_write_step sys_writev buffer (f, w) = (Inr (buffer', n), register_write f, w')"
    by (simp add: fd_write_step_def ebind_def call b(1) fd_update_def eseq_def eff)
  then show ?thesis using that b(2) c(2,4,5) by blast
qed

lemma fd_write_loop_progress:
  assumes "writev_progress written sys_writev (fd_num f)" "tot + length (concat buffer) < 9223372036854775808"
  shows "\<exists>k w'. fd_write_loop sys_writev True buffer tot (f, w) =
      (Inr (tot + length (concat buffer)), f\<lparr>fd_write_count := k\<rparr>, w') \<and>
    written w' = written w @ concat buffer"
  using assms
proof (induction "length (concat buffer)" arbitrary: buffer tot f w rule: less_induct)
  case less
  have len: "length (concat buffer) < 9223372036854775808" using less.prems(2) by simp
  obtain buffer' n w' where st: "fd_write_step sys_writev buffer (f, w) = (Inr (buffer', n), register_write f, w')"
      "concat buffer' = drop n (concat buffer)" "n \<le> length (concat buffer)" "concat buffer \<noteq> [] \<longrightarrow> 0 < n"
      "written w' = written w @ take n (concat buffer)"
    using fd_write_step_progress[OF less.prems(1) len, of w] by metis
  have sum: "add64 tot n = tot + n" using less.prems(2) st(3) by (simp add: no_wrap)
  have size: "bvl_size buffer' = length (concat buffer')"
    by (rule bvl_size_eq) (use st(2) len in simp)
  show ?case
  proof (cases "concat buffer' = []")
    case True
    then have "n = length (concat buffer)" using st(2,3) by simp
    then have "fd_write_loop sys_writev True buffer tot (f, w) =
        (Inr (tot + length (concat buffer)), register_write f, w')"
      using st(1) size True sum by (subst fd_write_loop.simps) simp
    then show ?thesis using st(5) \<open>n = length (concat buffer)\<close> by (auto simp: register_write_def)
  next
    case False
    have pos: "0 < n" using st(4) False st(2) by force
    then have lt: "length (concat buffer') < length (concat buffer)" using st(2,3) False by auto
    have "writev_progress written sys_writev (fd_num (register_write f))"
      using less.prems(1) by (simp add: register_write_def)
    moreover have "tot + n + length (concat buffer') < 9223372036854775808"
      using less.prems(2) st(2,3) by simp
    ultimately obtain k w'' where ih: "fd_write_loop sys_writev True buffer' (tot + n) (register_write f, w') =
        (Inr (tot + n + length (concat buffer')), (register_write f)\<lparr>fd_write_count := k\<rparr>, w'')"
        "written w'' = written w' @ concat buffer'"
      using less.hyps[OF lt, of "register_write f" "tot + n" w'] by blast
    have "length (concat buffer') \<noteq> 0" using False by simp
    then have "fd_write_loop sys_writev True buffer tot (f, w) =
        fd_write_loop sys_writev True buffer' (tot + n) (register_write f, w')"
      using st(1) size sum by (subst fd_write_loop.simps) (simp del: length_0_conv length_concat)
    moreover have "tot + n + length (concat buffer') = tot + length (concat buffer)"
      using st(2,3) by simp
    moreover have "written w'' = written w @ concat buffer" using ih(2) st(2,5) by simp
    ultimately show ?thesis using ih(1) by (auto simp: register_write_def)
  qed
qed

text \<open>How \<open>read\<close> ends when the kernel returns \<open>data\<close>.\<close>

lemma fd_write_eq:
  assumes "sys_writev (fd_num f) (bvl_as_iovecs [str]) w = ((int n, errno), (), w')"
    and "n \<le> length str" "n < 2147483648" "str \<noteq> [] \<longrightarrow> 0 < n" "length str < 9223372036854775808"
  shows "fd_write_string sys_writev str False (f, w) = (Inr n, register_write f, w')"
proof -
  obtain b where b: "bvl_remove_prefix [str] n = Some b"
    using bvl_remove_prefix_concat[of "[str]" n] assms(2) by (auto split: option.splits)
  have n: "as_size (int n) = n" using assms(3) by (simp add: as_size_int)
  have size: "bvl_size [str] = length str" using assms(5) by (simp add: bvl_size_eq)
  have "\<not> (int n = 0 \<and> length str \<noteq> 0)" "\<not> int n > int (length str)" using assms(2,4) by auto
  then have "fd_write_step sys_writev [str] (f, w) = (Inr (b, n), register_write f, w')"
    using assms(1,3) b
    by (simp add: fd_write_step_def ebind_def eseq_def fd_call_def SystemCall_def as_int_id fd_update_def eff
        as_ssize_id[OF assms(5)] size n del: bvl_remove_prefix.simps)
  then show ?thesis
    using assms(3) unfolding fd_write_string_def fd_write_def bvl_of_string_def
    by (subst fd_write_loop.simps) (simp add: no_wrap)
qed

lemma fd_read_eq:
  assumes "sys_read (fd_num f) (min READ_BUFFER_SIZE limit) w = ((int (length data), errno), data, w')"
    and "length data \<le> min READ_BUFFER_SIZE limit"
  shows "fd_read sys_read limit (f, w) =
    (Inr data, register_read (if limit > 0 \<and> data = [] then f\<lparr>fd_eof := True\<rparr> else f), w')"
proof -
  have "SystemCall ''read'' (int (length data), errno) 0 = Inr (int (length data))"
    using assms(2) by (simp add: SystemCall_def as_int_id)
  then have "fd_call ''read'' (\<lambda>fd. sys_read fd (min READ_BUFFER_SIZE limit)) (f, w) = (Inr (int (length data), data), f, w')"
    by (simp add: fd_call_def assms(1) del: min_less_iff_conj)
  moreover have "\<not> int (min READ_BUFFER_SIZE limit) < int (length data)" "limit > 0 \<or> data = []"
    using assms(2) by (auto, cases data) auto
  ultimately show ?thesis
    by (simp add: fd_read_def fd_read_into_def Let_def ebind_def eseq_def ewhen_def fd_update_def eff resize_def)
qed

section \<open>Properties\<close>


definition two_at_a_time :: "int \<Rightarrow> (bytes \<times> nat) list \<Rightarrow> (bytes, unit) syscall" where
  "two_at_a_time fd iov w =
     (let data = take 2 (concat (map fst iov)) in ((int (length data), 0), (), w @ data))"


end
