(* ===== verification/Event_Loop.thy ===== *)
theory Event_Loop
  imports File_Descriptor
begin

text \<open>
  The event loop (\<^verbatim>\<open>util/eventloop.hh\<close> and \<^verbatim>\<open>.cc\<close>). The loop runs on the state of its owner: a rule
  names a descriptor by a handle, \<open>fds\<close> looks the shared wrapper up in the owner's state, the
  callbacks are computations on that state, and \<open>interest\<close> reads it. The kernel is a part of the
  owner's state; \<^verbatim>\<open>poll\<close> is an argument that gives the return value and the \<^verbatim>\<open>revents\<close> it stores.

  \<^verbatim>\<open>std::list\<close> iterators split the list of rules into those passed and those still to come. A callback
  does not add rules to the loop that runs it, as everywhere in the program.
\<close>

section \<open>Model\<close>

datatype Direction = In | Out

abbreviation POLLIN :: u16 where "POLLIN \<equiv> 1"
abbreviation POLLOUT :: u16 where "POLLOUT \<equiv> 4"
abbreviation POLLERR :: u16 where "POLLERR \<equiv> 8"
abbreviation POLLHUP :: u16 where "POLLHUP \<equiv> 16"
abbreviation POLLNVAL :: u16 where "POLLNVAL \<equiv> 32"
abbreviation EINTR :: int where "EINTR \<equiv> 4"

fun direction_events :: "Direction \<Rightarrow> u16" where
  "direction_events In = POLLIN"
| "direction_events Out = POLLOUT"

record ('h, 's) Rule =
  rl_fd :: 'h
  rl_direction :: Direction
  rl_callback :: "('s, sys_error, unit) eff"
  rl_interest :: "'s \<Rightarrow> bool"
  rl_cancel :: "('s, sys_error, unit) eff"

datatype Result = Success | Timeout | Exit

record pollfd =
  pf_fd :: int
  pf_events :: u16
  pf_revents :: u16

type_synonym ('h, 's) fd_store = "'s \<Rightarrow> 'h \<Rightarrow> FDWrapper"

definition rl_service_count :: "('h, 's) fd_store \<Rightarrow> ('h, 's) Rule \<Rightarrow> 's \<Rightarrow> nat" where
  "rl_service_count fds r s =
     (if rl_direction r = In then fd_read_count (fds s (rl_fd r)) else fd_write_count (fds s (rl_fd r)))"

definition el_add_rule :: "'h \<Rightarrow> Direction \<Rightarrow> ('s, sys_error, unit) eff \<Rightarrow> ('s \<Rightarrow> bool) \<Rightarrow> ('s, sys_error, unit) eff \<Rightarrow>
    ('h, 's) Rule list \<Rightarrow> ('h, 's) Rule list" where
  "el_add_rule fd direction callback interest cancel rules =
     rules @ [\<lparr>rl_fd = fd, rl_direction = direction, rl_callback = callback, rl_interest = interest,
               rl_cancel = cancel\<rparr>]"

text \<open>The first loop: the rules passed and kept, the rules to come, the pollfds so far, and whether
  there is something to poll.\<close>

fun el_setup :: "('h, 's) fd_store \<Rightarrow> ('h, 's) Rule list \<Rightarrow> ('h, 's) Rule list \<Rightarrow> pollfd list \<Rightarrow> bool \<Rightarrow> 's \<Rightarrow>
    (sys_error + pollfd list \<times> bool) \<times> ('h, 's) Rule list \<times> 's" where
  "el_setup fds kept [] pollfds something_to_poll s = (Inr (pollfds, something_to_poll), kept, s)"
| "el_setup fds kept (this_rule # rest) pollfds something_to_poll s =
     (let fd = fds s (rl_fd this_rule)
      in if rl_direction this_rule = In \<and> fd_eof fd then
           (case rl_cancel this_rule s of
              (Inl e, s') \<Rightarrow> (Inl e, kept @ this_rule # rest, s')
            | (Inr _, s') \<Rightarrow> el_setup fds kept rest pollfds something_to_poll s')
         else if fd_closed fd then
           (case rl_cancel this_rule s of
              (Inl e, s') \<Rightarrow> (Inl e, kept @ this_rule # rest, s')
            | (Inr _, s') \<Rightarrow> el_setup fds kept rest pollfds something_to_poll s')
         else if rl_interest this_rule s then
           el_setup fds (kept @ [this_rule]) rest
             (pollfds @ [\<lparr>pf_fd = fd_num fd, pf_events = direction_events (rl_direction this_rule), pf_revents = 0\<rparr>])
             True s
         else
           el_setup fds (kept @ [this_rule]) rest
             (pollfds @ [\<lparr>pf_fd = fd_num fd, pf_events = 0, pf_revents = 0\<rparr>]) something_to_poll s)"

text \<open>What \<^verbatim>\<open>poll\<close> stores.\<close>

fun set_revents :: "pollfd list \<Rightarrow> u16 list \<Rightarrow> pollfd list" where
  "set_revents (p # pollfds) (r # revents) = p\<lparr>pf_revents := r\<rparr> # set_revents pollfds revents"
| "set_revents pollfds revents = pollfds"

abbreviation error_on_polled :: sys_error where
  "error_on_polled \<equiv> RuntimeError ''EventLoop: error on polled file descriptor''"

abbreviation busy_wait :: sys_error where
  "busy_wait \<equiv> RuntimeError ''EventLoop: busy wait detected: callback did not read/write fd and is still interested''"

text \<open>One round of the second loop: an exception, or whether the rule stays.\<close>

definition el_serve :: "('h, 's) fd_store \<Rightarrow> ('h, 's) Rule \<Rightarrow> pollfd \<Rightarrow> ('s, sys_error, bool) eff" where
  "el_serve fds this_rule this_pollfd s =
     (let poll_error = pf_revents this_pollfd AND (POLLERR OR POLLNVAL) \<noteq> 0;
          poll_ready = pf_revents this_pollfd AND pf_events this_pollfd \<noteq> 0;
          poll_hup = pf_revents this_pollfd AND POLLHUP \<noteq> 0
      in if poll_error then (Inl error_on_polled, s)
         else if poll_hup \<and> pf_events this_pollfd \<noteq> 0 \<and> \<not> poll_ready then
           (case rl_cancel this_rule s of
              (Inl e, s') \<Rightarrow> (Inl e, s')
            | (Inr _, s') \<Rightarrow> (Inr False, s'))
         else if poll_ready then
           (let count_before = rl_service_count fds this_rule s
            in case rl_callback this_rule s of
                 (Inl e, s') \<Rightarrow> (Inl e, s')
               | (Inr _, s') \<Rightarrow>
                   if count_before = rl_service_count fds this_rule s' \<and> rl_interest this_rule s'
                   then (Inl busy_wait, s') else (Inr True, s'))
         else (Inr True, s))"

text \<open>The second loop, with the index \<open>idx\<close> into the vector of pollfds; an index beyond its end is
  undefined behaviour.\<close>

fun el_results :: "('h, 's) fd_store \<Rightarrow> ('h, 's) Rule list \<Rightarrow> ('h, 's) Rule list \<Rightarrow> nat \<Rightarrow> pollfd list \<Rightarrow> 's \<Rightarrow>
    (sys_error + Result) \<times> ('h, 's) Rule list \<times> 's" where
  "el_results fds kept [] idx pollfds s = (Inr Success, kept, s)"
| "el_results fds kept (this_rule # rest) idx pollfds s =
     (if idx < length pollfds then
        (case el_serve fds this_rule (pollfds ! idx) s of
           (Inl e, s') \<Rightarrow> (Inl e, kept @ this_rule # rest, s')
         | (Inr True, s') \<Rightarrow> el_results fds (kept @ [this_rule]) rest (Suc idx) pollfds s'
         | (Inr False, s') \<Rightarrow> el_results fds kept rest (Suc idx) pollfds s')
      else (Inl UndefinedBehaviour, kept @ this_rule # rest, s))"

definition wait_next_event :: "('h, 's) fd_store \<Rightarrow> (pollfd list \<Rightarrow> int \<Rightarrow> ('s, u16 list) syscall) \<Rightarrow> int \<Rightarrow>
    (('h, 's) Rule list \<times> 's, sys_error, Result) eff" where
  "wait_next_event fds sys_poll timeout_ms st =
     (case st of (rules, s) \<Rightarrow>
        (case el_setup fds [] rules [] False s of
           (Inl e, st') \<Rightarrow> (Inl e, st')
         | (Inr (pollfds, something_to_poll), rules', s') \<Rightarrow>
             if \<not> something_to_poll then (Inr Exit, rules', s')
             else
               (case sys_poll pollfds timeout_ms s' of (ret, revents, s'') \<Rightarrow>
                  (let results = el_results fds [] rules' 0 (set_revents pollfds revents) s''
                   in case SystemCall ''poll'' ret 0 of
                        Inr r \<Rightarrow> if r = 0 then (Inr Timeout, rules', s'') else results
                      | Inl (UnixError attempt code) \<Rightarrow>
                          if code = EINTR then (Inr Exit, rules', s'') else results
                      | Inl e \<Rightarrow> (Inl e, rules', s'')))))"

section \<open>Lemmas\<close>

text \<open>The loop with every rule beside its own pollfd.\<close>

fun el_results_zip :: "('h, 's) fd_store \<Rightarrow> ('h, 's) Rule list \<Rightarrow> (('h, 's) Rule \<times> pollfd) list \<Rightarrow> 's \<Rightarrow>
    (sys_error + Result) \<times> ('h, 's) Rule list \<times> 's" where
  "el_results_zip fds kept [] s = (Inr Success, kept, s)"
| "el_results_zip fds kept ((r, p) # rest) s =
     (case el_serve fds r p s of
        (Inl e, s') \<Rightarrow> (Inl e, kept @ r # map fst rest, s')
      | (Inr True, s') \<Rightarrow> el_results_zip fds (kept @ [r]) rest s'
      | (Inr False, s') \<Rightarrow> el_results_zip fds kept rest s')"

lemma el_results_zip_eq:
  "length pollfds = idx + length rules \<Longrightarrow>
   el_results fds kept rules idx pollfds s = el_results_zip fds kept (zip rules (drop idx pollfds)) s"
proof (induction fds kept rules idx pollfds s rule: el_results.induct)
  case (2 fds kept this_rule rest idx pollfds s)
  have idx: "idx < length pollfds" using 2(3) by simp
  then have d: "drop idx pollfds = pollfds ! idx # drop (Suc idx) pollfds" by (simp add: Cons_nth_drop_Suc)
  have m: "map fst (zip rest (drop (Suc idx) pollfds)) = rest" using 2(3) by simp
  show ?case
  proof (cases "el_serve fds this_rule (pollfds ! idx) s")
    case (Pair r s')
    show ?thesis
    proof (cases r)
      case (Inr b)
      then show ?thesis using Pair idx d 2 by (cases b) simp_all
    qed (use Pair idx d m in simp)
  qed
qed simp

lemma set_revents_length [simp]: "length (set_revents pollfds revents) = length pollfds"
  by (induction pollfds revents rule: set_revents.induct) simp_all

lemma el_setup_length:
  "el_setup fds kept rules pollfds b s = (Inr (pollfds', b'), rules', s') \<Longrightarrow>
   length kept = length pollfds \<Longrightarrow> length rules' = length pollfds'"
proof (induction fds kept rules pollfds b s rule: el_setup.induct)
  case (2 fds kept this_rule rest pollfds b s)
  show ?case using 2 by (auto simp: Let_def split: if_splits prod.splits sum.splits)
qed simp

lemma el_setup_revents:
  "el_setup fds kept rules pollfds b s = (Inr (pollfds', b'), rules', s') \<Longrightarrow>
   \<forall>p\<in>set pollfds. pf_revents p = 0 \<Longrightarrow> \<forall>p\<in>set pollfds'. pf_revents p = 0"
proof (induction fds kept rules pollfds b s rule: el_setup.induct)
  case (2 fds kept this_rule rest pollfds b s)
  show ?case using 2 by (auto simp: Let_def split: if_splits prod.splits sum.splits)
qed simp

lemma el_results_quiet:
  "\<forall>p\<in>set (map snd rps). pf_revents p = 0 \<Longrightarrow>
   el_results_zip fds kept rps s = (Inr Success, kept @ map fst rps, s)"
  by (induction fds kept rps s rule: el_results_zip.induct) (auto simp: el_serve_def)

definition rl_dead :: "('h, 's) fd_store \<Rightarrow> 's \<Rightarrow> ('h, 's) Rule \<Rightarrow> bool" where
  "rl_dead fds s r \<longleftrightarrow> rl_direction r = In \<and> fd_eof (fds s (rl_fd r)) \<or> fd_closed (fds s (rl_fd r))"

text \<open>A cancel callback that does not throw and does not read, write or close a descriptor.\<close>

definition calm_cancel :: "('h, 's) fd_store \<Rightarrow> ('h, 's) Rule \<Rightarrow> bool" where
  "calm_cancel fds r \<longleftrightarrow> (\<forall>t. \<exists>t'. rl_cancel r t = (Inr (), t') \<and> fds t' = fds t)"

lemma el_setup_calm:
  "list_all (calm_cancel fds) rules \<Longrightarrow>
   \<exists>pollfds' b'. el_setup fds kept rules pollfds b s =
     (Inr (pollfds', b'), kept @ filter (\<lambda>r. \<not> rl_dead fds s r) rules,
      foldl (\<lambda>t r. snd (rl_cancel r t)) s (filter (rl_dead fds s) rules))"
proof (induction rules arbitrary: kept pollfds b s)
  case (Cons r rules)
  obtain s' where c: "rl_cancel r s = (Inr (), s')" "fds s' = fds s"
    using Cons.prems by (auto simp: calm_cancel_def)
  have dead: "rl_dead fds s' = rl_dead fds s" using c(2) by (simp add: rl_dead_def fun_eq_iff)
  have calm: "list_all (calm_cancel fds) rules" using Cons.prems by simp
  show ?case
  proof (cases "rl_dead fds s r")
    case True
    then have "el_setup fds kept (r # rules) pollfds b s = el_setup fds kept rules pollfds b s'"
      using c(1) by (auto simp: rl_dead_def Let_def)
    then show ?thesis using Cons.IH[OF calm, of kept pollfds b s'] True c(1) dead by simp
  next
    case False
    then obtain p b' where "el_setup fds kept (r # rules) pollfds b s = el_setup fds (kept @ [r]) rules (pollfds @ [p]) b' s"
      by (cases "rl_interest r s") (auto simp: rl_dead_def Let_def)
    then show ?thesis using Cons.IH[OF calm, of "kept @ [r]" "pollfds @ [p]" b' s] False by simp
  qed
qed simp

text \<open>What every callback and \<open>poll\<close> keep, a round of the loop keeps, however it ends.\<close>

abbreviation rule_keeps :: "('s \<Rightarrow> bool) \<Rightarrow> ('h, 's) Rule \<Rightarrow> bool" where
  "rule_keeps P r \<equiv> ekeeps P (rl_callback r) \<and> ekeeps P (rl_cancel r)"

lemma el_setup_keeps:
  "el_setup fds kept rules pollfds b s = (res, rules', s') \<Longrightarrow> \<forall>r\<in>set rules. rule_keeps P r \<Longrightarrow> P s \<Longrightarrow>
   P s' \<and> set rules' \<subseteq> set kept \<union> set rules"
proof (induction fds kept rules pollfds b s rule: el_setup.induct)
  case (2 fds kept this_rule rest pollfds b s)
  obtain c t where c: "rl_cancel this_rule s = (c, t)" by fastforce
  have "P t" using ekeepsD[of P "rl_cancel this_rule" s c t] 2(6,7) c by simp
  then show ?case using 2 c by (cases c) (fastforce simp: Let_def split: if_splits)+
qed auto

lemma el_serve_keeps:
  assumes "el_serve fds r p s = (res, s')" "rule_keeps P r" "P s"
  shows "P s'"
proof -
  obtain c t where c: "rl_callback r s = (c, t)" by fastforce
  obtain d u where d: "rl_cancel r s = (d, u)" by fastforce
  have "P t" "P u" using ekeepsD[of P "rl_callback r" s c t] ekeepsD[of P "rl_cancel r" s d u] assms(2,3) c d by simp_all
  moreover have "s' \<in> {s, t, u}"
    using assms(1) c d by (cases c; cases d) (auto simp: el_serve_def Let_def split: if_splits)
  ultimately show ?thesis using assms(3) by auto
qed

lemma el_results_keeps:
  "el_results fds kept rules idx pollfds s = (res, rules', s') \<Longrightarrow> \<forall>r\<in>set rules. rule_keeps P r \<Longrightarrow> P s \<Longrightarrow>
   P s' \<and> set rules' \<subseteq> set kept \<union> set rules"
proof (induction fds kept rules idx pollfds s rule: el_results.induct)
  case (2 fds kept this_rule rest idx pollfds s)
  obtain c t where c: "el_serve fds this_rule (pollfds ! idx) s = (c, t)" by fastforce
  have "P t" using el_serve_keeps[OF c, of P] 2(4,5) by simp
  then show ?case
    using 2 c by (cases c) (fastforce split: if_splits bool.splits)+
qed auto

lemma wait_next_event_keeps:
  assumes "wait_next_event fds sys_poll timeout_ms (rules, s) = (res, rules', s')"
    and "\<forall>r\<in>set rules. rule_keeps P r" "\<And>pollfds s r revents s'. P s \<Longrightarrow> sys_poll pollfds timeout_ms s = (r, revents, s') \<Longrightarrow> P s'"
    and "P s"
  shows "P s' \<and> set rules' \<subseteq> set rules"
proof -
  obtain r rules1 s1 where 1: "el_setup fds [] rules [] False s = (r, rules1, s1)" by (metis prod_cases3)
  have p1: "P s1" "set rules1 \<subseteq> set rules" using el_setup_keeps[OF 1, of P] assms(2,4) by simp_all
  show ?thesis
  proof (cases r)
    case (Inl e)
    then show ?thesis using assms(1) 1 p1 by (simp add: wait_next_event_def)
  next
    case (Inr x)
    obtain pollfds b where x: "x = (pollfds, b)" by fastforce
    obtain ret revents s2 where 2: "sys_poll pollfds timeout_ms s1 = (ret, revents, s2)" by (metis prod_cases3)
    have p2: "P s2" using assms(3)[OF p1(1) 2] .
    obtain res3 rules3 s3 where 3: "el_results fds [] rules1 0 (set_revents pollfds revents) s2 = (res3, rules3, s3)" by (metis prod_cases3)
    have p3: "P s3" "set rules3 \<subseteq> set rules1" using el_results_keeps[OF 3, of P] p2 assms(2) p1(2) by auto
    have "(rules', s') \<in> {(rules1, s1), (rules1, s2), (rules3, s3)}"
      using assms(1) 1 Inr x 2 3
      by (auto simp: wait_next_event_def Let_def split: if_splits sum.splits sys_error.splits)
    then show ?thesis using p1 p2 p3 by auto
  qed
qed

lemma el_serve_called:
  assumes "pf_revents p AND (POLLERR OR POLLNVAL) = 0" "pf_revents p AND pf_events p \<noteq> 0"
    and "rl_callback r s = (Inr (), s')" "rl_service_count fds r s \<noteq> rl_service_count fds r s'"
  shows "el_serve fds r p s = (Inr True, s')"
  using assms by (simp add: el_serve_def Let_def)

lemma el_serve_idle: "pf_revents p = 0 \<Longrightarrow> pf_events p = 0 \<Longrightarrow> el_serve fds r p s = (Inr True, s)"
  by (simp add: el_serve_def Let_def)

text \<open>When \<open>poll\<close> reports no hangup, a round that ends without exception keeps every rule and calls some of
  the callbacks, in order: \<open>J\<close> is what holds before the rules that are still to come.\<close>

lemma el_results_chain:
  "el_results fds kept rules idx pollfds s = (Inr res, rules', s') \<Longrightarrow> J rules s \<Longrightarrow>
   \<forall>p\<in>set pollfds. pf_revents p AND POLLHUP = 0 \<Longrightarrow>
   (\<And>r rest s. J (r # rest) s \<Longrightarrow> J rest s \<and> J rest (snd (rl_callback r s))) \<Longrightarrow>
   rules' = kept @ rules \<and> J [] s' \<and> res = Success"
proof (induction fds kept rules idx pollfds s rule: el_results.induct)
  case (2 fds kept this_rule rest idx pollfds s)
  have idx: "idx < length pollfds" using 2(3) by (simp split: if_splits)
  obtain c t where c: "el_serve fds this_rule (pollfds ! idx) s = (c, t)" by fastforce
  obtain d u where d: "rl_callback this_rule s = (d, u)" by fastforce
  have "pf_revents (pollfds ! idx) AND POLLHUP = 0" using 2(5) idx by simp
  then have t: "c = Inr True \<longrightarrow> t = s \<or> t = u" "c \<noteq> Inr False"
    using c d by (cases d; auto simp: el_serve_def Let_def split: if_splits)+
  have "c = Inr True" using 2(3) idx c t(2) by (cases c) (auto split: bool.splits)
  moreover have "J rest t" using 2(6)[OF 2(4)] t(1) d calculation by auto
  ultimately show ?case using 2(1)[OF idx c[symmetric]] 2(3,5,6) idx c by simp
qed simp

lemma set_revents_bits:
  "\<forall>p\<in>set pollfds. pf_revents p = 0 \<Longrightarrow> \<forall>x\<in>set revents. x AND bits = 0 \<Longrightarrow>
   \<forall>p\<in>set (set_revents pollfds revents). pf_revents p AND bits = 0"
  by (induction pollfds revents rule: set_revents.induct) auto

section \<open>Properties\<close>

text \<open>The second loop erases rules while its index only grows. The index nevertheless always points
  to the pollfd that the first loop made for the rule: the vector is never read past its end, and
  the loop does what it would do with each rule stored beside its pollfd.\<close>

lemma poll_index_aligned:
  assumes "el_setup fds [] rules [] False s = (Inr (pollfds, b), rules', s')"
  shows "length rules' = length pollfds \<and>
    el_results fds [] rules' 0 (set_revents pollfds revents) t =
      el_results_zip fds [] (zip rules' (set_revents pollfds revents)) t"
proof -
  have "length rules' = length pollfds" using el_setup_length[OF assms] by simp
  then show ?thesis using el_results_zip_eq[of "set_revents pollfds revents" 0 rules'] by simp
qed

definition example_rule :: "bool \<Rightarrow> (nat, FDWrapper) Rule" where
  "example_rule interested = \<lparr>rl_fd = 0, rl_direction = In, rl_callback = ereturn (), rl_interest = (\<lambda>_. interested),
     rl_cancel = ereturn ()\<rparr>"

definition example_fd :: FDWrapper where
  "example_fd = \<lparr>fd_num = 5, fd_eof = False, fd_closed = False, fd_read_count = 0, fd_write_count = 0\<rparr>"

text \<open>A rule whose descriptor is closed, or at its end when the rule reads, is removed and its cancel
  callback is called once, in the order of the rules, before anything is polled; every other rule
  stays.\<close>

lemma dead_rules_cancelled:
  assumes "list_all (calm_cancel fds) rules"
  shows "\<exists>pollfds b. el_setup fds [] rules [] False s =
    (Inr (pollfds, b), filter (\<lambda>r. \<not> rl_dead fds s r) rules,
     foldl (\<lambda>t r. snd (rl_cancel r t)) s (filter (rl_dead fds s) rules))"
  using el_setup_calm[OF assms, of "[]" "[]" False s] by simp

text \<open>C34: The exception of a failed \<open>poll\<close> is caught and, unless the call was interrupted by a signal,
  dropped: the loop reports success although no callback has run, where the documentation
  promises an exception.\<close>

theorem poll_error_dropped:
  assumes "el_setup fds [] rules [] False s = (Inr (pollfds, True), rules', s')"
    and "sys_poll pollfds timeout_ms s' = ((-1, errno), [], s'')" "errno \<noteq> EINTR"
  shows "wait_next_event fds sys_poll timeout_ms (rules, s) = (Inr Success, rules', s'')"
proof -
  have len: "length rules' = length pollfds" using el_setup_length[OF assms(1)] by simp
  have z: "\<forall>p\<in>set pollfds. pf_revents p = 0" using el_setup_revents[OF assms(1)] by simp
  have m: "map snd (zip rules' pollfds) = pollfds" "map fst (zip rules' pollfds) = rules'" using len by simp_all
  have "el_results fds [] rules' 0 pollfds s'' = (Inr Success, rules', s'')"
    using el_results_zip_eq[of pollfds 0 rules' fds "[]" s''] len
      el_results_quiet[of "zip rules' pollfds" fds "[]" s''] z m by simp
  moreover have "set_revents pollfds [] = pollfds" by (cases pollfds) simp_all
  moreover have "SystemCall ''poll'' (-1, errno) 0 = (if errno = 0 then Inr (-1) else Inl (UnixError ''poll'' errno))"
    by (simp add: SystemCall_def as_int_id)
  ultimately show ?thesis using assms by (simp add: wait_next_event_def)
qed

theorem poll_error_dropped_witness:
  "wait_next_event (\<lambda>s _. s) (\<lambda>pollfds timeout_ms s. ((-1, 12), [], s)) 10 ([example_rule True], example_fd)
    = (Inr Success, [example_rule True], example_fd)"
  by (rule poll_error_dropped[where errno = 12 and s' = example_fd
        and pollfds = "[\<lparr>pf_fd = 5, pf_events = POLLIN, pf_revents = 0\<rparr>]"])
    (simp_all add: example_rule_def example_fd_def)

end
