(* ===== verification/Address.thy ===== *)
theory Address
  imports Text_Output
begin

text \<open>
  Network addresses (\<^verbatim>\<open>util/address.hh\<close> and \<^verbatim>\<open>.cc\<close>): a size and the bytes of a \<^verbatim>\<open>sockaddr_storage\<close>, which
  has 128 bytes. The layout of \<^verbatim>\<open>sockaddr_in\<close> is that of a little-endian host: two bytes of family, two
  bytes of port and four bytes of address in network order, eight bytes of padding. \<open>getaddrinfo\<close> and
  \<open>getnameinfo\<close> are arguments of the definitions that call them; exceptions are values of
  \<open>addr_error\<close>.
\<close>

section \<open>Model\<close>

datatype addr_error = InvalidSockaddrSize | GaiError string int | NoResults | NotIPv4 | BadNumber

record Address =
  ad_size :: nat
  ad_storage :: bytes

record addr_hints =
  hints_flags :: nat
  hints_family :: nat

abbreviation AF_INET :: nat where "AF_INET \<equiv> 2"
abbreviation AI_ALL :: nat where "AI_ALL \<equiv> 0x10"
abbreviation AI_NUMERICHOST :: nat where "AI_NUMERICHOST \<equiv> 4"
abbreviation AI_NUMERICSERV :: nat where "AI_NUMERICSERV \<equiv> 0x400"
abbreviation NI_NUMERICHOST :: nat where "NI_NUMERICHOST \<equiv> 1"
abbreviation NI_NUMERICSERV :: nat where "NI_NUMERICSERV \<equiv> 2"
abbreviation STORAGE_SIZE :: nat where "STORAGE_SIZE \<equiv> 128"
abbreviation SOCKADDR_IN_SIZE :: nat where "SOCKADDR_IN_SIZE \<equiv> 16"

text \<open>The resolver gives a return value and the first result, if any: the bytes and the length of the
  socket address. The reverse lookup gives a return value and two strings.\<close>

type_synonym resolver = "string \<Rightarrow> string \<Rightarrow> addr_hints \<Rightarrow> int \<times> (bytes \<times> nat) option"
type_synonym reverse_lookup = "bytes \<Rightarrow> nat \<Rightarrow> nat \<Rightarrow> int \<times> string \<times> string"

definition ad_of_sockaddr :: "bytes \<Rightarrow> nat \<Rightarrow> addr_error + Address" where
  "ad_of_sockaddr addr addr_size =
     (if addr_size > STORAGE_SIZE then Inl InvalidSockaddrSize
      else Inr \<lparr>ad_size = addr_size, ad_storage = take addr_size addr @ replicate (STORAGE_SIZE - addr_size) 0\<rparr>)"

definition c_str :: "string \<Rightarrow> string" where
  "c_str s = takeWhile (\<lambda>c. c \<noteq> CHR 0x00) s"

definition make_hints :: "nat \<Rightarrow> nat \<Rightarrow> addr_hints" where
  "make_hints ai_flags ai_family = \<lparr>hints_flags = ai_flags, hints_family = ai_family\<rparr>"

definition ad_resolve :: "resolver \<Rightarrow> string \<Rightarrow> string \<Rightarrow> addr_hints \<Rightarrow> addr_error + Address" where
  "ad_resolve getaddrinfo node service hints =
     (case getaddrinfo (c_str node) (c_str service) hints of (gai_ret, resolved_address) \<Rightarrow>
        if gai_ret \<noteq> 0
        then Inl (GaiError (''getaddrinfo('' @ node @ '', '' @ service @ '')'') gai_ret)
        else case resolved_address of
               None \<Rightarrow> Inl NoResults
             | Some (ai_addr, ai_addrlen) \<Rightarrow> ad_of_sockaddr ai_addr ai_addrlen)"

definition ad_new_service :: "resolver \<Rightarrow> string \<Rightarrow> string \<Rightarrow> addr_error + Address" where
  "ad_new_service getaddrinfo hostname service =
     ad_resolve getaddrinfo hostname service (make_hints AI_ALL AF_INET)"

definition ad_new_port :: "resolver \<Rightarrow> string \<Rightarrow> u16 \<Rightarrow> addr_error + Address" where
  "ad_new_port getaddrinfo ip port =
     ad_resolve getaddrinfo ip (show_dec (unat port))
       (make_hints (AI_NUMERICHOST + AI_NUMERICSERV) AF_INET)"

definition is_digit_char :: "char \<Rightarrow> bool" where
  "is_digit_char c \<longleftrightarrow> 48 \<le> (of_char c :: nat) \<and> (of_char c :: nat) \<le> 57"

definition is_space_char :: "char \<Rightarrow> bool" where
  "is_space_char c \<longleftrightarrow> (of_char c :: nat) = 32 \<or> 9 \<le> (of_char c :: nat) \<and> (of_char c :: nat) \<le> 13"

text \<open>\<^verbatim>\<open>std::stoi\<close> in base ten: leading blanks, a sign, the digits; \<open>None\<close> when there is no digit or the
  value does not fit.\<close>

definition stoi :: "string \<Rightarrow> int option" where
  "stoi s =
     (let t = dropWhile is_space_char s;
          neg = (t \<noteq> [] \<and> hd t = CHR ''-'');
          u = (if t \<noteq> [] \<and> (hd t = CHR ''-'' \<or> hd t = CHR ''+'') then tl t else t);
          ds = takeWhile is_digit_char u;
          v = (if neg then - int (read_base 10 ds) else int (read_base 10 ds))
      in if ds = [] \<or> v < - 2147483648 \<or> 2147483647 < v then None else Some v)"

definition ad_ip_port :: "reverse_lookup \<Rightarrow> Address \<Rightarrow> addr_error + string \<times> u16" where
  "ad_ip_port getnameinfo a =
     (case getnameinfo (ad_storage a) (ad_size a) (NI_NUMERICHOST + NI_NUMERICSERV) of (gni_ret, ip, port) \<Rightarrow>
        if gni_ret \<noteq> 0 then Inl (GaiError ''getnameinfo'' gni_ret)
        else case stoi port of None \<Rightarrow> Inl BadNumber | Some p \<Rightarrow> Inr (ip, of_int p))"

definition ad_to_string :: "reverse_lookup \<Rightarrow> Address \<Rightarrow> addr_error + string" where
  "ad_to_string getnameinfo a =
     (case ad_ip_port getnameinfo a of
        Inl e \<Rightarrow> Inl e
      | Inr (ip, port) \<Rightarrow> Inr (ip @ '':'' @ show_dec (unat port)))"

definition ad_family :: "Address \<Rightarrow> nat" where
  "ad_family a = unat (ad_storage a ! 0) + 256 * unat (ad_storage a ! 1)"

definition ad_ipv4_numeric :: "Address \<Rightarrow> addr_error + u32" where
  "ad_ipv4_numeric a =
     (if ad_family a \<noteq> AF_INET \<or> ad_size a \<noteq> SOCKADDR_IN_SIZE then Inl NotIPv4
      else Inr (np_int_loop 4 (take 4 (drop 4 (ad_storage a))) 0))"

definition sockaddr_in :: "u16 \<Rightarrow> u32 \<Rightarrow> bytes" where
  "sockaddr_in port ip = [2, 0] @ be16 port @ be32 ip @ replicate 8 0"

definition ad_from_ipv4_numeric :: "u32 \<Rightarrow> addr_error + Address" where
  "ad_from_ipv4_numeric ip_address = ad_of_sockaddr (sockaddr_in 0 ip_address) SOCKADDR_IN_SIZE"

definition ad_equal :: "Address \<Rightarrow> Address \<Rightarrow> bool" where
  "ad_equal a other \<longleftrightarrow>
     (if ad_size a \<noteq> ad_size other then False
      else take (ad_size a) (ad_storage a) = take (ad_size a) (ad_storage other))"

section \<open>Lemmas\<close>

definition ad_ipv4 :: "u16 \<Rightarrow> u32 \<Rightarrow> Address" where
  "ad_ipv4 port ip = \<lparr>ad_size = SOCKADDR_IN_SIZE, ad_storage = sockaddr_in port ip @ replicate 112 0\<rparr>"

lemma length_sockaddr_in [simp]: "length (sockaddr_in port ip) = 16"
  by (simp add: sockaddr_in_def be16_def be32_def)

lemma ad_of_sockaddr_in: "ad_of_sockaddr (sockaddr_in port ip) SOCKADDR_IN_SIZE = Inr (ad_ipv4 port ip)"
  by (simp add: ad_of_sockaddr_def ad_ipv4_def)

lemma ad_from_ipv4: "ad_from_ipv4_numeric ip = Inr (ad_ipv4 0 ip)"
  by (simp add: ad_from_ipv4_numeric_def ad_of_sockaddr_in)

lemma ad_ipv4_numeric_eq [simp]: "ad_ipv4_numeric (ad_ipv4 port ip) = Inr ip"
proof -
  have "take 4 (drop 4 (ad_storage (ad_ipv4 port ip))) = be32 ip"
    by (simp add: ad_ipv4_def sockaddr_in_def be16_def be32_def)
  moreover have "ad_family (ad_ipv4 port ip) = AF_INET"
    by (simp add: ad_ipv4_def ad_family_def sockaddr_in_def)
  moreover have "ad_size (ad_ipv4 port ip) = SOCKADDR_IN_SIZE" by (simp add: ad_ipv4_def)
  moreover have "np_int_loop 4 (be32 ip) 0 = ip" using np_int_be(3)[of ip "[]"] by simp
  ultimately show ?thesis by (simp add: ad_ipv4_numeric_def)
qed

section \<open>Numeric addresses\<close>

text \<open>What \<^verbatim>\<open>getnameinfo(3)\<close> and \<^verbatim>\<open>getaddrinfo(3)\<close> document for the numeric flags: the dotted address and the
  decimal port, and back.\<close>

definition numeric_names :: "reverse_lookup \<Rightarrow> bool" where
  "numeric_names getnameinfo \<longleftrightarrow>
     (\<forall>port ip. getnameinfo (ad_storage (ad_ipv4 port ip)) SOCKADDR_IN_SIZE (NI_NUMERICHOST + NI_NUMERICSERV)
        = (0, inet_ntoa ip, show_dec (unat port)))"

definition numeric_resolver :: "resolver \<Rightarrow> bool" where
  "numeric_resolver getaddrinfo \<longleftrightarrow>
     (\<forall>ip port. getaddrinfo (inet_ntoa ip) (show_dec (unat port)) (make_hints (AI_NUMERICHOST + AI_NUMERICSERV) AF_INET)
        = (0, Some (sockaddr_in port ip, SOCKADDR_IN_SIZE)))"

lemma show_dec_digits: "c \<in> set (show_dec n) \<Longrightarrow> is_digit_char c \<and> \<not> is_space_char c \<and> c \<noteq> CHR ''-'' \<and> c \<noteq> CHR ''+'' \<and> c \<noteq> CHR 0x00"
proof -
  assume "c \<in> set (show_dec n)"
  then obtain d where "d < 10" "c = digit_char d" using show_base_chars[of 10 c n] by (auto simp: show_dec_def)
  then show ?thesis using of_char_digit[of d] by (auto simp: is_digit_char_def is_space_char_def)
qed

lemma show_dec_not_Nil [simp]: "show_dec n \<noteq> []"
  unfolding show_dec_def by (subst show_base.simps) simp

lemma stoi_show_dec:
  assumes "n \<le> 2147483647"
  shows "stoi (show_dec n) = Some (int n)"
proof -
  obtain c cs where s: "show_dec n = c # cs" by (cases "show_dec n") auto
  have c: "\<not> is_space_char c" "c \<noteq> CHR ''-''" "c \<noteq> CHR ''+''" using show_dec_digits[of c n] s by simp_all
  have "takeWhile is_digit_char (c # cs) = c # cs"
    using show_dec_digits[of _ n] s by (simp add: takeWhile_eq_all_conv)
  moreover have "read_base 10 (c # cs) = n" using read_show_base[of 10 n] s by (simp add: show_dec_def)
  ultimately show ?thesis using assms c s by (simp add: stoi_def Let_def)
qed

lemma c_str_id: "CHR 0x00 \<notin> set s \<Longrightarrow> c_str s = s"
  by (auto simp: c_str_def takeWhile_eq_all_conv)

lemma c_str_show_dec [simp]: "c_str (show_dec n) = show_dec n"
  using show_dec_digits by (intro c_str_id) blast

lemma c_str_inet_ntoa [simp]: "c_str (inet_ntoa ip) = inet_ntoa ip"
  using show_dec_digits by (intro c_str_id) (fastforce simp: inet_ntoa_def)

lemma ad_ip_port_numeric:
  assumes "numeric_names getnameinfo"
  shows "ad_ip_port getnameinfo (ad_ipv4 port ip) = Inr (inet_ntoa ip, port)"
proof -
  have "unat port \<le> 2147483647" using unsigned_less[of port, where ?'a = nat] by simp
  then have "stoi (show_dec (unat port)) = Some (int (unat port))" by (rule stoi_show_dec)
  moreover have "ad_size (ad_ipv4 port ip) = SOCKADDR_IN_SIZE" by (simp add: ad_ipv4_def)
  ultimately show ?thesis using assms by (simp add: ad_ip_port_def numeric_names_def)
qed

lemma ad_new_port_numeric:
  assumes "numeric_resolver getaddrinfo"
  shows "ad_new_port getaddrinfo (inet_ntoa ip) port = Inr (ad_ipv4 port ip)"
  using assms by (simp add: ad_new_port_def ad_resolve_def numeric_resolver_def ad_of_sockaddr_in)

end
