(* ===== verification/Socket.thy ===== *)
theory Socket
  imports File_Descriptor Address
begin

text \<open>
  Sockets (\<^verbatim>\<open>util/socket.hh\<close> and \<^verbatim>\<open>.cc\<close>) and TUN/TAP devices (\<^verbatim>\<open>util/tun.cc\<close>): descriptors with more
  system calls. A socket has no state beyond the descriptor's, so that its operations are
  computations on the same pair of the shared wrapper and the kernel. A constructor is a computation
  on the kernel alone that returns the wrapper. \<open>Address::Raw\<close> is the storage that the kernel fills,
  with the length it reports.
\<close>

section \<open>Sockets\<close>

abbreviation AF_UNIX :: int where "AF_UNIX \<equiv> 1"
abbreviation SOCK_STREAM :: int where "SOCK_STREAM \<equiv> 1"
abbreviation SOCK_DGRAM :: int where "SOCK_DGRAM \<equiv> 2"
abbreviation SOL_SOCKET :: int where "SOL_SOCKET \<equiv> 1"
abbreviation SO_REUSEADDR :: int where "SO_REUSEADDR \<equiv> 2"
abbreviation SO_TYPE :: int where "SO_TYPE \<equiv> 3"
abbreviation SO_DOMAIN :: int where "SO_DOMAIN \<equiv> 39"
abbreviation SHUT_RD :: int where "SHUT_RD \<equiv> 0"
abbreviation SHUT_WR :: int where "SHUT_WR \<equiv> 1"
abbreviation SHUT_RDWR :: int where "SHUT_RDWR \<equiv> 2"
abbreviation SIZEOF_INT :: nat where "SIZEOF_INT \<equiv> 4"

definition addr_exn :: "addr_error \<Rightarrow> sys_error" where
  "addr_exn e =
     (case e of
        InvalidSockaddrSize \<Rightarrow> RuntimeError ''invalid sockaddr size''
      | GaiError attempt code \<Rightarrow> TaggedError attempt code
      | NoResults \<Rightarrow> RuntimeError ''getaddrinfo returned successfully but with no results''
      | NotIPv4 \<Rightarrow> RuntimeError ''ipv4_numeric called on non-IPV4 address''
      | BadNumber \<Rightarrow> InvalidArgument)"

definition addr_result :: "addr_error + 'a \<Rightarrow> sys_error + 'a" where
  "addr_result r = (case r of Inl e \<Rightarrow> Inl (addr_exn e) | Inr a \<Rightarrow> Inr a)"

text \<open>A checked call that makes a descriptor.\<close>

definition fd_of_call :: "string \<Rightarrow> ('w, unit) syscall \<Rightarrow> ('w, sys_error, FDWrapper) eff" where
  "fd_of_call attempt call w =
     (case call w of (ret, _, w') \<Rightarrow>
        (case SystemCall attempt ret 0 of
           Inl e \<Rightarrow> (Inl e, w')
         | Inr fd \<Rightarrow> (fd_wrapper fd, w')))"

definition so_new :: "(int \<Rightarrow> int \<Rightarrow> ('w, unit) syscall) \<Rightarrow> int \<Rightarrow> int \<Rightarrow> ('w, sys_error, FDWrapper) eff" where
  "so_new sys_socket domain type = fd_of_call ''socket'' (sys_socket domain type)"

text \<open>\<^verbatim>\<open>getsockopt\<close> stores a value and a length. The handle that the constructor took over is released by
  the caller's code when it throws.\<close>

definition so_from_fd :: "(int \<Rightarrow> int \<Rightarrow> int \<Rightarrow> ('w, int \<times> nat) syscall) \<Rightarrow> int \<Rightarrow> int \<Rightarrow> ('w, unit) fd_eff" where
  "so_from_fd sys_getsockopt domain type =
     ebind (fd_call ''getsockopt'' (\<lambda>fd. sys_getsockopt fd SOL_SOCKET SO_DOMAIN)) (\<lambda>(_, actual_value, len).
       if len \<noteq> SIZEOF_INT \<or> actual_value \<noteq> domain then ethrow (RuntimeError ''socket domain mismatch'')
       else ebind (fd_call ''getsockopt'' (\<lambda>fd. sys_getsockopt fd SOL_SOCKET SO_TYPE)) (\<lambda>(_, actual_value, len).
         if len \<noteq> SIZEOF_INT \<or> actual_value \<noteq> type then ethrow (RuntimeError ''socket type mismatch'')
         else ereturn ()))"

definition so_get_address :: "string \<Rightarrow> (int \<Rightarrow> ('w, bytes \<times> nat) syscall) \<Rightarrow> ('w, Address) fd_eff" where
  "so_get_address name_of_function function =
     ebind (fd_call name_of_function function) (\<lambda>(_, address, size).
       eresult (addr_result (ad_of_sockaddr address size)))"

definition so_local_address :: "(int \<Rightarrow> ('w, bytes \<times> nat) syscall) \<Rightarrow> ('w, Address) fd_eff" where
  "so_local_address sys_getsockname = so_get_address ''getsockname'' sys_getsockname"

definition so_peer_address :: "(int \<Rightarrow> ('w, bytes \<times> nat) syscall) \<Rightarrow> ('w, Address) fd_eff" where
  "so_peer_address sys_getpeername = so_get_address ''getpeername'' sys_getpeername"

definition so_bind :: "(int \<Rightarrow> bytes \<Rightarrow> nat \<Rightarrow> ('w, unit) syscall) \<Rightarrow> Address \<Rightarrow> ('w, unit) fd_eff" where
  "so_bind sys_bind address =
     eseq (fd_call ''bind'' (\<lambda>fd. sys_bind fd (ad_storage address) (ad_size address))) (ereturn ())"

definition so_connect :: "(int \<Rightarrow> bytes \<Rightarrow> nat \<Rightarrow> ('w, unit) syscall) \<Rightarrow> Address \<Rightarrow> ('w, unit) fd_eff" where
  "so_connect sys_connect address =
     eseq (fd_call ''connect'' (\<lambda>fd. sys_connect fd (ad_storage address) (ad_size address))) (ereturn ())"

definition so_shutdown :: "(int \<Rightarrow> int \<Rightarrow> ('w, unit) syscall) \<Rightarrow> int \<Rightarrow> ('w, unit) fd_eff" where
  "so_shutdown sys_shutdown how =
     eseq (fd_call ''shutdown'' (\<lambda>fd. sys_shutdown fd how))
       (if how = SHUT_RD then fd_update register_read
        else if how = SHUT_WR then fd_update register_write
        else if how = SHUT_RDWR then eseq (fd_update register_read) (fd_update register_write)
        else ethrow (RuntimeError ''Socket::shutdown() called with invalid `how`''))"

text \<open>The option value is an \<open>int\<close>, the only type it is used with.\<close>

definition so_setsockopt :: "(int \<Rightarrow> int \<Rightarrow> int \<Rightarrow> int \<Rightarrow> ('w, unit) syscall) \<Rightarrow> int \<Rightarrow> int \<Rightarrow> int \<Rightarrow> ('w, unit) fd_eff" where
  "so_setsockopt sys_setsockopt level option option_value =
     eseq (fd_call ''setsockopt'' (\<lambda>fd. sys_setsockopt fd level option option_value)) (ereturn ())"

definition so_set_reuseaddr :: "(int \<Rightarrow> int \<Rightarrow> int \<Rightarrow> int \<Rightarrow> ('w, unit) syscall) \<Rightarrow> ('w, unit) fd_eff" where
  "so_set_reuseaddr sys_setsockopt = so_setsockopt sys_setsockopt SOL_SOCKET SO_REUSEADDR 1"

section \<open>UDP\<close>

record received_datagram =
  rd_source_address :: Address
  rd_payload :: bytes

text \<open>\<^verbatim>\<open>recvfrom\<close> gets the size of the buffer and stores the data, at most that many bytes, the source
  address and its length; with \<^verbatim>\<open>MSG_TRUNC\<close> it returns the real length of the datagram.\<close>

definition udp_recv_into :: "(int \<Rightarrow> nat \<Rightarrow> ('w, bytes \<times> bytes \<times> nat) syscall) \<Rightarrow> received_datagram \<Rightarrow> nat \<Rightarrow>
    ('w, received_datagram) fd_eff" where
  "udp_recv_into sys_recvfrom datagram mtu =
     (let payload = resize (rd_payload datagram) mtu
      in ebind (fd_call ''recvfrom'' (\<lambda>fd. sys_recvfrom fd (length payload)))
        (\<lambda>(recv_len, data, datagram_source_address, fromlen).
         if recv_len > as_ssize mtu then ethrow (RuntimeError ''recvfrom (oversized datagram)'')
         else eseq (fd_update register_read)
           (ebind (eresult (addr_result (ad_of_sockaddr datagram_source_address fromlen))) (\<lambda>source_address.
             if recv_len < 0 then ethrow LengthError
             else ereturn \<lparr>rd_source_address = source_address,
                    rd_payload = resize (data @ drop (length data) payload) (nat recv_len)\<rparr>))))"

text \<open>The address of size zero that the initializer of \<open>recv\<close> makes.\<close>

definition udp_recv :: "(int \<Rightarrow> nat \<Rightarrow> ('w, bytes \<times> bytes \<times> nat) syscall) \<Rightarrow> nat \<Rightarrow> ('w, received_datagram) fd_eff" where
  "udp_recv sys_recvfrom mtu =
     ebind (eresult (addr_result (ad_of_sockaddr [] 0))) (\<lambda>address.
       udp_recv_into sys_recvfrom \<lparr>rd_source_address = address, rd_payload = []\<rparr> mtu)"

definition sendmsg_helper :: "(int \<Rightarrow> (bytes \<times> nat) option \<Rightarrow> (bytes \<times> nat) list \<Rightarrow> ('w, unit) syscall) \<Rightarrow>
    (bytes \<times> nat) option \<Rightarrow> BufferViewList \<Rightarrow> ('w, unit) fd_eff" where
  "sendmsg_helper sys_sendmsg destination payload =
     ebind (fd_call ''sendmsg'' (\<lambda>fd. sys_sendmsg fd destination (bvl_as_iovecs payload))) (\<lambda>(bytes_sent, _).
       if as_size bytes_sent \<noteq> bvl_size payload
       then ethrow (RuntimeError ''datagram payload too big for sendmsg()'')
       else ereturn ())"

definition udp_sendto :: "(int \<Rightarrow> (bytes \<times> nat) option \<Rightarrow> (bytes \<times> nat) list \<Rightarrow> ('w, unit) syscall) \<Rightarrow>
    Address \<Rightarrow> BufferViewList \<Rightarrow> ('w, unit) fd_eff" where
  "udp_sendto sys_sendmsg destination payload =
     eseq (sendmsg_helper sys_sendmsg (Some (ad_storage destination, ad_size destination)) payload)
       (fd_update register_write)"

definition udp_send :: "(int \<Rightarrow> (bytes \<times> nat) option \<Rightarrow> (bytes \<times> nat) list \<Rightarrow> ('w, unit) syscall) \<Rightarrow>
    BufferViewList \<Rightarrow> ('w, unit) fd_eff" where
  "udp_send sys_sendmsg payload =
     eseq (sendmsg_helper sys_sendmsg None payload) (fd_update register_write)"

section \<open>TCP\<close>

definition tcp_listen :: "(int \<Rightarrow> int \<Rightarrow> ('w, unit) syscall) \<Rightarrow> int \<Rightarrow> ('w, unit) fd_eff" where
  "tcp_listen sys_listen backlog =
     eseq (fd_call ''listen'' (\<lambda>fd. sys_listen fd backlog)) (ereturn ())"

text \<open>The new descriptor is checked by the constructor of \<open>TCPSocket\<close>; when that throws, the wrapper is
  destroyed.\<close>

definition tcp_accept :: "(int \<Rightarrow> ('w, unit) syscall) \<Rightarrow> (int \<Rightarrow> ('w, unit) syscall) \<Rightarrow> (int \<Rightarrow> int \<Rightarrow> int \<Rightarrow> ('w, int \<times> nat) syscall) \<Rightarrow>
    ('w, FDWrapper) fd_eff" where
  "tcp_accept sys_accept sys_close sys_getsockopt =
     eseq (fd_update register_read)
       (ebind (fd_call ''accept'' sys_accept) (\<lambda>(fd, _).
         ebind (eresult (fd_wrapper fd)) (\<lambda>f s.
           (case so_from_fd sys_getsockopt (int AF_INET) SOCK_STREAM (f, snd s) of
              (Inl e, t) \<Rightarrow> (Inl e, (fst s, snd (fd_destroy sys_close t)))
            | (Inr _, (f', w)) \<Rightarrow> (Inr f', (fst s, w))))))"

section \<open>TUN and TAP devices\<close>

abbreviation IFF_TUN :: nat where "IFF_TUN \<equiv> 1"
abbreviation IFF_TAP :: nat where "IFF_TAP \<equiv> 2"
abbreviation IFF_NO_PI :: nat where "IFF_NO_PI \<equiv> 0x1000"
abbreviation IFNAMSIZ :: nat where "IFNAMSIZ \<equiv> 16"

text \<open>\<^verbatim>\<open>strncpy\<close> of a C string into the zeroed name, and the terminating zero.\<close>

definition ifr_name :: "string \<Rightarrow> string" where
  "ifr_name devname =
     (let name = take (IFNAMSIZ - 1) (c_str devname)
      in name @ replicate (IFNAMSIZ - length name) (CHR 0x00))"

definition tun_new :: "(string \<Rightarrow> ('w, unit) syscall) \<Rightarrow> (int \<Rightarrow> string \<Rightarrow> nat \<Rightarrow> ('w, unit) syscall) \<Rightarrow>
    (int \<Rightarrow> ('w, unit) syscall) \<Rightarrow> string \<Rightarrow> bool \<Rightarrow> ('w, sys_error, FDWrapper) eff" where
  "tun_new sys_open sys_tunsetiff sys_close devname is_tun =
     ebind (fd_of_call ''open'' (sys_open ''/dev/net/tun'')) (\<lambda>f w.
       (case fd_call ''ioctl'' (\<lambda>fd. sys_tunsetiff fd (ifr_name devname) ((if is_tun then IFF_TUN else IFF_TAP) OR IFF_NO_PI))
               (f, w) of
          (Inl e, t) \<Rightarrow> (Inl e, snd (fd_destroy sys_close t))
        | (Inr _, (f', w')) \<Rightarrow> (Inr f', w')))"

end
