(* ===== verification/Network_Interface.thy ===== *)
theory Network_Interface
  imports Address Ordered_Map
begin

text \<open>
  The network interface (\<^verbatim>\<open>libsponge/network_interface.hh\<close> and \<^verbatim>\<open>.cc\<close>): it wraps Internet datagrams in
  Ethernet frames and finds the Ethernet address of the next hop with ARP. The two \<^verbatim>\<open>std::map\<close>s are
  ordered maps, the queues are lists. Exceptions are values of \<open>ni_error\<close>. The debug output of the
  constructor is not modelled.
\<close>

section \<open>Model\<close>

datatype ni_error = NiNotIPv4 | NiBadDatagram | NiUnsupportedArp | NiSplitPayload

record NetworkInterface =
  ni_ethernet_address :: EthernetAddress
  ni_ip_address :: Address
  ni_frames_out :: "EthernetFrame list"
  ni_arp_cache :: "(u32 \<times> EthernetAddress \<times> nat) list"
  ni_pending_datagrams :: "(u32 \<times> IPv4Datagram) list"
  ni_arp_request_timeouts :: "(u32 \<times> nat) list"
  ni_current_time :: nat

definition ni_new :: "EthernetAddress \<Rightarrow> Address \<Rightarrow> NetworkInterface" where
  "ni_new ethernet_address ip_address =
     \<lparr>ni_ethernet_address = ethernet_address, ni_ip_address = ip_address, ni_frames_out = [],
      ni_arp_cache = [], ni_pending_datagrams = [], ni_arp_request_timeouts = [], ni_current_time = 0\<rparr>"

definition ni_make_frame :: "NetworkInterface \<Rightarrow> EthernetAddress \<Rightarrow> u16 \<Rightarrow> bytes list \<Rightarrow> EthernetFrame" where
  "ni_make_frame n dst type payload =
     \<lparr>ef_header = \<lparr>eh_dst = dst, eh_src = ni_ethernet_address n, eh_type = type\<rparr>, ef_payload = payload\<rparr>"

definition ni_arp_request :: "NetworkInterface \<Rightarrow> u32 \<Rightarrow> u32 \<Rightarrow> ARPMessage" where
  "ni_arp_request n own_ip next_hop_ip =
     arp_default\<lparr>arp_opcode := OPCODE_REQUEST, arp_sender_ethernet_address := ni_ethernet_address n,
       arp_sender_ip_address := own_ip, arp_target_ip_address := next_hop_ip\<rparr>"

text \<open>The request of \<open>send_datagram\<close>, sent unless one was sent within the last five seconds.\<close>

definition ni_request :: "u32 \<Rightarrow> NetworkInterface \<Rightarrow> ni_error + NetworkInterface" where
  "ni_request next_hop_ip n =
     (let it_timeout = om_find next_hop_ip (ni_arp_request_timeouts n)
      in if (case it_timeout of None \<Rightarrow> True | Some t \<Rightarrow> sub64 (ni_current_time n) t > 5000) then
           (case ad_ipv4_numeric (ni_ip_address n) of
              Inl _ \<Rightarrow> Inl NiNotIPv4
            | Inr own_ip \<Rightarrow>
                (case arp_serialize (ni_arp_request n own_ip next_hop_ip) of
                   None \<Rightarrow> Inl NiUnsupportedArp
                 | Some payload \<Rightarrow>
                     Inr (n\<lparr>ni_frames_out := ni_frames_out n @ [ni_make_frame n ETHERNET_BROADCAST TYPE_ARP [payload]],
                            ni_arp_request_timeouts :=
                              (if it_timeout = None
                               then om_insert next_hop_ip (ni_current_time n) (ni_arp_request_timeouts n)
                               else om_update next_hop_ip (ni_current_time n) (ni_arp_request_timeouts n))\<rparr>)))
         else Inr n)"

definition ni_send_datagram :: "IPv4Datagram \<Rightarrow> Address \<Rightarrow> NetworkInterface \<Rightarrow> ni_error + NetworkInterface" where
  "ni_send_datagram dgram next_hop n =
     (case ad_ipv4_numeric next_hop of
        Inl _ \<Rightarrow> Inl NiNotIPv4
      | Inr next_hop_ip \<Rightarrow>
          (case om_find next_hop_ip (ni_arp_cache n) of
             Some (ethernet_address, _) \<Rightarrow>
               (case dg_serialize dgram of
                  None \<Rightarrow> Inl NiBadDatagram
                | Some payload \<Rightarrow>
                    Inr (n\<lparr>ni_frames_out := ni_frames_out n @ [ni_make_frame n ethernet_address TYPE_IPv4 payload]\<rparr>))
           | None \<Rightarrow>
               (case ni_request next_hop_ip n of
                  Inl e \<Rightarrow> Inl e
                | Inr n1 \<Rightarrow>
                    Inr (n1\<lparr>ni_pending_datagrams := ni_pending_datagrams n1 @ [(next_hop_ip, dgram)]\<rparr>))))"

text \<open>\<^verbatim>\<open>_arp_cache[ip_address]\<close>: a missing entry is created with zeros.\<close>

definition ni_cache_at :: "u32 \<Rightarrow> NetworkInterface \<Rightarrow> EthernetAddress \<times> NetworkInterface" where
  "ni_cache_at ip_address n =
     (case om_find ip_address (ni_arp_cache n) of
        Some (ethernet_address, _) \<Rightarrow> (ethernet_address, n)
      | None \<Rightarrow> (replicate 6 0,
                  n\<lparr>ni_arp_cache := om_insert ip_address (replicate 6 0, 0) (ni_arp_cache n)\<rparr>))"

fun ni_pending_loop :: "u32 \<Rightarrow> (u32 \<times> IPv4Datagram) list \<Rightarrow> (u32 \<times> IPv4Datagram) list \<Rightarrow>
    NetworkInterface \<Rightarrow> ni_error + NetworkInterface" where
  "ni_pending_loop ip_address [] kept n = Inr (n\<lparr>ni_pending_datagrams := kept\<rparr>)"
| "ni_pending_loop ip_address (it # rest) kept n =
     (if fst it = ip_address then
        (case ni_cache_at ip_address n of (ethernet_address, n1) \<Rightarrow>
           (case dg_serialize (snd it) of
              None \<Rightarrow> Inl NiBadDatagram
            | Some payload \<Rightarrow>
                ni_pending_loop ip_address rest kept
                  (n1\<lparr>ni_frames_out := ni_frames_out n1 @ [ni_make_frame n1 ethernet_address TYPE_IPv4 payload]\<rparr>)))
      else ni_pending_loop ip_address rest (kept @ [it]) n)"

definition ni_send_pending_datagrams :: "u32 \<Rightarrow> NetworkInterface \<Rightarrow> ni_error + NetworkInterface" where
  "ni_send_pending_datagrams ip_address n = ni_pending_loop ip_address (ni_pending_datagrams n) [] n"

definition ni_arp_reply :: "NetworkInterface \<Rightarrow> u32 \<Rightarrow> EthernetAddress \<Rightarrow> u32 \<Rightarrow> ARPMessage" where
  "ni_arp_reply n own_ip sender_ethernet sender_ip =
     arp_default\<lparr>arp_opcode := OPCODE_REPLY, arp_sender_ethernet_address := ni_ethernet_address n,
       arp_sender_ip_address := own_ip, arp_target_ethernet_address := sender_ethernet,
       arp_target_ip_address := sender_ip\<rparr>"

definition ni_learn :: "ARPMessage \<Rightarrow> NetworkInterface \<Rightarrow> NetworkInterface" where
  "ni_learn m n =
     (let sender_ip = arp_sender_ip_address m;
          entry = (arp_sender_ethernet_address m, ni_current_time n)
      in n\<lparr>ni_arp_cache := (if om_find sender_ip (ni_arp_cache n) \<noteq> None
                            then om_update sender_ip entry (ni_arp_cache n)
                            else om_insert sender_ip entry (ni_arp_cache n)),
           ni_arp_request_timeouts := (if om_find sender_ip (ni_arp_request_timeouts n) \<noteq> None
                                       then om_erase sender_ip (ni_arp_request_timeouts n)
                                       else ni_arp_request_timeouts n)\<rparr>)"

definition ni_answer :: "ARPMessage \<Rightarrow> NetworkInterface \<Rightarrow> ni_error + NetworkInterface" where
  "ni_answer m n =
     (if arp_opcode m = OPCODE_REQUEST then
        (case ad_ipv4_numeric (ni_ip_address n) of
           Inl _ \<Rightarrow> Inl NiNotIPv4
         | Inr own_ip \<Rightarrow>
             if arp_target_ip_address m = own_ip then
               (case arp_serialize (ni_arp_reply n own_ip (arp_sender_ethernet_address m) (arp_sender_ip_address m)) of
                  None \<Rightarrow> Inl NiUnsupportedArp
                | Some payload \<Rightarrow>
                    Inr (n\<lparr>ni_frames_out := ni_frames_out n @
                           [ni_make_frame n (arp_sender_ethernet_address m) TYPE_ARP [payload]]\<rparr>))
             else Inr n)
      else Inr n)"

text \<open>A \<^verbatim>\<open>BufferList\<close> converts to a \<^verbatim>\<open>Buffer\<close> only if it holds at most one.\<close>

definition single_buffer :: "bytes list \<Rightarrow> bytes option" where
  "single_buffer bl = (case bl of [] \<Rightarrow> Some [] | [b] \<Rightarrow> Some b | _ \<Rightarrow> None)"

definition ni_recv_frame :: "EthernetFrame \<Rightarrow> NetworkInterface \<Rightarrow>
    ni_error + NetworkInterface \<times> IPv4Datagram option" where
  "ni_recv_frame frame n =
     (let header = ef_header frame;
          payload = ef_payload frame
      in if eh_dst header = ni_ethernet_address n \<or> eh_dst header = ETHERNET_BROADCAST then
           (if eh_type header = TYPE_IPv4 then
              (case single_buffer payload of
                 None \<Rightarrow> Inl NiSplitPayload
               | Some buffer \<Rightarrow>
                   (case dg_parse dg_default buffer of (dgram, result) \<Rightarrow>
                      Inr (n, if result = NoError then Some dgram else None)))
            else if eh_type header = TYPE_ARP then
              (case single_buffer payload of
                 None \<Rightarrow> Inl NiSplitPayload
               | Some buffer \<Rightarrow>
                   (case arp_parse arp_default buffer of (arp_message, result) \<Rightarrow>
                      if result = NoError then
                        (case ni_send_pending_datagrams (arp_sender_ip_address arp_message)
                                (ni_learn arp_message n) of
                           Inl e \<Rightarrow> Inl e
                         | Inr n1 \<Rightarrow>
                             (case ni_answer arp_message n1 of
                                Inl e \<Rightarrow> Inl e
                              | Inr n2 \<Rightarrow> Inr (n2, None)))
                      else Inr (n, None)))
            else Inr (n, None))
         else Inr (n, None))"

fun ni_expire_loop :: "nat \<Rightarrow> (u32 \<times> EthernetAddress \<times> nat) list \<Rightarrow> (u32 \<times> EthernetAddress \<times> nat) list" where
  "ni_expire_loop now [] = []"
| "ni_expire_loop now ((ip, eth, t) # rest) =
     (if sub64 now t > 30000 then ni_expire_loop now rest
      else (ip, eth, t) # ni_expire_loop now rest)"

definition ni_remove_expired_cache :: "NetworkInterface \<Rightarrow> NetworkInterface" where
  "ni_remove_expired_cache n = n\<lparr>ni_arp_cache := ni_expire_loop (ni_current_time n) (ni_arp_cache n)\<rparr>"

definition ni_tick :: "nat \<Rightarrow> NetworkInterface \<Rightarrow> NetworkInterface" where
  "ni_tick ms_since_last_tick n =
     ni_remove_expired_cache (n\<lparr>ni_current_time := add64 (ni_current_time n) ms_since_last_tick\<rparr>)"

section \<open>Invariant\<close>

text \<open>Every pending datagram waits for an address that is not in the cache and for which a request is
  on record. No cache entry is older than thirty seconds.\<close>

definition waiting :: "NetworkInterface \<Rightarrow> u32 \<Rightarrow> bool" where
  "waiting n ip \<longleftrightarrow> om_find ip (ni_arp_cache n) = None \<and> om_find ip (ni_arp_request_timeouts n) \<noteq> None"

definition ni_ok :: "NetworkInterface \<Rightarrow> bool" where
  "ni_ok n \<longleftrightarrow> length (ni_ethernet_address n) = 6 \<and> (\<exists>ip. ad_ipv4_numeric (ni_ip_address n) = Inr ip) \<and>
     om_ok (ni_arp_cache n) \<and> om_ok (ni_arp_request_timeouts n) \<and> ni_current_time n < two64 \<and>
     (\<forall>(ip, eth, t)\<in>set (ni_arp_cache n). length eth = 6 \<and> t \<le> ni_current_time n \<and> ni_current_time n - t \<le> 30000) \<and>
     (\<forall>(ip, t)\<in>set (ni_arp_request_timeouts n). t \<le> ni_current_time n) \<and>
     (\<forall>(ip, d)\<in>set (ni_pending_datagrams n). waiting n ip)"

lemma om_set_update: "x \<in> set (om_update k v m) \<Longrightarrow> x = (k, v) \<or> x \<in> set m"
  by (induction k v m rule: om_update.induct) (auto split: if_splits)

lemma om_set_insert: "x \<in> set (om_insert k v m) \<Longrightarrow> x = (k, v) \<or> x \<in> set m"
  by (induction k v m rule: om_insert.induct) (auto split: if_splits)

lemma om_set_erase: "x \<in> set (om_erase k m) \<Longrightarrow> x \<in> set m"
  by (auto simp: om_erase_def)

lemma om_find_set: "om_find k m = Some v \<Longrightarrow> (k, v) \<in> set m"
  by (simp add: om_find_def map_of_SomeD)

lemma ni_expire_filter:
  "ni_expire_loop now m = filter (\<lambda>(ip, eth, t). \<not> sub64 now t > 30000) m"
  by (induction now m rule: ni_expire_loop.induct) auto

lemma ni_arp_supported:
  "arp_supported (ni_arp_request n own ip)" "arp_supported (ni_arp_reply n own eth ip)"
  by (simp_all add: ni_arp_request_def ni_arp_reply_def arp_supported_def arp_default_def)

section \<open>Sending\<close>

definition ni_request_due :: "NetworkInterface \<Rightarrow> u32 \<Rightarrow> bool" where
  "ni_request_due n ip \<longleftrightarrow>
     (case om_find ip (ni_arp_request_timeouts n) of None \<Rightarrow> True | Some t \<Rightarrow> ni_current_time n - t > 5000)"

definition ni_request_frame :: "NetworkInterface \<Rightarrow> u32 \<Rightarrow> u32 \<Rightarrow> EthernetFrame" where
  "ni_request_frame n own ip =
     ni_make_frame n ETHERNET_BROADCAST TYPE_ARP [the (arp_serialize (ni_arp_request n own ip))]"

lemma ni_okD:
  assumes "ni_ok n"
  shows "length (ni_ethernet_address n) = 6" "om_ok (ni_arp_cache n)" "om_ok (ni_arp_request_timeouts n)"
    "ni_current_time n < two64"
    "om_find ip (ni_arp_cache n) = Some (eth, t) \<Longrightarrow> length eth = 6 \<and> t \<le> ni_current_time n \<and> ni_current_time n - t \<le> 30000"
    "om_find ip (ni_arp_request_timeouts n) = Some t \<Longrightarrow> t \<le> ni_current_time n"
    "(ip, d) \<in> set (ni_pending_datagrams n) \<Longrightarrow> waiting n ip"
  using assms by (auto simp: ni_ok_def dest!: om_find_set dest: bspec)

lemma ni_request_eq:
  assumes "ni_ok n" "ad_ipv4_numeric (ni_ip_address n) = Inr own"
  shows "ni_request ip n = Inr (if ni_request_due n ip
    then n\<lparr>ni_frames_out := ni_frames_out n @ [ni_request_frame n own ip],
           ni_arp_request_timeouts := om_update ip (ni_current_time n) (ni_arp_request_timeouts n)\<rparr>
    else n)"
proof -
  have due: "(case om_find ip (ni_arp_request_timeouts n) of None \<Rightarrow> True
      | Some t \<Rightarrow> sub64 (ni_current_time n) t > 5000) = ni_request_due n ip"
    using ni_okD(4)[OF assms(1)] ni_okD(6)[OF assms(1)]
    by (auto simp: ni_request_due_def no_wrap split: option.split)
  have ins: "om_find ip m = None \<Longrightarrow> om_insert ip v m = om_update ip v m" for v and m :: "(u32 \<times> nat) list"
    by (induction ip v m rule: om_insert.induct) (auto simp: om_find_def split: if_splits)
  obtain payload where "arp_serialize (ni_arp_request n own ip) = Some payload"
    using arp_serialize_eq[OF ni_arp_supported(1)] by blast
  then show ?thesis
    unfolding ni_request_def Let_def due using assms(2) ins by (simp add: ni_request_frame_def)
qed

lemma ni_ok_request:
  assumes ok: "ni_ok n" and r: "ni_request ip n = Inr n'" and miss: "om_find ip (ni_arp_cache n) = None"
  shows "ni_ok (n'\<lparr>ni_pending_datagrams := ni_pending_datagrams n' @ [(ip, d)]\<rparr>)"
proof -
  obtain own where own: "ad_ipv4_numeric (ni_ip_address n) = Inr own" using ok by (auto simp: ni_ok_def)
  note D = ni_okD[OF ok]
  show ?thesis
  proof (cases "ni_request_due n ip")
    case True
    let ?m = "om_update ip (ni_current_time n) (ni_arp_request_timeouts n)"
    have n': "n' = n\<lparr>ni_frames_out := ni_frames_out n @ [ni_request_frame n own ip], ni_arp_request_timeouts := ?m\<rparr>"
      using r ni_request_eq[OF ok own] True by simp
    have "om_find x ?m \<noteq> None" if "x = ip \<or> om_find x (ni_arp_request_timeouts n) \<noteq> None" for x
      using that om_find_update[OF D(3)] by auto
    moreover have "\<forall>(ip, t)\<in>set ?m. t \<le> ni_current_time n"
      using ok by (auto simp: ni_ok_def dest!: om_set_update)
    ultimately show ?thesis
      using ok miss om_ok_update[OF D(3)] unfolding n' by (auto simp: ni_ok_def waiting_def)
  next
    case False
    then have "n' = n" using r ni_request_eq[OF ok own] by simp
    moreover have "om_find ip (ni_arp_request_timeouts n) \<noteq> None"
      using False by (auto simp: ni_request_due_def split: option.splits)
    ultimately show ?thesis using ok miss by (auto simp: ni_ok_def waiting_def)
  qed
qed

lemma ni_ok_frames: "ni_ok (n\<lparr>ni_frames_out := fs\<rparr>) = ni_ok n"
  by (simp add: ni_ok_def waiting_def)

lemma ni_ok_send: "ni_ok n \<Longrightarrow> ni_send_datagram d hop n = Inr n' \<Longrightarrow> ni_ok n'"
  by (auto simp: ni_send_datagram_def ni_ok_frames ni_ok_request split: sum.splits option.splits)

section \<open>Receiving\<close>

lemma ni_pending_loop_eq:
  assumes "om_find ip (ni_arp_cache n) = Some (eth, t)"
  shows "ni_pending_loop ip its kept n =
    (if \<forall>x\<in>set its. fst x = ip \<longrightarrow> dg_serialize (snd x) \<noteq> None
     then Inr (n\<lparr>ni_pending_datagrams := kept @ filter (\<lambda>x. fst x \<noteq> ip) its,
       ni_frames_out := ni_frames_out n @
         map (\<lambda>x. ni_make_frame n eth TYPE_IPv4 (the (dg_serialize (snd x)))) (filter (\<lambda>x. fst x = ip) its)\<rparr>)
     else Inl NiBadDatagram)"
  using assms
proof (induction its arbitrary: kept n)
  case (Cons x its)
  show ?case
  proof (cases "fst x = ip")
    case True
    have "ni_make_frame (n\<lparr>ni_frames_out := fs\<rparr>) = ni_make_frame n" for fs
      by (simp add: ni_make_frame_def fun_eq_iff)
    then show ?thesis using Cons True by (auto simp: ni_cache_at_def split: option.splits)
  next
    case False
    then show ?thesis using Cons by auto
  qed
qed simp

lemma ni_learn_cache:
  assumes "ni_ok n"
  shows "om_ok (ni_arp_cache (ni_learn m n))" "om_ok (ni_arp_request_timeouts (ni_learn m n))"
    "om_find x (ni_arp_cache (ni_learn m n)) =
       (if x = arp_sender_ip_address m then Some (arp_sender_ethernet_address m, ni_current_time n)
        else om_find x (ni_arp_cache n))"
    "om_find x (ni_arp_request_timeouts (ni_learn m n)) =
       (if x = arp_sender_ip_address m then None else om_find x (ni_arp_request_timeouts n))"
  using ni_okD(2,3)[OF assms]
  by (auto simp: ni_learn_def Let_def om_ok_update om_ok_insert om_ok_erase om_find_update
      om_find_insert om_find_erase)

lemma ni_learn_fields [simp]:
  "ni_ethernet_address (ni_learn m n) = ni_ethernet_address n" "ni_ip_address (ni_learn m n) = ni_ip_address n"
  "ni_frames_out (ni_learn m n) = ni_frames_out n" "ni_pending_datagrams (ni_learn m n) = ni_pending_datagrams n"
  "ni_current_time (ni_learn m n) = ni_current_time n"
  by (simp_all add: ni_learn_def Let_def)

lemma ni_make_frame_learn [simp]: "ni_make_frame (ni_learn m n) = ni_make_frame n"
  by (simp add: ni_make_frame_def fun_eq_iff)

text \<open>The state after learning, with the waiting datagrams sent.\<close>

definition ni_flushed :: "ARPMessage \<Rightarrow> NetworkInterface \<Rightarrow> NetworkInterface" where
  "ni_flushed m n = (ni_learn m n)\<lparr>
     ni_pending_datagrams := filter (\<lambda>x. fst x \<noteq> arp_sender_ip_address m) (ni_pending_datagrams n),
     ni_frames_out := ni_frames_out n @
       map (\<lambda>x. ni_make_frame n (arp_sender_ethernet_address m) TYPE_IPv4 (the (dg_serialize (snd x))))
         (filter (\<lambda>x. fst x = arp_sender_ip_address m) (ni_pending_datagrams n))\<rparr>"

lemma ni_send_pending_eq:
  assumes "ni_ok n"
  shows "ni_send_pending_datagrams (arp_sender_ip_address m) (ni_learn m n) =
    (if \<forall>x\<in>set (ni_pending_datagrams n). fst x = arp_sender_ip_address m \<longrightarrow> dg_serialize (snd x) \<noteq> None
     then Inr (ni_flushed m n) else Inl NiBadDatagram)"
proof -
  have "om_find (arp_sender_ip_address m) (ni_arp_cache (ni_learn m n))
      = Some (arp_sender_ethernet_address m, ni_current_time n)"
    by (simp add: ni_learn_cache(3)[OF assms])
  from ni_pending_loop_eq[OF this] show ?thesis
    by (simp add: ni_send_pending_datagrams_def ni_flushed_def)
qed

lemma ni_ok_flushed:
  assumes ok: "ni_ok n" and "length (arp_sender_ethernet_address m) = 6"
  shows "ni_ok (ni_flushed m n)"
proof -
  note L = ni_learn_cache[OF ok, where m = m]
  have "\<forall>(ip, eth, t)\<in>set (ni_arp_cache (ni_learn m n)). length eth = 6 \<and> t \<le> ni_current_time n \<and> ni_current_time n - t \<le> 30000"
    using ok assms(2) by (auto simp: ni_ok_def ni_learn_def Let_def dest!: om_set_update om_set_insert split: if_splits)
  moreover have "\<forall>(ip, t)\<in>set (ni_arp_request_timeouts (ni_learn m n)). t \<le> ni_current_time n"
    using ok by (auto simp: ni_ok_def ni_learn_def Let_def dest!: om_set_erase split: if_splits)
  moreover have "waiting (ni_flushed m n) ip" if "waiting n ip" "ip \<noteq> arp_sender_ip_address m" for ip
    using that L(3,4) by (simp add: waiting_def ni_flushed_def)
  ultimately show ?thesis using ok L(1,2) by (auto simp: ni_ok_def ni_flushed_def)
qed

lemma ni_answer_eq:
  assumes "ad_ipv4_numeric (ni_ip_address n) = Inr own"
  shows "ni_answer m n = Inr (n\<lparr>ni_frames_out := ni_frames_out n @
    (if arp_opcode m = OPCODE_REQUEST \<and> arp_target_ip_address m = own
     then [ni_make_frame n (arp_sender_ethernet_address m) TYPE_ARP
       [the (arp_serialize (ni_arp_reply n own (arp_sender_ethernet_address m) (arp_sender_ip_address m)))]]
     else [])\<rparr>)"
proof -
  obtain payload where "arp_serialize (ni_arp_reply n own (arp_sender_ethernet_address m) (arp_sender_ip_address m)) = Some payload"
    using arp_serialize_eq[OF ni_arp_supported(2)] by blast
  then show ?thesis using assms by (simp add: ni_answer_def)
qed

lemma arp_parse_length:
  assumes "arp_parse m0 b = (m, NoError)"
  shows "length (arp_sender_ethernet_address m) = 6"
  using assms by (auto simp: arp_parse_def Let_def split_beta np_array_length split: if_splits)

lemma ni_ok_recv:
  assumes ok: "ni_ok n" and r: "ni_recv_frame f n = Inr (n', res)"
  shows "ni_ok n'"
proof (cases "n' = n")
  case False
  then obtain b m n1 where m: "arp_parse arp_default b = (m, NoError)"
    and n1: "ni_send_pending_datagrams (arp_sender_ip_address m) (ni_learn m n) = Inr n1" "ni_answer m n1 = Inr n'"
    using r by (auto simp: ni_recv_frame_def Let_def split: if_splits option.splits prod.splits sum.splits)
  then have n1': "n1 = ni_flushed m n" using ni_send_pending_eq[OF ok, of m] by (simp split: if_splits)
  then have ok1: "ni_ok n1" using ni_ok_flushed[OF ok arp_parse_length[OF m]] by simp
  then obtain own where "ad_ipv4_numeric (ni_ip_address n1) = Inr own" by (auto simp: ni_ok_def)
  then show ?thesis using ni_answer_eq[of n1 own m] n1(2) ok1 by (auto simp: ni_ok_frames)
qed (use ok in simp)

section \<open>Time\<close>

lemma ni_tick_cache:
  assumes "ni_ok n" "ni_current_time n + ms < two64"
  shows "ni_arp_cache (ni_tick ms n) =
    filter (\<lambda>x. ni_current_time n + ms - snd (snd x) \<le> 30000) (ni_arp_cache n)"
proof -
  let ?now = "ni_current_time n + ms"
  have "(\<not> sub64 ?now (snd (snd x)) > 30000) = (?now - snd (snd x) \<le> 30000)" if "x \<in> set (ni_arp_cache n)" for x
  proof -
    have "snd (snd x) \<le> ?now" using assms(1) that by (auto simp: ni_ok_def split_beta)
    then show ?thesis using assms(2) by (simp add: no_wrap not_less)
  qed
  then have "ni_expire_loop ?now (ni_arp_cache n) = filter (\<lambda>x. ?now - snd (snd x) \<le> 30000) (ni_arp_cache n)"
    unfolding ni_expire_filter split_beta by (intro filter_cong) simp_all
  then show ?thesis
    using assms(2) by (simp add: ni_tick_def ni_remove_expired_cache_def no_wrap split_beta)
qed

lemma om_find_filter_None: "om_find k m = None \<Longrightarrow> om_find k (filter P m) = None"
  by (auto simp: om_find_None om_keys_def)

lemma ni_ok_tick:
  assumes ok: "ni_ok n" and ms: "ni_current_time n + ms < two64"
  shows "ni_ok (ni_tick ms n)" "ni_current_time (ni_tick ms n) = ni_current_time n + ms"
proof -
  let ?n = "ni_tick ms n"
  have f: "ni_current_time ?n = ni_current_time n + ms" "ni_pending_datagrams ?n = ni_pending_datagrams n"
    "ni_arp_request_timeouts ?n = ni_arp_request_timeouts n" "ni_ip_address ?n = ni_ip_address n"
    "ni_ethernet_address ?n = ni_ethernet_address n"
    using ms by (simp_all add: ni_tick_def ni_remove_expired_cache_def no_wrap)
  then show "ni_current_time (ni_tick ms n) = ni_current_time n + ms" by simp
  show "ni_ok ?n"
    using ok ms om_ok_filter om_find_filter_None unfolding ni_ok_def waiting_def f ni_tick_cache[OF ok ms]
    by fastforce
qed

section \<open>Sessions\<close>

text \<open>The calls of the owner; \<open>NiTake\<close> takes the frames to send.\<close>

datatype ni_op = NiSend IPv4Datagram Address | NiRecv EthernetFrame | NiTick nat | NiTake

fun ni_exec :: "ni_op \<Rightarrow> NetworkInterface \<Rightarrow> ni_error + NetworkInterface" where
  "ni_exec (NiSend d hop) n = ni_send_datagram d hop n"
| "ni_exec (NiRecv f) n = (case ni_recv_frame f n of Inl e \<Rightarrow> Inl e | Inr (n', _) \<Rightarrow> Inr n')"
| "ni_exec (NiTick ms) n = Inr (ni_tick ms n)"
| "ni_exec NiTake n = Inr (n\<lparr>ni_frames_out := []\<rparr>)"

fun ni_run :: "ni_op list \<Rightarrow> NetworkInterface \<Rightarrow> ni_error + NetworkInterface" where
  "ni_run [] n = Inr n"
| "ni_run (x # ops) n = (case ni_exec x n of Inl e \<Rightarrow> Inl e | Inr n' \<Rightarrow> ni_run ops n')"

fun ni_op_time :: "ni_op \<Rightarrow> nat" where
  "ni_op_time (NiTick ms) = ms"
| "ni_op_time _ = 0"

text \<open>Calls that follow the interface: the next hop is an IPv4 address, the datagram can be serialized,
  and the payload of a frame is in one buffer, as it is when the frame was read from a device.\<close>

fun ni_op_fine :: "ni_op \<Rightarrow> bool" where
  "ni_op_fine (NiSend d hop) \<longleftrightarrow> dg_serialize d \<noteq> None \<and> (case ad_ipv4_numeric hop of Inl _ \<Rightarrow> False | Inr _ \<Rightarrow> True)"
| "ni_op_fine (NiRecv f) \<longleftrightarrow> length (ef_payload f) \<le> 1"
| "ni_op_fine _ \<longleftrightarrow> True"

definition ni_fine :: "NetworkInterface \<Rightarrow> bool" where
  "ni_fine n \<longleftrightarrow> ni_ok n \<and> (\<forall>x\<in>set (ni_pending_datagrams n). dg_serialize (snd x) \<noteq> None)"

lemma single_buffer_small: "length bl \<le> 1 \<Longrightarrow> single_buffer bl \<noteq> None"
  by (cases bl) (auto simp: single_buffer_def)

lemma ni_recv_fine:
  assumes n: "ni_fine n" and f: "length (ef_payload f) \<le> 1"
  obtains n' res where "ni_recv_frame f n = Inr (n', res)" "ni_fine n'" "ni_current_time n' = ni_current_time n"
proof -
  have ok: "ni_ok n" using n by (simp add: ni_fine_def)
  obtain own where own: "ad_ipv4_numeric (ni_ip_address n) = Inr own" using ok by (auto simp: ni_ok_def)
  obtain b where b: "single_buffer (ef_payload f) = Some b" using single_buffer_small[OF f] by auto
  obtain m res where m: "arp_parse arp_default b = (m, res)" by fastforce
  have p: "ni_send_pending_datagrams (arp_sender_ip_address m) (ni_learn m n) = Inr (ni_flushed m n)"
    using ni_send_pending_eq[OF ok, of m] n by (auto simp: ni_fine_def)
  have a: "ni_answer m (ni_flushed m n) = Inr ((ni_flushed m n)\<lparr>ni_frames_out := ni_frames_out (ni_flushed m n) @
    (if arp_opcode m = OPCODE_REQUEST \<and> arp_target_ip_address m = own
     then [ni_make_frame (ni_flushed m n) (arp_sender_ethernet_address m) TYPE_ARP
       [the (arp_serialize (ni_arp_reply (ni_flushed m n) own (arp_sender_ethernet_address m) (arp_sender_ip_address m)))]]
     else [])\<rparr>)"
    using own by (intro ni_answer_eq) (simp add: ni_flushed_def)
  have "\<exists>n' res. ni_recv_frame f n = Inr (n', res) \<and> ni_current_time n' = ni_current_time n \<and>
      set (ni_pending_datagrams n') \<subseteq> set (ni_pending_datagrams n)"
    using b m p a by (auto simp: ni_recv_frame_def Let_def ni_flushed_def split: prod.split)
  then show thesis using that ni_ok_recv[OF ok] n unfolding ni_fine_def by blast
qed

lemma ni_request_pending:
  assumes "ni_ok n" "ni_request ip n = Inr n'"
  shows "ni_pending_datagrams n' = ni_pending_datagrams n \<and> ni_current_time n' = ni_current_time n"
proof -
  obtain own where "ad_ipv4_numeric (ni_ip_address n) = Inr own" using assms(1) by (auto simp: ni_ok_def)
  from ni_request_eq[OF assms(1) this, of ip] show ?thesis using assms(2) by (auto split: if_splits)
qed

lemma ni_exec_fine:
  assumes n: "ni_fine n" and x: "ni_op_fine x" and t: "ni_current_time n + ni_op_time x < two64"
  obtains n' where "ni_exec x n = Inr n'" "ni_fine n'" "ni_current_time n' = ni_current_time n + ni_op_time x"
proof (cases x)
  case (NiSend d hop)
  have ok: "ni_ok n" using n by (simp add: ni_fine_def)
  obtain own where own: "ad_ipv4_numeric (ni_ip_address n) = Inr own" using ok by (auto simp: ni_ok_def)
  obtain ip payload where ip: "ad_ipv4_numeric hop = Inr ip" and d: "dg_serialize d = Some payload"
    using x NiSend by (auto split: sum.splits)
  obtain n1 where n1: "ni_request ip n = Inr n1" using ni_request_eq[OF ok own] by blast
  have "\<exists>n'. ni_send_datagram d hop n = Inr n' \<and> ni_current_time n' = ni_current_time n \<and>
      set (ni_pending_datagrams n') \<subseteq> insert (ip, d) (set (ni_pending_datagrams n))"
    using ip d n1 ni_request_pending[OF ok n1] by (auto simp: ni_send_datagram_def split: option.split)
  then obtain n' where n': "ni_send_datagram d hop n = Inr n'" "ni_current_time n' = ni_current_time n"
    "set (ni_pending_datagrams n') \<subseteq> insert (ip, d) (set (ni_pending_datagrams n))" by blast
  have "ni_fine n'" using ni_ok_send[OF ok n'(1)] n'(3) n d by (auto simp: ni_fine_def)
  then show thesis using that n' NiSend by simp
next
  case (NiRecv f)
  have "length (ef_payload f) \<le> 1" using x NiRecv by simp
  from ni_recv_fine[OF n this] show thesis using that NiRecv by (metis add_0_right ni_exec.simps(2) ni_op_time.simps(3) old.prod.case sum.case(2))
next
  case (NiTick ms)
  have ok: "ni_ok n" and tm: "ni_current_time n + ms < two64" using n t NiTick by (simp_all add: ni_fine_def)
  have "ni_pending_datagrams (ni_tick ms n) = ni_pending_datagrams n"
    by (simp add: ni_tick_def ni_remove_expired_cache_def)
  then show thesis using that ni_ok_tick[OF ok tm] n NiTick by (simp add: ni_fine_def)
next
  case NiTake
  then show thesis using that n by (simp add: ni_fine_def ni_ok_frames)
qed

lemma ni_run_fine:
  assumes "ni_fine n" "list_all ni_op_fine ops" "ni_current_time n + sum_list (map ni_op_time ops) < two64"
  shows "\<exists>n'. ni_run ops n = Inr n' \<and> ni_fine n'"
  using assms
proof (induction ops arbitrary: n)
  case (Cons x ops)
  have t: "ni_current_time n + ni_op_time x < two64" and x: "ni_op_fine x" using Cons.prems by simp_all
  obtain n' where "ni_exec x n = Inr n'" "ni_fine n'" "ni_current_time n' = ni_current_time n + ni_op_time x"
    by (rule ni_exec_fine[OF Cons.prems(1) x t])
  then show ?case using Cons by simp
qed simp

lemma ni_fine_new:
  assumes "length mac = 6" "ad_ipv4_numeric addr = Inr ip"
  shows "ni_fine (ni_new mac addr)"
  using assms by (simp add: ni_fine_def ni_ok_def ni_new_def om_ok_def)

section \<open>Requests\<close>

text \<open>\<open>asks ip f\<close>: the frame \<open>f\<close> is an ARP request for \<open>ip\<close>, as its receiver reads it.\<close>

definition asks :: "u32 \<Rightarrow> EthernetFrame \<Rightarrow> bool" where
  "asks ip f \<longleftrightarrow> eh_type (ef_header f) = TYPE_ARP \<and>
     (case arp_parse arp_default (concat (ef_payload f)) of (m, r) \<Rightarrow>
        r = NoError \<and> arp_opcode m = OPCODE_REQUEST \<and> arp_target_ip_address m = ip)"

lemma arp_message_wire:
  assumes "length (ni_ethernet_address n) = 6"
  shows "arp_parse m0 (the (arp_serialize (ni_arp_request n own ip))) = (ni_arp_request n own ip, NoError)"
    "length eth = 6 \<Longrightarrow>
      arp_parse m0 (the (arp_serialize (ni_arp_reply n own eth ip))) = (ni_arp_reply n own eth ip, NoError)"
proof -
  have "arp_wf (ni_arp_request n own ip)" using assms by (simp add: arp_wf_def ni_arp_request_def arp_default_def)
  from arp_parse_serialize[OF ni_arp_supported(1) this, of m0 "[]"]
  show "arp_parse m0 (the (arp_serialize (ni_arp_request n own ip))) = (ni_arp_request n own ip, NoError)" by force
  assume "length eth = 6"
  then have "arp_wf (ni_arp_reply n own eth ip)" using assms by (simp add: arp_wf_def ni_arp_reply_def)
  from arp_parse_serialize[OF ni_arp_supported(2) this, of m0 "[]"]
  show "arp_parse m0 (the (arp_serialize (ni_arp_reply n own eth ip))) = (ni_arp_reply n own eth ip, NoError)" by force
qed

lemma arp_message_fields:
  "arp_opcode (ni_arp_request n own ip) = OPCODE_REQUEST" "arp_target_ip_address (ni_arp_request n own ip) = ip"
  "arp_sender_ip_address (ni_arp_request n own ip) = own"
  "arp_sender_ethernet_address (ni_arp_request n own ip) = ni_ethernet_address n"
  "arp_opcode (ni_arp_reply n own eth ip) = OPCODE_REPLY" "arp_sender_ip_address (ni_arp_reply n own eth ip) = own"
  "arp_sender_ethernet_address (ni_arp_reply n own eth ip) = ni_ethernet_address n"
  by (simp_all add: ni_arp_request_def ni_arp_reply_def)

lemma asks_request: "length (ni_ethernet_address n) = 6 \<Longrightarrow> asks ip (ni_request_frame n own ip') \<longleftrightarrow> ip = ip'"
  by (auto simp: asks_def ni_request_frame_def ni_make_frame_def arp_message_wire arp_message_fields)

lemma ni_send_cases:
  assumes "ni_send_datagram d hop n = Inr n'"
  obtains (sent) eth payload where "n' = n\<lparr>ni_frames_out := ni_frames_out n @ [ni_make_frame n eth TYPE_IPv4 payload]\<rparr>"
  | (queued) ip n1 where "ni_request ip n = Inr n1"
      "n' = n1\<lparr>ni_pending_datagrams := ni_pending_datagrams n1 @ [(ip, d)]\<rparr>"
  using assms that unfolding ni_send_datagram_def by (fastforce split: sum.splits option.splits)

lemma asks_datagram: "\<not> asks ip (ni_make_frame n eth TYPE_IPv4 payload)"
  by (simp add: asks_def ni_make_frame_def)

lemma send_quiet:
  assumes ok: "ni_ok n" and s: "ni_send_datagram d hop n = Inr n'"
    and t: "om_find ip (ni_arp_request_timeouts n) = Some t" "ni_current_time n \<le> t + 5000"
  shows "\<exists>fs. ni_frames_out n' = ni_frames_out n @ fs \<and> list_all (\<lambda>f. \<not> asks ip f) fs"
    "om_find ip (ni_arp_request_timeouts n') = Some t" "ni_current_time n' = ni_current_time n"
proof -
  obtain own where own: "ad_ipv4_numeric (ni_ip_address n) = Inr own" using ok by (auto simp: ni_ok_def)
  note D = ni_okD[OF ok]
  have "(\<exists>fs. ni_frames_out n' = ni_frames_out n @ fs \<and> list_all (\<lambda>f. \<not> asks ip f) fs) \<and>
    om_find ip (ni_arp_request_timeouts n') = Some t \<and> ni_current_time n' = ni_current_time n"
    using s
  proof (cases rule: ni_send_cases)
    case sent
    then show ?thesis using t(1) asks_datagram by auto
  next
    case (queued ip' n1)
    note n1 = queued(1) and n' = queued(2)
    have due: "ip' \<noteq> ip" if "ni_request_due n ip'" using that t by (auto simp: ni_request_due_def)
    show ?thesis
      using n1 due t(1) asks_request[OF D(1)] unfolding n' ni_request_eq[OF ok own]
      by (auto simp: om_find_update[OF D(3)] split: if_splits)
  qed
  then show "\<exists>fs. ni_frames_out n' = ni_frames_out n @ fs \<and> list_all (\<lambda>f. \<not> asks ip f) fs"
    "om_find ip (ni_arp_request_timeouts n') = Some t" "ni_current_time n' = ni_current_time n" by auto
qed

fun quiet_op :: "ni_op \<Rightarrow> bool" where
  "quiet_op (NiSend d hop) = True"
| "quiet_op (NiTick ms) = True"
| "quiet_op _ = False"

lemma run_quiet:
  assumes "ni_ok n" "list_all quiet_op ops" "ni_run ops n = Inr n'"
    and "om_find ip (ni_arp_request_timeouts n) = Some t"
    and "ni_current_time n + sum_list (map ni_op_time ops) \<le> t + 5000"
    and "ni_current_time n + sum_list (map ni_op_time ops) < two64"
  shows "\<exists>fs. ni_frames_out n' = ni_frames_out n @ fs \<and> list_all (\<lambda>f. \<not> asks ip f) fs"
  using assms
proof (induction ops arbitrary: n)
  case (Cons x ops)
  show ?case
  proof (cases x)
    case (NiSend d hop)
    obtain n1 where n1: "ni_send_datagram d hop n = Inr n1" "ni_run ops n1 = Inr n'"
      using Cons.prems(3) NiSend by (auto split: sum.splits)
    have le: "ni_current_time n \<le> t + 5000" using Cons.prems(5) by simp
    note q = send_quiet[OF Cons.prems(1) n1(1) Cons.prems(4) le]
    obtain fs where fs: "ni_frames_out n1 = ni_frames_out n @ fs" "list_all (\<lambda>f. \<not> asks ip f) fs" using q(1) by blast
    obtain gs where "ni_frames_out n' = ni_frames_out n1 @ gs" "list_all (\<lambda>f. \<not> asks ip f) gs"
      using Cons.IH[OF ni_ok_send[OF Cons.prems(1) n1(1)] _ n1(2) q(2)] Cons.prems(2,5,6) q(3) NiSend by auto
    then show ?thesis using fs by auto
  next
    case (NiTick ms)
    have lt: "ni_current_time n + ms < two64" using Cons.prems(6) NiTick by simp
    note k = ni_ok_tick[OF Cons.prems(1) lt]
    have "ni_frames_out (ni_tick ms n) = ni_frames_out n" "ni_arp_request_timeouts (ni_tick ms n) = ni_arp_request_timeouts n"
      by (simp_all add: ni_tick_def ni_remove_expired_cache_def)
    then show ?thesis
      using Cons.IH[OF k(1)] Cons.prems NiTick k(2) by (simp add: add.assoc)
  qed (use Cons.prems(2) in simp_all)
qed simp

section \<open>Resolution\<close>

text \<open>A frame as it is read from the device.\<close>

definition on_wire :: "EthernetFrame \<Rightarrow> EthernetFrame" where
  "on_wire f = fst (ef_parse ef_default (concat (ef_serialize f)))"

lemma on_wire_eq: "eh_wf (ef_header f) \<Longrightarrow> on_wire f = \<lparr>ef_header = ef_header f, ef_payload = [concat (ef_payload f)]\<rparr>"
  by (simp add: on_wire_def ef_parse_serialize)

text \<open>The arrival of an ARP message.\<close>

lemma recv_arp_eq:
  assumes ok: "ni_ok n" and own: "ad_ipv4_numeric (ni_ip_address n) = Inr own"
    and f: "eh_dst (ef_header f) = ni_ethernet_address n \<or> eh_dst (ef_header f) = ETHERNET_BROADCAST"
      "eh_type (ef_header f) = TYPE_ARP" "ef_payload f = [b]"
    and m: "arp_parse arp_default b = (m, NoError)"
    and d: "\<forall>x\<in>set (ni_pending_datagrams n). fst x = arp_sender_ip_address m \<longrightarrow> dg_serialize (snd x) \<noteq> None"
  shows "ni_recv_frame f n = Inr ((ni_flushed m n)\<lparr>ni_frames_out := ni_frames_out (ni_flushed m n) @
    (if arp_opcode m = OPCODE_REQUEST \<and> arp_target_ip_address m = own
     then [ni_make_frame n (arp_sender_ethernet_address m) TYPE_ARP
       [the (arp_serialize (ni_arp_reply n own (arp_sender_ethernet_address m) (arp_sender_ip_address m)))]]
     else [])\<rparr>, None)"
proof -
  have own': "ad_ipv4_numeric (ni_ip_address (ni_flushed m n)) = Inr own" using own by (simp add: ni_flushed_def)
  have fl: "ni_make_frame (ni_flushed m n) = ni_make_frame n" "ni_arp_reply (ni_flushed m n) = ni_arp_reply n"
    by (simp_all add: ni_make_frame_def ni_arp_reply_def ni_flushed_def fun_eq_iff)
  have p: "ni_send_pending_datagrams (arp_sender_ip_address m) (ni_learn m n) = Inr (ni_flushed m n)"
    using ni_send_pending_eq[OF ok, of m] d by simp
  have t: "(TYPE_ARP = TYPE_IPv4) = False" by simp
  show ?thesis
    unfolding ni_recv_frame_def Let_def f(2,3) t single_buffer_def list.case option.case m prod.case p sum.case
      ni_answer_eq[OF own'] fl using f(1) by simp
qed

section \<open>Properties\<close>

text \<open>C22: A session of calls that follow the interface never throws. After it, every datagram that
  still waits does so for an address that is not in the cache and for which a request is on record,
  and no entry of the cache is older than thirty seconds.\<close>

theorem interface_session:
  assumes "length mac = 6" "ad_ipv4_numeric addr = Inr ip" "list_all ni_op_fine ops"
    and "sum_list (map ni_op_time ops) < two64"
  shows "\<exists>n. ni_run ops (ni_new mac addr) = Inr n \<and>
    list_all (\<lambda>(ip, d). om_find ip (ni_arp_cache n) = None \<and> om_find ip (ni_arp_request_timeouts n) \<noteq> None)
      (ni_pending_datagrams n) \<and>
    list_all (\<lambda>(ip, eth, t). t \<le> ni_current_time n \<and> ni_current_time n - t \<le> 30000) (ni_arp_cache n)"
proof -
  have "ni_current_time (ni_new mac addr) + sum_list (map ni_op_time ops) < two64"
    using assms(4) by (simp add: ni_new_def)
  from ni_run_fine[OF ni_fine_new[OF assms(1,2)] assms(3) this]
  obtain n where n: "ni_run ops (ni_new mac addr) = Inr n" "ni_ok n" by (auto simp: ni_fine_def)
  have "list_all (\<lambda>(ip, d). om_find ip (ni_arp_cache n) = None \<and> om_find ip (ni_arp_request_timeouts n) \<noteq> None)
      (ni_pending_datagrams n)"
    using n(2) by (auto simp: ni_ok_def list_all_iff waiting_def)
  moreover have "list_all (\<lambda>(ip, eth, t). t \<le> ni_current_time n \<and> ni_current_time n - t \<le> 30000) (ni_arp_cache n)"
    using n(2) by (auto simp: ni_ok_def list_all_iff)
  ultimately show ?thesis using n(1) by blast
qed

theorem interface_session_witness:
  "\<exists>n. ni_run [NiTick 10, NiRecv ef_default, NiTake] (ni_new (replicate 6 2) (ad_ipv4 0 0x0A000001)) = Inr n"
  using interface_session[of "replicate 6 2" "ad_ipv4 0 0x0A000001" "0x0A000001" "[NiTick 10, NiRecv ef_default, NiTake]"]
  by (auto simp: ef_default_def)

text \<open>An ARP message that arrives for the interface is remembered, every datagram that waited for
  its sender leaves in the order in which it was given, addressed to the sender, nothing else
  leaves the queue, and a request for the own address is answered after that.\<close>

lemma arp_message_flushes:
  assumes "ni_ok n" "ad_ipv4_numeric (ni_ip_address n) = Inr own"
    and "eh_dst (ef_header f) = ni_ethernet_address n \<or> eh_dst (ef_header f) = ETHERNET_BROADCAST"
      "eh_type (ef_header f) = TYPE_ARP" "ef_payload f = [b]"
    and "arp_parse arp_default b = (m, NoError)"
    and "\<forall>x\<in>set (ni_pending_datagrams n). fst x = arp_sender_ip_address m \<longrightarrow> dg_serialize (snd x) \<noteq> None"
  shows "\<exists>n'. ni_recv_frame f n = Inr (n', None) \<and>
    om_find (arp_sender_ip_address m) (ni_arp_cache n') = Some (arp_sender_ethernet_address m, ni_current_time n) \<and>
    ni_pending_datagrams n' = filter (\<lambda>x. fst x \<noteq> arp_sender_ip_address m) (ni_pending_datagrams n) \<and>
    ni_frames_out n' = ni_frames_out n @
      map (\<lambda>x. ni_make_frame n (arp_sender_ethernet_address m) TYPE_IPv4 (the (dg_serialize (snd x))))
        (filter (\<lambda>x. fst x = arp_sender_ip_address m) (ni_pending_datagrams n)) @
      (if arp_opcode m = OPCODE_REQUEST \<and> arp_target_ip_address m = own
       then [ni_make_frame n (arp_sender_ethernet_address m) TYPE_ARP
         [the (arp_serialize (ni_arp_reply n own (arp_sender_ethernet_address m) (arp_sender_ip_address m)))]]
       else [])"
  unfolding recv_arp_eq[OF assms] using ni_learn_cache(3)[OF assms(1), where m = m] by (simp add: ni_flushed_def)

text \<open>C23: While a request for an address is on record, datagrams may be sent and time may pass in any
  order: as long as no more than five seconds have passed since the request, no other request for
  the same address is sent.\<close>

theorem arp_request_rate:
  assumes "ni_ok n" "list_all quiet_op ops" "ni_run ops n = Inr n'"
    and "om_find ip (ni_arp_request_timeouts n) = Some t"
    and "ni_current_time n + sum_list (map ni_op_time ops) \<le> t + 5000"
    and "ni_current_time n + sum_list (map ni_op_time ops) < two64"
  shows "\<exists>fs. ni_frames_out n' = ni_frames_out n @ fs \<and> list_all (\<lambda>f. \<not> asks ip f) fs"
  using assms by (rule run_quiet)

theorem arp_request_rate_witness:
  "\<exists>n n' fs. ni_send_datagram dg_default (ad_ipv4 0 0x0A000002) (ni_new (replicate 6 2) (ad_ipv4 0 0x0A000001)) = Inr n \<and>
    ni_run [NiTick 5000, NiSend dg_default (ad_ipv4 0 0x0A000002)] n = Inr n' \<and>
    ni_frames_out n' = ni_frames_out n @ fs \<and> list_all (\<lambda>f. \<not> asks 0x0A000002 f) fs"
proof -
  let ?a = "ni_new (replicate 6 2) (ad_ipv4 0 0x0A000001)" and ?hop = "ad_ipv4 0 0x0A000002"
  have ok: "ni_ok ?a" using ni_fine_new[of "replicate 6 2" "ad_ipv4 0 0x0A000001"] by (simp add: ni_fine_def)
  obtain n where n: "ni_send_datagram dg_default ?hop ?a = Inr n" "ni_current_time n = 0"
    "om_find 0x0A000002 (ni_arp_request_timeouts n) = Some 0" "om_find 0x0A000002 (ni_arp_cache n) = None"
    "ni_ip_address n = ad_ipv4 0 0x0A000001"
    using ni_request_eq[OF ok, of "0x0A000001" "0x0A000002"]
    by (auto simp: ni_send_datagram_def ni_request_due_def) (simp_all add: ni_new_def om_find_def)
  have okn: "ni_ok n" by (rule ni_ok_send[OF ok n(1)])
  let ?t = "ni_tick 5000 n"
  have t: "ni_ok ?t" "om_find 0x0A000002 (ni_arp_cache ?t) = None" "ad_ipv4_numeric (ni_ip_address ?t) = Inr 0x0A000001"
    using ni_ok_tick[OF okn, of 5000] n(2,4,5) ni_tick_cache[OF okn, of 5000] om_find_filter_None
    by (simp_all add: ni_tick_def ni_remove_expired_cache_def)
  have "\<exists>n'. ni_send_datagram dg_default ?hop ?t = Inr n'"
    using t(2) ni_request_eq[OF t(1,3)] by (simp add: ni_send_datagram_def)
  then obtain n' where "ni_run [NiTick 5000, NiSend dg_default ?hop] n = Inr n'" by auto
  then show ?thesis
    using arp_request_rate[OF okn _ _ n(3), of "[NiTick 5000, NiSend dg_default ?hop]" n'] n by auto
qed

text \<open>C21: Resolution works end to end. A datagram for a host whose Ethernet address is not known
  makes the interface send a request; the other host answers it; the answer releases the datagram;
  and the other host gets exactly the datagram that was given to the first one.\<close>

theorem arp_resolution_delivers:
  assumes "length maca = 6" "length macb = 6" "dg_valid d"
  shows "\<exists>a1 req b1 rep a2 fr b2 d'.
    ni_send_datagram d (ad_ipv4 0 ipb) (ni_new maca (ad_ipv4 0 ipa)) = Inr a1 \<and> ni_frames_out a1 = [req] \<and>
    ni_recv_frame (on_wire req) (ni_new macb (ad_ipv4 0 ipb)) = Inr (b1, None) \<and> ni_frames_out b1 = [rep] \<and>
    ni_recv_frame (on_wire rep) (a1\<lparr>ni_frames_out := []\<rparr>) = Inr (a2, None) \<and> ni_frames_out a2 = [fr] \<and>
    ni_recv_frame (on_wire fr) b1 = Inr (b2, Some d') \<and> dg_same d d'"
proof -
  let ?a = "ni_new maca (ad_ipv4 0 ipa)" and ?b = "ni_new macb (ad_ipv4 0 ipb)"
  have new: "ni_ethernet_address (ni_new mac addr) = mac" "ni_ip_address (ni_new mac addr) = addr"
    "ni_frames_out (ni_new mac addr) = []" "ni_pending_datagrams (ni_new mac addr) = []"
    "om_find x (ni_arp_cache (ni_new mac addr)) = None" "ni_request_due (ni_new mac addr) x" for mac addr x
    by (simp_all add: ni_new_def om_find_def ni_request_due_def)
  have ok: "ni_ok ?a" "ni_ok ?b"
    using ni_fine_new[OF assms(1), of "ad_ipv4 0 ipa"] ni_fine_new[OF assms(2), of "ad_ipv4 0 ipb"] by (simp_all add: ni_fine_def)
  obtain payload where payload: "dg_serialize d = Some payload" using ipv4.roundtrip[OF assms(3)] by blast
  define req where "req = ni_request_frame ?a ipa ipb"
  obtain a1 where a1: "ni_send_datagram d (ad_ipv4 0 ipb) ?a = Inr a1" "ni_frames_out a1 = [req]"
    "ni_pending_datagrams a1 = [(ipb, d)]" "ni_ethernet_address a1 = maca" "ni_ip_address a1 = ad_ipv4 0 ipa"
    using ni_request_eq[OF ok(1), of ipa ipb] by (simp add: ni_send_datagram_def new req_def)
  let ?m = "ni_arp_request ?a ipa ipb" and ?r = "ni_arp_reply ?b ipb maca ipa"
  have wire: "arp_parse arp_default (the (arp_serialize ?m)) = (?m, NoError)"
    "arp_parse arp_default (the (arp_serialize ?r)) = (?r, NoError)"
    using assms(1,2) by (auto intro!: arp_message_wire simp: new)
  have req: "on_wire req = ni_make_frame ?a ETHERNET_BROADCAST TYPE_ARP [the (arp_serialize ?m)]"
    using assms(1) by (simp add: on_wire_eq req_def ni_request_frame_def ni_make_frame_def eh_wf_def new ETHERNET_BROADCAST_def)
  define rep where "rep = ni_make_frame ?b maca TYPE_ARP [the (arp_serialize ?r)]"
  obtain b1 where b1: "ni_recv_frame (on_wire req) ?b = Inr (b1, None)" "ni_frames_out b1 = [rep]"
    "ni_ethernet_address b1 = macb"
    unfolding req
    using recv_arp_eq[OF ok(2), of ipb "ni_make_frame ?a ETHERNET_BROADCAST TYPE_ARP [the (arp_serialize ?m)]", OF _ _ _ _ wire(1)]
    by (simp add: new arp_message_fields ni_flushed_def rep_def) (simp add: ni_make_frame_def new)
  have rep: "on_wire rep = rep"
    using assms by (simp add: on_wire_eq rep_def ni_make_frame_def eh_wf_def new)
  let ?a1 = "a1\<lparr>ni_frames_out := []\<rparr>"
  define fr where "fr = ni_make_frame ?a1 macb TYPE_IPv4 payload"
  have ok1: "ni_ok ?a1" using ni_ok_send[OF ok(1) a1(1)] by (simp add: ni_ok_frames)
  obtain a2 where a2: "ni_recv_frame (on_wire rep) ?a1 = Inr (a2, None)" "ni_frames_out a2 = [fr]"
    unfolding rep using recv_arp_eq[OF ok1, of ipa rep, OF _ _ _ _ wire(2)] a1(3-5) payload
    by (simp add: arp_message_fields ni_flushed_def fr_def new) (simp add: rep_def ni_make_frame_def)
  obtain d' where d': "dg_parse dg_default (concat payload) = (d', NoError)" "dg_same d d'"
    using ipv4.roundtrip[OF assms(3), of dg_default] payload by auto
  have fr: "on_wire fr = ni_make_frame ?a1 macb TYPE_IPv4 [concat payload]"
    using assms a1(4) by (simp add: on_wire_eq fr_def ni_make_frame_def eh_wf_def)
  have "ni_recv_frame (on_wire fr) b1 = Inr (b1, Some d')"
    unfolding fr using b1(3) d'(1) by (simp add: ni_recv_frame_def ni_make_frame_def single_buffer_def)
  then show ?thesis using a1(1,2) b1(1,2) a2 d'(2) by blast
qed

theorem arp_resolution_delivers_witness:
  "\<exists>a1 req. ni_send_datagram (dg_default\<lparr>dg_header := ip_default\<lparr>ip_len := 20\<rparr>\<rparr>) (ad_ipv4 0 0x0A000002)
      (ni_new (replicate 6 2) (ad_ipv4 0 0x0A000001)) = Inr a1 \<and> ni_frames_out a1 = [req]"
  using arp_resolution_delivers[of "replicate 6 2" "replicate 6 3" "dg_default\<lparr>dg_header := ip_default\<lparr>ip_len := 20\<rparr>\<rparr>"
      "0x0A000002" "0x0A000001"]
  by (auto simp: dg_valid_def ip_wf_def dg_default_def ip_default_def)

end
