(* ===== verification/TCP_Adapter.thy ===== *)
theory TCP_Adapter
  imports Socket Network_Interface
begin

text \<open>
  The adapters that carry TCP segments in datagrams: the configuration (\<^verbatim>\<open>tcp_config.hh\<close>), the common base
  and the UDP adapter (\<^verbatim>\<open>fd_adapter.hh\<close>, \<^verbatim>\<open>fd_adapter.cc\<close>), the conversion between segments and IPv4
  datagrams (\<^verbatim>\<open>tcp_over_ip.cc\<close>), the TUN and Ethernet adapters (\<^verbatim>\<open>tuntap_adapter.hh\<close>, \<^verbatim>\<open>tuntap_adapter.cc\<close>)
  and the adapter that drops packets at random (\<^verbatim>\<open>lossy_fd_adapter.hh\<close>).

  An adapter is a record that contains the wrapper of its descriptor; reading and writing are
  computations on the adapter and the kernel. The template parameter of \<open>LossyFdAdapter\<close> and of
  \<open>TCPSpongeSocket\<close> is the locale \<open>fd_adapter\<close>; the random generator is an argument.
\<close>

section \<open>Configuration and base class\<close>

record FdAdapterConfig =
  fc_source :: Address
  fc_destination :: Address
  fc_loss_rate_dn :: u16
  fc_loss_rate_up :: u16

record FdAdapterBase =
  fa_cfg :: FdAdapterConfig
  fa_listen :: bool

definition fc_default :: "resolver \<Rightarrow> sys_error + FdAdapterConfig" where
  "fc_default getaddrinfo =
     (case addr_result (ad_new_port getaddrinfo ''0'' 0) of
        Inl e \<Rightarrow> Inl e
      | Inr source \<Rightarrow>
          (case addr_result (ad_new_port getaddrinfo ''0'' 0) of
             Inl e \<Rightarrow> Inl e
           | Inr destination \<Rightarrow> Inr \<lparr>fc_source = source, fc_destination = destination, fc_loss_rate_dn = 0, fc_loss_rate_up = 0\<rparr>))"

definition fa_set_listening :: "bool \<Rightarrow> FdAdapterBase \<Rightarrow> FdAdapterBase" where
  "fa_set_listening l a = a\<lparr>fa_listen := l\<rparr>"

definition ad_port :: "reverse_lookup \<Rightarrow> Address \<Rightarrow> sys_error + u16" where
  "ad_port getnameinfo a =
     (case addr_result (ad_ip_port getnameinfo a) of Inl e \<Rightarrow> Inl e | Inr (ip, port) \<Rightarrow> Inr port)"

section \<open>Segments in IPv4 datagrams\<close>

text \<open>Comparing a header field with an address of the configuration, which is looked at only when the
  adapter is not listening.\<close>

definition fa_differs :: "u32 \<Rightarrow> Address \<Rightarrow> FdAdapterBase \<Rightarrow> sys_error + bool" where
  "fa_differs field address a =
     (if fa_listen a then Inr False
      else case addr_result (ad_ipv4_numeric address) of Inl e \<Rightarrow> Inl e | Inr ip \<Rightarrow> Inr (field \<noteq> ip))"

text \<open>A listening adapter takes over the addresses of a SYN; the result says whether to go on.\<close>

definition fa_adopt :: "resolver \<Rightarrow> reverse_lookup \<Rightarrow> IPv4Header \<Rightarrow> TCPHeader \<Rightarrow> (FdAdapterBase, sys_error, bool) eff" where
  "fa_adopt getaddrinfo getnameinfo ip tcp a =
     (if \<not> fa_listen a then (Inr True, a)
      else if th_syn tcp \<and> \<not> th_rst tcp then
        (case ad_port getnameinfo (fc_source (fa_cfg a)) of
           Inl e \<Rightarrow> (Inl e, a)
         | Inr port \<Rightarrow>
             (case addr_result (ad_new_port getaddrinfo (inet_ntoa (ip_dst ip)) port) of
                Inl e \<Rightarrow> (Inl e, a)
              | Inr source \<Rightarrow>
                  (let a = a\<lparr>fa_cfg := (fa_cfg a)\<lparr>fc_source := source\<rparr>\<rparr>
                   in case addr_result (ad_new_port getaddrinfo (inet_ntoa (ip_src ip)) (th_sport tcp)) of
                        Inl e \<Rightarrow> (Inl e, a)
                      | Inr destination \<Rightarrow>
                          (Inr True, fa_set_listening False (a\<lparr>fa_cfg := (fa_cfg a)\<lparr>fc_destination := destination\<rparr>\<rparr>)))))
      else (Inr False, a))"

abbreviation split_buffer :: sys_error where
  "split_buffer \<equiv> RuntimeError ''BufferList: please use concatenate() to combine a multi-Buffer BufferList into one Buffer''"

definition unwrap_tcp_in_ip :: "resolver \<Rightarrow> reverse_lookup \<Rightarrow> IPv4Datagram \<Rightarrow> (FdAdapterBase, sys_error, TCPSegment option) eff" where
  "unwrap_tcp_in_ip getaddrinfo getnameinfo ip_dgram a =
     (let h = dg_header ip_dgram
      in case fa_differs (ip_dst h) (fc_source (fa_cfg a)) a of
           Inl e \<Rightarrow> (Inl e, a)
         | Inr True \<Rightarrow> (Inr None, a)
         | Inr False \<Rightarrow>
        (case fa_differs (ip_src h) (fc_destination (fa_cfg a)) a of
           Inl e \<Rightarrow> (Inl e, a)
         | Inr True \<Rightarrow> (Inr None, a)
         | Inr False \<Rightarrow>
        (if ip_proto h \<noteq> PROTO_TCP then (Inr None, a)
         else case single_buffer (dg_payload ip_dgram) of
           None \<Rightarrow> (Inl split_buffer, a)
         | Some buffer \<Rightarrow>
        (case ts_parse ts_default buffer (ip_pseudo_cksum h) of (tcp_seg, result) \<Rightarrow>
         if result \<noteq> NoError then (Inr None, a)
         else case ad_port getnameinfo (fc_source (fa_cfg a)) of
           Inl e \<Rightarrow> (Inl e, a)
         | Inr port \<Rightarrow>
         if th_dport (ts_header tcp_seg) \<noteq> port then (Inr None, a)
         else case fa_adopt getaddrinfo getnameinfo h (ts_header tcp_seg) a of
           (Inl e, a) \<Rightarrow> (Inl e, a)
         | (Inr False, a) \<Rightarrow> (Inr None, a)
         | (Inr True, a) \<Rightarrow>
        (case ad_port getnameinfo (fc_destination (fa_cfg a)) of
           Inl e \<Rightarrow> (Inl e, a)
         | Inr port \<Rightarrow>
         if th_sport (ts_header tcp_seg) \<noteq> port then (Inr None, a) else (Inr (Some tcp_seg), a))))))"

abbreviation tcp_header_too_short :: sys_error where
  "tcp_header_too_short \<equiv> RuntimeError ''TCP header too short''"

definition ts_set_ports :: "u16 \<Rightarrow> u16 \<Rightarrow> TCPSegment \<Rightarrow> TCPSegment" where
  "ts_set_ports sport dport seg = seg\<lparr>ts_header := (ts_header seg)\<lparr>th_sport := sport, th_dport := dport\<rparr>\<rparr>"

text \<open>The segment is passed by reference, so that the changed segment is a part of the result.\<close>

definition wrap_tcp_in_ip :: "reverse_lookup \<Rightarrow> TCPSegment \<Rightarrow> FdAdapterBase \<Rightarrow> sys_error + IPv4Datagram \<times> TCPSegment" where
  "wrap_tcp_in_ip getnameinfo seg a =
     (case ad_port getnameinfo (fc_source (fa_cfg a)) of Inl e \<Rightarrow> Inl e | Inr sport \<Rightarrow>
      (case ad_port getnameinfo (fc_destination (fa_cfg a)) of Inl e \<Rightarrow> Inl e | Inr dport \<Rightarrow>
      (let seg = ts_set_ports sport dport seg
       in case addr_result (ad_ipv4_numeric (fc_source (fa_cfg a))) of Inl e \<Rightarrow> Inl e | Inr src \<Rightarrow>
      (case addr_result (ad_ipv4_numeric (fc_destination (fa_cfg a))) of Inl e \<Rightarrow> Inl e | Inr dst \<Rightarrow>
      (let h = ip_default;
           h = h\<lparr>ip_src := src, ip_dst := dst,
                 ip_len := of_nat (unat (ip_hlen h) * 4 + unat (th_doff (ts_header seg)) * 4 + length (ts_payload seg))\<rparr>
       in case ts_serialize seg (ip_pseudo_cksum h) of
            None \<Rightarrow> Inl tcp_header_too_short
          | Some payload \<Rightarrow> Inr (\<lparr>dg_header = h, dg_payload = payload\<rparr>, seg))))))"

section \<open>UDP\<close>

record TCPOverUDPSocketAdapter =
  ua_base :: FdAdapterBase
  ua_sock :: FDWrapper

definition ua_on_sock :: "('w, 'a) fd_eff \<Rightarrow> (TCPOverUDPSocketAdapter \<times> 'w, sys_error, 'a) eff" where
  "ua_on_sock = ezoom (\<lambda>(a, w). (ua_sock a, w)) (\<lambda>(f, w) (a, _). (a\<lparr>ua_sock := f\<rparr>, w))"

definition ua_accept :: "received_datagram \<Rightarrow> FdAdapterBase \<Rightarrow> TCPSegment option \<times> FdAdapterBase" where
  "ua_accept datagram b =
     (if \<not> fa_listen b \<and> \<not> ad_equal (rd_source_address datagram) (fc_destination (fa_cfg b)) then (None, b)
      else case ts_parse ts_default (rd_payload datagram) 0 of (seg, result) \<Rightarrow>
        if result \<noteq> NoError then (None, b)
        else if fa_listen b then
          (if th_syn (ts_header seg) \<and> \<not> th_rst (ts_header seg)
           then (Some seg, fa_set_listening False (b\<lparr>fa_cfg := (fa_cfg b)\<lparr>fc_destination := rd_source_address datagram\<rparr>\<rparr>))
           else (None, b))
        else (Some seg, b))"

definition ua_read :: "(int \<Rightarrow> nat \<Rightarrow> ('w, bytes \<times> bytes \<times> nat) syscall) \<Rightarrow>
    (TCPOverUDPSocketAdapter \<times> 'w, sys_error, TCPSegment option) eff" where
  "ua_read sys_recvfrom =
     ebind (ua_on_sock (udp_recv sys_recvfrom 65536)) (\<lambda>datagram (a, w).
       (case ua_accept datagram (ua_base a) of (seg, b) \<Rightarrow> (Inr seg, (a\<lparr>ua_base := b\<rparr>, w))))"

definition ua_write :: "reverse_lookup \<Rightarrow> (int \<Rightarrow> (bytes \<times> nat) option \<Rightarrow> (bytes \<times> nat) list \<Rightarrow> ('w, unit) syscall) \<Rightarrow>
    TCPSegment \<Rightarrow> (TCPOverUDPSocketAdapter \<times> 'w, sys_error, unit) eff" where
  "ua_write getnameinfo sys_sendmsg seg =
     ebind (eget (\<lambda>(a, w). fa_cfg (ua_base a))) (\<lambda>cfg.
     ebind (eresult (ad_port getnameinfo (fc_source cfg))) (\<lambda>sport.
     ebind (eresult (ad_port getnameinfo (fc_destination cfg))) (\<lambda>dport.
       (case ts_serialize (ts_set_ports sport dport seg) 0 of
          None \<Rightarrow> ethrow tcp_header_too_short
        | Some payload \<Rightarrow> ua_on_sock (udp_sendto sys_sendmsg (fc_destination cfg) payload)))))"

section \<open>TUN\<close>

record TCPOverIPv4OverTunFdAdapter =
  ta_base :: FdAdapterBase
  ta_tun :: FDWrapper

definition ta_on_tun :: "('w, 'a) fd_eff \<Rightarrow> (TCPOverIPv4OverTunFdAdapter \<times> 'w, sys_error, 'a) eff" where
  "ta_on_tun = ezoom (\<lambda>(a, w). (ta_tun a, w)) (\<lambda>(f, w) (a, _). (a\<lparr>ta_tun := f\<rparr>, w))"

definition ta_on_base :: "(FdAdapterBase, sys_error, 'a) eff \<Rightarrow> (TCPOverIPv4OverTunFdAdapter \<times> 'w, sys_error, 'a) eff" where
  "ta_on_base = ezoom (\<lambda>(a, w). ta_base a) (\<lambda>b (a, w). (a\<lparr>ta_base := b\<rparr>, w))"

text \<open>The default limit of \<open>read\<close>.\<close>

abbreviation SIZE_MAX :: nat where "SIZE_MAX \<equiv> 18446744073709551615"

definition ta_read :: "resolver \<Rightarrow> reverse_lookup \<Rightarrow> (int \<Rightarrow> nat \<Rightarrow> ('w, bytes) syscall) \<Rightarrow>
    (TCPOverIPv4OverTunFdAdapter \<times> 'w, sys_error, TCPSegment option) eff" where
  "ta_read getaddrinfo getnameinfo sys_read =
     ebind (ta_on_tun (fd_read sys_read SIZE_MAX)) (\<lambda>buffer.
       (case dg_parse dg_default buffer of (ip_dgram, result) \<Rightarrow>
          if result \<noteq> NoError then ereturn None
          else ta_on_base (unwrap_tcp_in_ip getaddrinfo getnameinfo ip_dgram)))"

text \<open>Why a datagram cannot be serialized.\<close>

definition dg_exn :: "IPv4Datagram \<Rightarrow> sys_error" where
  "dg_exn d =
     (if bvl_size (dg_payload d) \<noteq> unat (ip_payload_length (dg_header d))
      then RuntimeError ''IPv4Datagram::serialize: payload is wrong size''
      else if ip_ver (dg_header d) \<noteq> 4 then RuntimeError ''wrong IP version''
      else RuntimeError ''IP header too short'')"

definition ta_write :: "reverse_lookup \<Rightarrow> (int \<Rightarrow> (bytes \<times> nat) list \<Rightarrow> ('w, unit) syscall) \<Rightarrow> TCPSegment \<Rightarrow>
    (TCPOverIPv4OverTunFdAdapter \<times> 'w, sys_error, unit) eff" where
  "ta_write getnameinfo sys_writev seg =
     ebind (eget (\<lambda>(a, w). ta_base a)) (\<lambda>b.
     ebind (eresult (wrap_tcp_in_ip getnameinfo seg b)) (\<lambda>(ip_dgram, seg).
       (case dg_serialize ip_dgram of
          None \<Rightarrow> ethrow (dg_exn ip_dgram)
        | Some buffer \<Rightarrow> eseq (ta_on_tun (fd_write sys_writev buffer True)) (ereturn ()))))"

section \<open>Ethernet\<close>

record TCPOverIPv4OverEthernetAdapter =
  ea_base :: FdAdapterBase
  ea_tap :: FDWrapper
  ea_interface :: NetworkInterface
  ea_next_hop :: Address

text \<open>The exceptions of the interface; those of serializing a waiting datagram are not told apart.\<close>

definition ni_exn :: "ni_error \<Rightarrow> sys_error" where
  "ni_exn e =
     (case e of
        NiNotIPv4 \<Rightarrow> addr_exn NotIPv4
      | NiBadDatagram \<Rightarrow> RuntimeError ''IPv4Datagram::serialize''
      | NiUnsupportedArp \<Rightarrow> RuntimeError ''ARPMessage::serialize''
      | NiSplitPayload \<Rightarrow> split_buffer)"

definition ea_on_tap :: "('w, 'a) fd_eff \<Rightarrow> (TCPOverIPv4OverEthernetAdapter \<times> 'w, sys_error, 'a) eff" where
  "ea_on_tap = ezoom (\<lambda>(a, w). (ea_tap a, w)) (\<lambda>(f, w) (a, _). (a\<lparr>ea_tap := f\<rparr>, w))"

definition ea_on_base :: "(FdAdapterBase, sys_error, 'a) eff \<Rightarrow> (TCPOverIPv4OverEthernetAdapter \<times> 'w, sys_error, 'a) eff" where
  "ea_on_base = ezoom (\<lambda>(a, w). ea_base a) (\<lambda>b (a, w). (a\<lparr>ea_base := b\<rparr>, w))"

definition ea_set_interface :: "NetworkInterface \<Rightarrow> (TCPOverIPv4OverEthernetAdapter \<times> 'w, sys_error, unit) eff" where
  "ea_set_interface n = emodify (\<lambda>(a, w). (a\<lparr>ea_interface := n\<rparr>, w))"

text \<open>The loop of \<open>send_pending\<close> over the queue of frames: a frame leaves the queue after it has been
  written.\<close>

fun ea_send_loop :: "(int \<Rightarrow> (bytes \<times> nat) list \<Rightarrow> ('w, unit) syscall) \<Rightarrow> EthernetFrame list \<Rightarrow> ('w, EthernetFrame list \<times> sys_error option) fd_eff" where
  "ea_send_loop sys_writev [] s = (Inr ([], None), s)"
| "ea_send_loop sys_writev (frame # frames) s =
     (case fd_write sys_writev (ef_serialize frame) True s of
        (Inl e, s') \<Rightarrow> (Inr (frame # frames, Some e), s')
      | (Inr _, s') \<Rightarrow> ea_send_loop sys_writev frames s')"

definition ea_send_pending :: "(int \<Rightarrow> (bytes \<times> nat) list \<Rightarrow> ('w, unit) syscall) \<Rightarrow>
    (TCPOverIPv4OverEthernetAdapter \<times> 'w, sys_error, unit) eff" where
  "ea_send_pending sys_writev =
     ebind (eget (\<lambda>(a, w). ea_interface a)) (\<lambda>n.
     ebind (ea_on_tap (ea_send_loop sys_writev (ni_frames_out n))) (\<lambda>(left, failed).
     eseq (ea_set_interface (n\<lparr>ni_frames_out := left\<rparr>))
       (case failed of None \<Rightarrow> ereturn () | Some e \<Rightarrow> ethrow e)))"

text \<open>The constructor writes a dummy frame to the device.\<close>

definition ea_new :: "(int \<Rightarrow> (bytes \<times> nat) list \<Rightarrow> ('w, unit) syscall) \<Rightarrow> FdAdapterBase \<Rightarrow> FDWrapper \<Rightarrow> EthernetAddress \<Rightarrow>
    Address \<Rightarrow> Address \<Rightarrow> ('w, sys_error, TCPOverIPv4OverEthernetAdapter) eff" where
  "ea_new sys_writev base tap eth_address ip_address next_hop w =
     (case fd_write sys_writev (ef_serialize ef_default) True (tap, w) of
        (Inl e, (_, w')) \<Rightarrow> (Inl e, w')
      | (Inr _, (tap', w')) \<Rightarrow>
          (Inr \<lparr>ea_base = base, ea_tap = tap', ea_interface = ni_new eth_address ip_address, ea_next_hop = next_hop\<rparr>, w'))"

definition ea_read :: "resolver \<Rightarrow> reverse_lookup \<Rightarrow> (int \<Rightarrow> nat \<Rightarrow> ('w, bytes) syscall) \<Rightarrow>
    (int \<Rightarrow> (bytes \<times> nat) list \<Rightarrow> ('w, unit) syscall) \<Rightarrow> (TCPOverIPv4OverEthernetAdapter \<times> 'w, sys_error, TCPSegment option) eff" where
  "ea_read getaddrinfo getnameinfo sys_read sys_writev =
     ebind (ea_on_tap (fd_read sys_read SIZE_MAX)) (\<lambda>buffer.
       (case ef_parse ef_default buffer of (frame, result) \<Rightarrow>
          if result \<noteq> NoError then ereturn None
          else ebind (eget (\<lambda>(a, w). ea_interface a)) (\<lambda>n.
            (case ni_recv_frame frame n of
               Inl e \<Rightarrow> ethrow (ni_exn e)
             | Inr (n', ip_dgram) \<Rightarrow>
                 eseq (ea_set_interface n')
                   (eseq (ea_send_pending sys_writev)
                     (case ip_dgram of
                        Some d \<Rightarrow> ea_on_base (unwrap_tcp_in_ip getaddrinfo getnameinfo d)
                      | None \<Rightarrow> ereturn None))))))"

definition ea_tick :: "(int \<Rightarrow> (bytes \<times> nat) list \<Rightarrow> ('w, unit) syscall) \<Rightarrow> nat \<Rightarrow> (TCPOverIPv4OverEthernetAdapter \<times> 'w, sys_error, unit) eff" where
  "ea_tick sys_writev ms_since_last_tick =
     ebind (eget (\<lambda>(a, w). ea_interface a)) (\<lambda>n.
       eseq (ea_set_interface (ni_tick ms_since_last_tick n)) (ea_send_pending sys_writev))"

definition ea_write :: "reverse_lookup \<Rightarrow> (int \<Rightarrow> (bytes \<times> nat) list \<Rightarrow> ('w, unit) syscall) \<Rightarrow> TCPSegment \<Rightarrow>
    (TCPOverIPv4OverEthernetAdapter \<times> 'w, sys_error, unit) eff" where
  "ea_write getnameinfo sys_writev seg =
     ebind (eget (\<lambda>(a, w). a)) (\<lambda>a.
     ebind (eresult (wrap_tcp_in_ip getnameinfo seg (ea_base a))) (\<lambda>(ip_dgram, seg).
       (case ni_send_datagram ip_dgram (ea_next_hop a) (ea_interface a) of
          Inl e \<Rightarrow> ethrow (ni_exn e)
        | Inr n \<Rightarrow> eseq (ea_set_interface n) (ea_send_pending sys_writev))))"

section \<open>Random loss\<close>

record ('g, 'a) LossyFdAdapter =
  la_rand :: 'g
  la_adapter :: 'a

definition la_should_drop :: "('g \<Rightarrow> u32 \<times> 'g) \<Rightarrow> ('a \<Rightarrow> FdAdapterConfig) \<Rightarrow> bool \<Rightarrow> (('g, 'a) LossyFdAdapter \<times> 'w, sys_error, bool) eff" where
  "la_should_drop rand config uplink =
     (\<lambda>(l, w).
        let cfg = config (la_adapter l);
            loss = (if uplink then fc_loss_rate_up cfg else fc_loss_rate_dn cfg)
        in if loss = 0 then (Inr False, (l, w))
           else case rand (la_rand l) of (r, g) \<Rightarrow> (Inr ((ucast r :: u16) < loss), (l\<lparr>la_rand := g\<rparr>, w)))"

definition la_on_adapter :: "('a \<times> 'w, sys_error, 'b) eff \<Rightarrow> (('g, 'a) LossyFdAdapter \<times> 'w, sys_error, 'b) eff" where
  "la_on_adapter = ezoom (\<lambda>(l, w). (la_adapter l, w)) (\<lambda>(a, w) (l, _). (l\<lparr>la_adapter := a\<rparr>, w))"

definition la_read :: "('g \<Rightarrow> u32 \<times> 'g) \<Rightarrow> ('a \<Rightarrow> FdAdapterConfig) \<Rightarrow> ('a \<times> 'w, sys_error, TCPSegment option) eff \<Rightarrow>
    (('g, 'a) LossyFdAdapter \<times> 'w, sys_error, TCPSegment option) eff" where
  "la_read rand config read =
     ebind (la_on_adapter read) (\<lambda>ret.
     ebind (la_should_drop rand config False) (\<lambda>drop. ereturn (if drop then None else ret)))"

definition la_write :: "('g \<Rightarrow> u32 \<times> 'g) \<Rightarrow> ('a \<Rightarrow> FdAdapterConfig) \<Rightarrow> (TCPSegment \<Rightarrow> ('a \<times> 'w, sys_error, unit) eff) \<Rightarrow>
    TCPSegment \<Rightarrow> (('g, 'a) LossyFdAdapter \<times> 'w, sys_error, unit) eff" where
  "la_write rand config write seg =
     ebind (la_should_drop rand config True) (\<lambda>drop. if drop then ereturn () else la_on_adapter (write seg))"

definition la_tick :: "(nat \<Rightarrow> ('a \<times> 'w, sys_error, unit) eff) \<Rightarrow> nat \<Rightarrow> (('g, 'a) LossyFdAdapter \<times> 'w, sys_error, unit) eff" where
  "la_tick tick ms_since_last_tick = la_on_adapter (tick ms_since_last_tick)"

section \<open>The interface of an adapter\<close>

text \<open>What the event loop of the socket needs of an adapter: a call that returns has read the
  descriptor once, and the descriptor stays the same.\<close>

locale fd_adapter =
  fixes rd :: "('a \<times> 'w, sys_error, TCPSegment option) eff"
    and wr :: "TCPSegment \<Rightarrow> ('a \<times> 'w, sys_error, unit) eff"
    and fd :: "'a \<Rightarrow> FDWrapper"
  assumes read_counts: "rd (a, w) = (Inr seg, (a', w')) \<Longrightarrow> fd_read_count (fd a') = add32 (fd_read_count (fd a)) 1"
    and read_same: "rd (a, w) = (r, (a', w')) \<Longrightarrow> fd_num (fd a') = fd_num (fd a)"
    and write_same: "wr out (a, w) = (q, (a', w')) \<Longrightarrow> fd_num (fd a') = fd_num (fd a)"
begin

lemma read_serves: "rd (a, w) = (Inr seg, (a', w')) \<Longrightarrow> fd_read_count (fd a') \<noteq> fd_read_count (fd a)"
  using read_counts add32_neq by metis

end

lemma udp_recv_counts:
  assumes "udp_recv sys_recvfrom mtu (f, w) = (Inr d, (f', w'))"
  shows "fd_read_count f' = add32 (fd_read_count f) 1"
  using assms
  by (auto simp: udp_recv_def udp_recv_into_def fd_call_def ebind_def eseq_def fd_update_def eff register_read_def Let_def
      split: prod.splits sum.splits if_splits)

lemma fd_keeps_recv:
  assumes "\<And>f. P f \<Longrightarrow> P (register_read f)"
  shows "fd_keeps P (udp_recv sys_recvfrom mtu)"
  unfolding udp_recv_def udp_recv_into_def Let_def
  by (intro fd_keeps_eff fd_keeps_call, simp split: prod.split)
    (auto intro!: fd_keeps_eff fd_keeps_update assms)

lemma fd_keeps_sendto:
  assumes "\<And>f. P f \<Longrightarrow> P (register_write f)"
  shows "fd_keeps P (udp_sendto sys_sendmsg destination payload)"
  unfolding udp_sendto_def sendmsg_helper_def
  by (intro fd_keeps_eff fd_keeps_call fd_keeps_update assms, simp split: prod.split)
    (auto intro!: fd_keeps_eff)

lemma register_num [simp]:
  "fd_num (register_read f) = fd_num f" "fd_num (register_write f) = fd_num f"
  "fd_read_count (register_write f) = fd_read_count f"
  by (simp_all add: register_read_def register_write_def)

text \<open>Computations on the descriptor inside an adapter.\<close>

lemma ua_on_sock_keeps: "fd_keeps P m \<Longrightarrow> ekeeps (\<lambda>(a, w). P (ua_sock a)) (ua_on_sock m)"
  unfolding ua_on_sock_def fd_keeps_def by (erule ekeeps_ezoom) auto

lemma ta_on_tun_keeps: "fd_keeps P m \<Longrightarrow> ekeeps (\<lambda>(a, w). P (ta_tun a)) (ta_on_tun m)"
  unfolding ta_on_tun_def fd_keeps_def by (erule ekeeps_ezoom) auto

lemma ea_on_tap_keeps: "fd_keeps P m \<Longrightarrow> ekeeps (\<lambda>(a, w). P (ea_tap a)) (ea_on_tap m)"
  unfolding ea_on_tap_def fd_keeps_def by (erule ekeeps_ezoom) auto

lemma base_keeps:
  "ekeeps (\<lambda>(a, w). P (ta_tun a)) (ta_on_base m)" "ekeeps (\<lambda>(a, w). P (ea_tap a)) (ea_on_base k)"
  by (auto simp: ekeeps_def ta_on_base_def ea_on_base_def eff split: prod.splits)

lemma ua_accept_keeps:
  "ekeeps (\<lambda>(a, w). P (ua_sock a)) (\<lambda>(a, w). case ua_accept d (ua_base a) of (seg, b) \<Rightarrow> (Inr seg, (a\<lparr>ua_base := b\<rparr>, w)))"
  by (auto simp: ekeeps_def split: prod.splits)

lemma ua_read_same: "ekeeps (\<lambda>(a, w). fd_num (ua_sock a) = n) (ua_read sys_recvfrom)"
  unfolding ua_read_def
  by (intro ekeeps_ebind ua_on_sock_keeps[of "\<lambda>f. fd_num f = n"] ua_accept_keeps fd_keeps_recv) simp

lemma ua_read_counts:
  "eensures (\<lambda>(a, w). fd_read_count (ua_sock a) = n) (ua_read sys_recvfrom) (\<lambda>(a, w). fd_read_count (ua_sock a) = add32 n 1)"
  unfolding ua_read_def
proof (rule eensures_ebind)
  show "eensures (\<lambda>(a, w). fd_read_count (ua_sock a) = n) (ua_on_sock (udp_recv sys_recvfrom 65536))
      (\<lambda>(a, w). fd_read_count (ua_sock a) = add32 n 1)"
    unfolding ua_on_sock_def
    by (rule eensures_ezoom[of "\<lambda>(f, w). fd_read_count f = n" _ "\<lambda>(f, w). fd_read_count f = add32 n 1"])
      (auto simp: eensures_def udp_recv_counts)
qed (rule ua_accept_keeps)

lemma ua_write_same: "ekeeps (\<lambda>(a, w). fd_num (ua_sock a) = n) (ua_write getnameinfo sys_sendmsg seg)"
proof -
  have "ekeeps (\<lambda>(a, w). fd_num (ua_sock a) = n) (ua_on_sock (udp_sendto sys_sendmsg destination payload))"
    for destination payload
    by (intro ua_on_sock_keeps[of "\<lambda>f. fd_num f = n"] fd_keeps_sendto) simp
  then show ?thesis
    unfolding ua_write_def by (intro ekeeps_ebind ekeeps_simple) (auto split: option.split)
qed

lemma read_tun_counts:
  "eensures (\<lambda>(a, w). fd_read_count (ta_tun a) = n) (ta_on_tun (fd_read sys_read limit))
     (\<lambda>(a, w). fd_read_count (ta_tun a) = add32 n 1)"
  "eensures (\<lambda>(a, w). fd_read_count (ea_tap a) = n) (ea_on_tap (fd_read sys_read limit))
     (\<lambda>(a, w). fd_read_count (ea_tap a) = add32 n 1)"
  unfolding ta_on_tun_def ea_on_tap_def
  by (rule eensures_ezoom[of "\<lambda>(f, w). fd_read_count f = n" _ "\<lambda>(f, w). fd_read_count f = add32 n 1"];
      auto simp: eensures_def fd_read_counts)+

lemma ta_read_rest: "ekeeps (\<lambda>(a, w). P (ta_tun a)) (case dg_parse dg_default buffer of (ip_dgram, result) \<Rightarrow>
    if result \<noteq> NoError then ereturn None else ta_on_base (unwrap_tcp_in_ip getaddrinfo getnameinfo ip_dgram))"
  by (simp add: ekeeps_simple base_keeps split: prod.split)

lemma ta_read_same: "ekeeps (\<lambda>(a, w). fd_num (ta_tun a) = n) (ta_read getaddrinfo getnameinfo sys_read)"
  unfolding ta_read_def
  by (intro ekeeps_ebind ta_on_tun_keeps[of "\<lambda>f. fd_num f = n"] ta_read_rest fd_keeps_read) simp_all

lemma ta_read_counts:
  "eensures (\<lambda>(a, w). fd_read_count (ta_tun a) = n) (ta_read getaddrinfo getnameinfo sys_read)
     (\<lambda>(a, w). fd_read_count (ta_tun a) = add32 n 1)"
  unfolding ta_read_def by (intro eensures_ebind read_tun_counts ta_read_rest)

lemma ta_write_same: "ekeeps (\<lambda>(a, w). fd_num (ta_tun a) = n) (ta_write getnameinfo sys_writev seg)"
proof -
  have "ekeeps (\<lambda>(a, w). fd_num (ta_tun a) = n) (ta_on_tun (fd_write sys_writev buffer True))" for buffer
    by (intro ta_on_tun_keeps[of "\<lambda>f. fd_num f = n"] fd_keeps_write) simp
  then show ?thesis
    unfolding ta_write_def
    by (intro ekeeps_ebind ekeeps_simple) (auto split: option.split prod.split)
qed

lemma ea_send_loop_keeps:
  assumes "\<And>f. P f \<Longrightarrow> P (register_write f)"
  shows "fd_keeps P (ea_send_loop sys_writev frames)"
proof -
  have w: "fd_keeps P (fd_write sys_writev b True)" for b by (rule fd_keeps_write) (rule assms)
  have "P f \<Longrightarrow> P (fst (snd (ea_send_loop sys_writev frames (f, w))))" for f w
  proof (induction frames arbitrary: f w)
    case (Cons frame frames)
    obtain q f1 w1 where q: "fd_write sys_writev (ef_serialize frame) True (f, w) = (q, (f1, w1))" by (metis prod_cases3)
    then have "P f1" using fd_keepsD[OF w q] Cons.prems(1) by blast
    then show ?case using Cons.IH Cons.prems(1) q by (cases q) auto
  qed simp
  then show ?thesis by (auto simp: fd_keeps_def ekeeps_def split_beta)
qed

lemma ea_set_keeps: "ekeeps (\<lambda>(a, w). P (ea_tap a)) (ea_set_interface n)"
  by (auto simp: ekeeps_def ea_set_interface_def eff)

lemma ea_send_pending_keeps:
  assumes "\<And>f. P f \<Longrightarrow> P (register_write f)"
  shows "ekeeps (\<lambda>(a, w). P (ea_tap a)) (ea_send_pending sys_writev)"
proof -
  have l: "ekeeps (\<lambda>(a, w). P (ea_tap a)) (ea_on_tap (ea_send_loop sys_writev frames))" for frames
    by (intro ea_on_tap_keeps ea_send_loop_keeps assms)
  show ?thesis
    unfolding ea_send_pending_def
    by (intro ekeeps_ebind ekeeps_simple l) (auto intro!: ekeeps_eseq ea_set_keeps split: option.split prod.split)
qed

lemma ea_read_rest:
  assumes "\<And>f. P f \<Longrightarrow> P (register_write f)"
  shows "ekeeps (\<lambda>(a, w). P (ea_tap a)) (case ef_parse ef_default buffer of (frame, result) \<Rightarrow>
    if result \<noteq> NoError then ereturn None
    else ebind (eget (\<lambda>(a, w). ea_interface a)) (\<lambda>n.
      (case ni_recv_frame frame n of
         Inl e \<Rightarrow> ethrow (ni_exn e)
       | Inr (n', ip_dgram) \<Rightarrow>
           eseq (ea_set_interface n') (eseq (ea_send_pending sys_writev)
             (case ip_dgram of
                Some d \<Rightarrow> ea_on_base (unwrap_tcp_in_ip getaddrinfo getnameinfo d)
              | None \<Rightarrow> ereturn None)))))"
proof -
  have p: "ekeeps (\<lambda>(a, w). P (ea_tap a)) (ea_send_pending sys_writev)" by (rule ea_send_pending_keeps) (rule assms)
  have q: "ekeeps (\<lambda>(a, w). P (ea_tap a)) (case ip_dgram of Some d \<Rightarrow> ea_on_base (unwrap_tcp_in_ip getaddrinfo getnameinfo d)
      | None \<Rightarrow> ereturn None)" for ip_dgram
    by (simp add: ekeeps_simple base_keeps split: option.split)
  have r: "ekeeps (\<lambda>(a, w). P (ea_tap a)) (case x of Inl e \<Rightarrow> ethrow (ni_exn e)
       | Inr (n', ip_dgram) \<Rightarrow> eseq (ea_set_interface n') (eseq (ea_send_pending sys_writev)
           (case ip_dgram of Some d \<Rightarrow> ea_on_base (unwrap_tcp_in_ip getaddrinfo getnameinfo d) | None \<Rightarrow> ereturn None)))" for x
    by (simp add: ekeeps_simple ekeeps_eseq ea_set_keeps p q split: sum.split prod.split)
  show ?thesis
    by (simp add: ekeeps_simple split: prod.split) (intro allI impI ekeeps_ebind ekeeps_simple r)
qed

lemma ea_read_same: "ekeeps (\<lambda>(a, w). fd_num (ea_tap a) = n) (ea_read getaddrinfo getnameinfo sys_read sys_writev)"
  unfolding ea_read_def
  by (intro ekeeps_ebind ea_on_tap_keeps[of "\<lambda>f. fd_num f = n"] ea_read_rest[of "\<lambda>f. fd_num f = n"] fd_keeps_read) simp_all

lemma ea_read_counts:
  "eensures (\<lambda>(a, w). fd_read_count (ea_tap a) = n) (ea_read getaddrinfo getnameinfo sys_read sys_writev)
     (\<lambda>(a, w). fd_read_count (ea_tap a) = add32 n 1)"
  unfolding ea_read_def
  by (intro eensures_ebind read_tun_counts ea_read_rest[of "\<lambda>f. fd_read_count f = add32 n 1"]) simp

lemma ea_write_same: "ekeeps (\<lambda>(a, w). fd_num (ea_tap a) = n) (ea_write getnameinfo sys_writev seg)"
proof -
  have "ekeeps (\<lambda>(a, w). fd_num (ea_tap a) = n) (ea_send_pending sys_writev)"
    by (rule ea_send_pending_keeps[of "\<lambda>f. fd_num f = n"]) simp
  then show ?thesis
    unfolding ea_write_def
    by (intro ekeeps_ebind ekeeps_simple)
      (auto intro!: ekeeps_eseq ea_set_keeps[of "\<lambda>f. fd_num f = n"] split: sum.split prod.split)
qed

lemmas adapter_keeps = ua_read_same ua_write_same ta_read_same ta_write_same ea_read_same ea_write_same

lemma keeps_num:
  assumes "\<And>n. ekeeps (\<lambda>(a, w). fd_num (fd a) = n) m" "m (a, w) = (r, (a', w'))"
  shows "fd_num (fd a') = fd_num (fd a)"
  using ekeepsD[OF assms(1) _ assms(2), of "fd_num (fd a)"] by simp

lemma ensures_count:
  assumes "\<And>n. eensures (\<lambda>(a, w). fd_read_count (fd a) = n) m (\<lambda>(a, w). fd_read_count (fd a) = add32 n 1)"
    and "m (a, w) = (Inr x, (a', w'))"
  shows "fd_read_count (fd a') = add32 (fd_read_count (fd a)) 1"
  using assms(1)[of "fd_read_count (fd a)", unfolded eensures_def, rule_format, of "(a, w)" x "(a', w')"] assms(2)
  by simp

lemma fd_adapterI:
  assumes "\<And>n. ekeeps (\<lambda>(a, w). fd_num (fd a) = n) rd" "\<And>n out. ekeeps (\<lambda>(a, w). fd_num (fd a) = n) (wr out)"
    and "\<And>n. eensures (\<lambda>(a, w). fd_read_count (fd a) = n) rd (\<lambda>(a, w). fd_read_count (fd a) = add32 n 1)"
  shows "fd_adapter rd wr fd"
proof
  show "fd_read_count (fd a') = add32 (fd_read_count (fd a)) 1" if "rd (a, w) = (Inr seg, (a', w'))" for a w seg a' w'
    using assms(3) that by (rule ensures_count)
  show "fd_num (fd a') = fd_num (fd a)" if "rd (a, w) = (r, (a', w'))" for a w r a' w'
    using assms(1) that by (rule keeps_num)
  show "fd_num (fd a') = fd_num (fd a)" if "wr out (a, w) = (q, (a', w'))" for a w out q a' w'
    using assms(2) that by (rule keeps_num)
qed

interpretation udp_adapter: fd_adapter "ua_read sys_recvfrom" "ua_write getnameinfo sys_sendmsg" ua_sock
  by (rule fd_adapterI) (rule adapter_keeps ua_read_counts)+

interpretation tun_adapter: fd_adapter "ta_read getaddrinfo getnameinfo sys_read" "ta_write getnameinfo sys_writev" ta_tun
  by (rule fd_adapterI) (rule adapter_keeps ta_read_counts)+

interpretation ethernet_adapter: fd_adapter "ea_read getaddrinfo getnameinfo sys_read sys_writev"
    "ea_write getnameinfo sys_writev" ea_tap
  by (rule fd_adapterI) (rule adapter_keeps ea_read_counts)+

text \<open>Dropping packets keeps the contract.\<close>

locale lossy_adapter = fd_adapter rd wr fd
  for rd :: "('a \<times> 'w, sys_error, TCPSegment option) eff"
    and wr :: "TCPSegment \<Rightarrow> ('a \<times> 'w, sys_error, unit) eff"
    and fd :: "'a \<Rightarrow> FDWrapper" +
  fixes rand :: "'g \<Rightarrow> u32 \<times> 'g" and config :: "'a \<Rightarrow> FdAdapterConfig"

lemma la_should_drop_keeps: "ekeeps (\<lambda>(l, w). P (la_adapter l)) (la_should_drop rand config uplink)"
  by (auto simp: ekeeps_def la_should_drop_def Let_def split: prod.splits)

lemma la_on_adapter_keeps:
  assumes "ekeeps (\<lambda>(a, w). P a) m"
  shows "ekeeps (\<lambda>(l, w). P (la_adapter l)) (la_on_adapter m)"
  unfolding la_on_adapter_def by (rule ekeeps_ezoom[OF assms]) auto

sublocale lossy_adapter \<subseteq> lossy: fd_adapter "la_read rand config rd" "la_write rand config wr" "\<lambda>l. fd (la_adapter l)"
proof (rule fd_adapterI)
  fix n m out
  have keep: "ekeeps (\<lambda>(a, w). fd_num (fd a) = n) rd" "ekeeps (\<lambda>(a, w). fd_num (fd a) = n) (wr out)"
    using read_same write_same by (auto simp: ekeeps_def split_beta) (metis prod.collapse)+
  have ens: "eensures (\<lambda>(a, w). fd_read_count (fd a) = m) rd (\<lambda>(a, w). fd_read_count (fd a) = add32 m 1)"
    using read_counts by (auto simp: eensures_def)
  show "ekeeps (\<lambda>(l, w). fd_num (fd (la_adapter l)) = n) (la_read rand config rd)"
    unfolding la_read_def
    by (intro ekeeps_ebind ekeeps_simple la_on_adapter_keeps[of "\<lambda>a. fd_num (fd a) = n"]
        la_should_drop_keeps[of "\<lambda>a. fd_num (fd a) = n"] keep)
  show "ekeeps (\<lambda>(l, w). fd_num (fd (la_adapter l)) = n) (la_write rand config wr out)"
    unfolding la_write_def
    by (intro ekeeps_ebind la_should_drop_keeps[of "\<lambda>a. fd_num (fd a) = n"])
      (simp add: ekeeps_simple la_on_adapter_keeps[of "\<lambda>a. fd_num (fd a) = n"] keep)
  show "eensures (\<lambda>(l, w). fd_read_count (fd (la_adapter l)) = m) (la_read rand config rd)
      (\<lambda>(l, w). fd_read_count (fd (la_adapter l)) = add32 m 1)"
    unfolding la_read_def
  proof (intro eensures_ebind ekeeps_ebind ekeeps_simple la_should_drop_keeps[of "\<lambda>a. fd_read_count (fd a) = add32 m 1"])
    show "eensures (\<lambda>(l, w). fd_read_count (fd (la_adapter l)) = m) (la_on_adapter rd)
        (\<lambda>(l, w). fd_read_count (fd (la_adapter l)) = add32 m 1)"
      unfolding la_on_adapter_def by (rule eensures_ezoom[OF ens]) auto
  qed
qed

interpretation lossy_udp: lossy_adapter "ua_read sys_recvfrom" "ua_write getnameinfo sys_sendmsg" ua_sock
    rand "\<lambda>a. fa_cfg (ua_base a)"
  for sys_recvfrom getnameinfo sys_sendmsg and rand :: "'g \<Rightarrow> u32 \<times> 'g"
  by unfold_locales

interpretation lossy_tun: lossy_adapter "ta_read getaddrinfo getnameinfo sys_read" "ta_write getnameinfo sys_writev" ta_tun
    rand "\<lambda>a. fa_cfg (ta_base a)"
  for getaddrinfo getnameinfo sys_read sys_writev and rand :: "'g \<Rightarrow> u32 \<times> 'g"
  by unfold_locales

section \<open>Wrapping and unwrapping\<close>

lemma ad_port_numeric [simp]: "numeric_names getnameinfo \<Longrightarrow> ad_port getnameinfo (ad_ipv4 port ip) = Inr port"
  by (simp add: ad_port_def addr_result_def ad_ip_port_numeric)

lemma addr_result_Inr [simp]: "addr_result (Inr x) = Inr x"
  by (simp add: addr_result_def)

text \<open>The pseudo-header sum stays far from the range of the 32-bit sum.\<close>

lemma unat_add_le: "unat (a + b :: u32) \<le> unat a + unat b"
  by (simp add: unat_word_ariths)

lemma pseudo_cksum_bound: "unat (ip_pseudo_cksum h) \<le> 327930"
proof -
  have half: "unat (drop_bit 16 x) \<le> 65535" "unat (x AND 0xffff) \<le> 65535" for x :: u32
  proof -
    have "unat (drop_bit 16 x) = drop_bit 16 (unat x)" by (rule unat_drop_bit_eq)
    then show "unat (drop_bit 16 x) \<le> 65535"
      using unsigned_less[of x, where ?'a = nat] by (simp only: drop_bit_eq_div) simp
    have "x AND 0xffff \<le> 0xffff" by (rule word_and_le1)
    then show "unat (x AND 0xffff) \<le> 65535" by (simp add: word_le_nat_alt)
  qed
  have s: "unat (drop_bit 16 x + (x AND 0xffff)) \<le> 131070" for x :: u32
    using unat_add_le[of "drop_bit 16 x" "x AND 0xffff"] half[of x] by linarith
  have p: "unat (ucast (ip_proto h) :: u32) \<le> 255" "unat (ucast (ip_payload_length h) :: u32) \<le> 65535"
    using unsigned_less[of "ip_proto h", where ?'a = nat] unsigned_less[of "ip_payload_length h", where ?'a = nat]
    by (simp_all add: unsigned_ucast_eq take_bit_eq_mod)
  show ?thesis
    unfolding ip_pseudo_cksum_def Let_def
    using unat_add_le[of "drop_bit 16 (ip_src h) + (ip_src h AND 0xffff)" "drop_bit 16 (ip_dst h) + (ip_dst h AND 0xffff)"]
      unat_add_le[of "drop_bit 16 (ip_src h) + (ip_src h AND 0xffff) + (drop_bit 16 (ip_dst h) + (ip_dst h AND 0xffff))" "ucast (ip_proto h)"]
      unat_add_le[of "drop_bit 16 (ip_src h) + (ip_src h AND 0xffff) + (drop_bit 16 (ip_dst h) + (ip_dst h AND 0xffff)) + ucast (ip_proto h)" "ucast (ip_payload_length h)"]
      s[of "ip_src h"] s[of "ip_dst h"] p by linarith
qed

definition fa_pair :: "Address \<Rightarrow> Address \<Rightarrow> bool \<Rightarrow> FdAdapterConfig \<Rightarrow> FdAdapterBase" where
  "fa_pair source destination listening cfg =
     \<lparr>fa_cfg = cfg\<lparr>fc_source := source, fc_destination := destination\<rparr>, fa_listen = listening\<rparr>"

text \<open>The datagram that \<open>wrap_tcp_in_ip\<close> makes.\<close>

definition wrapped_header :: "u32 \<Rightarrow> u32 \<Rightarrow> TCPSegment \<Rightarrow> IPv4Header" where
  "wrapped_header src dst seg = ip_default\<lparr>ip_src := src, ip_dst := dst,
     ip_len := of_nat (20 + unat (th_doff (ts_header seg)) * 4 + length (ts_payload seg))\<rparr>"

lemma wrap_eq:
  assumes "numeric_names getnameinfo"
  shows "wrap_tcp_in_ip getnameinfo seg (fa_pair (ad_ipv4 sport src) (ad_ipv4 dport dst) l cfg) =
    (case ts_serialize (ts_set_ports sport dport seg) (ip_pseudo_cksum (wrapped_header src dst seg)) of
       None \<Rightarrow> Inl tcp_header_too_short
     | Some payload \<Rightarrow> Inr (\<lparr>dg_header = wrapped_header src dst seg, dg_payload = payload\<rparr>, ts_set_ports sport dport seg))"
proof -
  have "ip_hlen ip_default = 5" by (simp add: ip_default_def)
  then show ?thesis
    using assms by (simp add: wrap_tcp_in_ip_def fa_pair_def Let_def wrapped_header_def ts_set_ports_def
        split: option.split)
qed

lemma fa_differs_numeric [simp]:
  "fa_differs field (ad_ipv4 port ip) a = Inr (\<not> fa_listen a \<and> field \<noteq> ip)"
  by (simp add: fa_differs_def)

text \<open>What the receiving side makes of a datagram for it.\<close>

lemma unwrap_eq:
  assumes "numeric_names getnameinfo" "l \<longrightarrow> numeric_resolver getaddrinfo \<and> th_syn (ts_header seg) \<and> \<not> th_rst (ts_header seg)"
    and "ip_dst (dg_header d) = dst" "ip_src (dg_header d) = src" "ip_proto (dg_header d) = PROTO_TCP"
    and "dg_payload d = [buffer]" "ts_parse ts_default buffer (ip_pseudo_cksum (dg_header d)) = (seg, NoError)"
    and "th_dport (ts_header seg) = dport" "th_sport (ts_header seg) = sport"
    and "l \<or> bound = dst \<and> peer = ad_ipv4 sport src"
  shows "unwrap_tcp_in_ip getaddrinfo getnameinfo d (fa_pair (ad_ipv4 dport bound) peer l cfg) =
    (Inr (Some seg), fa_pair (ad_ipv4 dport dst) (ad_ipv4 sport src) False cfg)"
proof (cases l)
  case True
  then have adopt: "fa_adopt getaddrinfo getnameinfo (dg_header d) (ts_header seg) (fa_pair (ad_ipv4 dport bound) p True cfg) =
      (Inr True, fa_pair (ad_ipv4 dport dst) (ad_ipv4 sport src) False cfg)" for p
    using assms by (simp add: fa_adopt_def fa_pair_def ad_new_port_numeric fa_set_listening_def)
  have cfg: "fc_source (fa_cfg (fa_pair s t l cfg)) = s" "fc_destination (fa_cfg (fa_pair s t l cfg)) = t"
    "fa_listen (fa_pair s t l cfg) = l" for s t l
    by (simp_all add: fa_pair_def)
  show ?thesis
    using assms True unfolding unwrap_tcp_in_ip_def Let_def
    by (simp add: cfg single_buffer_def adopt fa_differs_def)
next
  case False
  then show ?thesis
    using assms by (simp add: unwrap_tcp_in_ip_def Let_def fa_pair_def single_buffer_def fa_adopt_def)
qed

lemma ts_serialize_length:
  assumes "ts_serialize s init = Some bl" "5 \<le> th_doff (ts_header s)"
  shows "length (concat bl) = 4 * unat (th_doff (ts_header s)) + length (ts_payload s)"
proof -
  have "5 \<le> unat (th_doff (ts_header s))" using assms(2) by (simp add: word_le_nat_alt)
  moreover have "\<not> th_doff (ts_header s) < 5" using assms(2) by simp
  ultimately show ?thesis
    using assms(1) by (auto simp: ts_serialize_eq Let_def th_back_def)
qed

text \<open>A segment that a connected adapter passes on comes from the peer's address and port and is for
  the own address and port.\<close>

lemma unwrap_connected:
  assumes "unwrap_tcp_in_ip getaddrinfo getnameinfo d a = (Inr (Some seg), a')" "\<not> fa_listen a"
  shows "a' = a \<and> ad_ipv4_numeric (fc_source (fa_cfg a)) = Inr (ip_dst (dg_header d)) \<and>
    ad_ipv4_numeric (fc_destination (fa_cfg a)) = Inr (ip_src (dg_header d)) \<and>
    ad_port getnameinfo (fc_source (fa_cfg a)) = Inr (th_dport (ts_header seg)) \<and>
    ad_port getnameinfo (fc_destination (fa_cfg a)) = Inr (th_sport (ts_header seg))"
proof -
  have n: "addr_result r = Inr x \<longleftrightarrow> r = Inr x" for r :: "addr_error + u32" and x
    by (auto simp: addr_result_def split: sum.splits)
  show ?thesis
    using assms
    by (auto simp: unwrap_tcp_in_ip_def fa_differs_def fa_adopt_def n Let_def
        split: sum.splits bool.splits option.splits prod.splits if_splits)
qed

section \<open>Numeric look-up functions\<close>

text \<open>Functions with the documented behaviour, for examples.\<close>

definition example_names :: reverse_lookup where
  "example_names storage len flags =
     (0, inet_ntoa (np_int_loop 4 (take 4 (drop 4 storage)) 0),
      show_dec (unat (np_int_loop 2 (take 2 (drop 2 storage)) 0 :: u16)))"

definition dot_break :: "string \<Rightarrow> string \<times> string" where
  "dot_break s = (takeWhile (\<lambda>c. c \<noteq> CHR ''.'') s, drop 1 (dropWhile (\<lambda>c. c \<noteq> CHR ''.'') s))"

definition inet_aton :: "string \<Rightarrow> u32" where
  "inet_aton s =
     (case dot_break s of (a, s) \<Rightarrow> case dot_break s of (b, s) \<Rightarrow> case dot_break s of (c, d) \<Rightarrow>
        np_int_loop 4 (map (\<lambda>x. of_nat (read_base 10 x)) [a, b, c, d]) 0)"

definition example_resolver :: resolver where
  "example_resolver node service hints =
     (0, Some (sockaddr_in (of_nat (read_base 10 service)) (inet_aton node), SOCKADDR_IN_SIZE))"

lemma example_names_numeric: "numeric_names example_names"
proof -
  have "take 4 (drop 4 (ad_storage (ad_ipv4 port ip))) = be32 ip" "take 2 (drop 2 (ad_storage (ad_ipv4 port ip))) = be16 port"
    for port ip
    by (simp_all add: ad_ipv4_def sockaddr_in_def be16_def be32_def)
  moreover have "np_int_loop 4 (be32 ip) 0 = ip" "np_int_loop 2 (be16 port) 0 = port" for ip port
    using np_int_be(3)[of ip "[]"] np_int_be(2)[of port "[]"] by simp_all
  ultimately show ?thesis by (simp add: numeric_names_def example_names_def)
qed

lemma dot_break_dec: "dot_break (show_dec n @ CHR ''.'' # s) = (show_dec n, s)"
proof -
  have "\<forall>c\<in>set (show_dec n). c \<noteq> CHR ''.''" using dot_not_in_dec[of n] by blast
  then show ?thesis by (simp add: dot_break_def takeWhile_append2 dropWhile_append2)
qed

lemma ucast_take_8: "(ucast (take_bit 8 (x :: u32)) :: u8) = ucast x"
  by (rule bit_eqI) (simp add: bit_ucast_iff bit_take_bit_iff)

lemma inet_aton_ntoa: "inet_aton (inet_ntoa ip) = ip"
proof -
  have r: "read_base 10 (show_dec n) = n" for n using read_show_base[of 10 n] by (simp add: show_dec_def)
  have "inet_aton (inet_ntoa ip) = np_int_loop 4 (be32 ip) 0"
    by (simp add: inet_aton_def inet_ntoa_def dot_break_dec r be32_def ucast_take_8)
  then show ?thesis using np_int_be(3)[of ip "[]"] by simp
qed

lemma example_resolver_numeric: "numeric_resolver example_resolver"
  using read_show_base[of 10] by (simp add: numeric_resolver_def example_resolver_def inet_aton_ntoa show_dec_def)

section \<open>Properties\<close>

text \<open>C32: A segment that one side wraps and serializes is what the other side gets when it parses and
  unwraps the bytes, with the ports of the connection and the checksum filled in. A listening side
  takes over the addresses of the SYN and is connected afterwards; a connected side is not changed.\<close>

theorem tcp_in_ip_roundtrip:
  assumes "numeric_names getnameinfo" "l \<longrightarrow> numeric_resolver getaddrinfo \<and> th_syn (ts_header seg) \<and> \<not> th_rst (ts_header seg)"
    and "5 \<le> th_doff (ts_header seg)" "th_doff (ts_header seg) < 16" "length (ts_payload seg) \<le> 65455"
    and "l \<or> bound = dst \<and> peer = ad_ipv4 sport src"
  shows "\<exists>d bl d' c. wrap_tcp_in_ip getnameinfo seg (fa_pair (ad_ipv4 sport src) (ad_ipv4 dport dst) l' cfg) =
      Inr (d, ts_set_ports sport dport seg) \<and>
    dg_serialize d = Some bl \<and> dg_parse dg_default (concat bl) = (d', NoError) \<and>
    unwrap_tcp_in_ip getaddrinfo getnameinfo d' (fa_pair (ad_ipv4 dport bound) peer l cfg') =
      (Inr (Some ((ts_set_ports sport dport seg)\<lparr>ts_header := (ts_header (ts_set_ports sport dport seg))\<lparr>th_cksum := c\<rparr>\<rparr>)),
       fa_pair (ad_ipv4 dport dst) (ad_ipv4 sport src) False cfg')"
proof -
  let ?s = "ts_set_ports sport dport seg" and ?h = "wrapped_header src dst seg"
  have doff: "unat (th_doff (ts_header seg)) < 16" using assms(4) by (simp add: word_less_nat_alt)
  obtain payload c where p: "ts_serialize ?s (ip_pseudo_cksum ?h) = Some payload"
    "ts_parse ts_default (concat payload) (ip_pseudo_cksum ?h) = (?s\<lparr>ts_header := (ts_header ?s)\<lparr>th_cksum := c\<rparr>\<rparr>, NoError)"
    using ts_parse_serialize[of ?s "ip_pseudo_cksum ?h" ts_default] assms(3-5) pseudo_cksum_bound[of ?h]
    by (auto simp: ts_set_ports_def)
  have len: "length (concat payload) = 4 * unat (th_doff (ts_header seg)) + length (ts_payload seg)"
    using ts_serialize_length[OF p(1)] assms(3) by (simp add: ts_set_ports_def)
  let ?d = "\<lparr>dg_header = ?h, dg_payload = payload\<rparr>"
  have "unat (of_nat (20 + unat (th_doff (ts_header seg)) * 4 + length (ts_payload seg)) :: u16)
      = 20 + unat (th_doff (ts_header seg)) * 4 + length (ts_payload seg)"
    using doff assms(5) by (subst unat_of_nat) simp
  then have "unat (ip_len ?h) = 4 * unat (ip_hlen ?h) + length (concat (dg_payload ?d))"
    using len by (simp add: wrapped_header_def ip_default_def)
  moreover have "ip_wf ?h" by (simp add: wrapped_header_def ip_default_def ip_wf_def)
  ultimately obtain bl e where d: "dg_serialize ?d = Some bl"
    "dg_parse dg_default (concat bl) = (\<lparr>dg_header = ?h\<lparr>ip_cksum := e\<rparr>, dg_payload = [concat payload]\<rparr>, NoError)"
    using dg_parse_serialize[of ?d dg_default] by auto
  let ?d' = "\<lparr>dg_header = ?h\<lparr>ip_cksum := e\<rparr>, dg_payload = [concat payload]\<rparr>"
  have "ip_pseudo_cksum (dg_header ?d') = ip_pseudo_cksum ?h"
    by (simp add: ip_pseudo_cksum_def)
  then have "unwrap_tcp_in_ip getaddrinfo getnameinfo ?d' (fa_pair (ad_ipv4 dport bound) peer l cfg') =
      (Inr (Some (?s\<lparr>ts_header := (ts_header ?s)\<lparr>th_cksum := c\<rparr>\<rparr>)),
       fa_pair (ad_ipv4 dport dst) (ad_ipv4 sport src) False cfg')"
    using p(2) assms
    by (intro unwrap_eq[where buffer = "concat payload"]) (simp_all add: wrapped_header_def ip_default_def ts_set_ports_def)
  moreover have "wrap_tcp_in_ip getnameinfo seg (fa_pair (ad_ipv4 sport src) (ad_ipv4 dport dst) l' cfg) = Inr (?d, ?s)"
    using wrap_eq[OF assms(1)] p(1) by simp
  ultimately show ?thesis using d by blast
qed

theorem tcp_in_ip_roundtrip_witness:
  "let seg = ts_default\<lparr>ts_header := th_default\<lparr>th_syn := True\<rparr>, ts_payload := [1, 2, 3]\<rparr>;
       cfg = \<lparr>fc_source = ad_ipv4 0 0, fc_destination = ad_ipv4 0 0, fc_loss_rate_dn = 0, fc_loss_rate_up = 0\<rparr>
   in \<exists>d bl d' s'. wrap_tcp_in_ip example_names seg (fa_pair (ad_ipv4 4000 0x0A000001) (ad_ipv4 80 0x0A000002) False cfg) =
        Inr (d, ts_set_ports 4000 80 seg) \<and>
      dg_serialize d = Some bl \<and> dg_parse dg_default (concat bl) = (d', NoError) \<and>
      unwrap_tcp_in_ip example_resolver example_names d' (fa_pair (ad_ipv4 80 0) (ad_ipv4 0 0) True cfg) =
        (Inr (Some s'), fa_pair (ad_ipv4 80 0x0A000002) (ad_ipv4 4000 0x0A000001) False cfg) \<and> ts_payload s' = [1, 2, 3]"
proof -
  let ?seg = "ts_default\<lparr>ts_header := th_default\<lparr>th_syn := True\<rparr>, ts_payload := [1, 2, 3]\<rparr>"
    and ?cfg = "\<lparr>fc_source = ad_ipv4 0 0, fc_destination = ad_ipv4 0 0, fc_loss_rate_dn = 0, fc_loss_rate_up = 0\<rparr>"
  have h: "th_syn (ts_header ?seg)" "\<not> th_rst (ts_header ?seg)" "th_doff (ts_header ?seg) = 5"
    by (simp_all add: th_default_def)
  obtain d bl d' c where "wrap_tcp_in_ip example_names ?seg (fa_pair (ad_ipv4 4000 0x0A000001) (ad_ipv4 80 0x0A000002) False ?cfg) =
      Inr (d, ts_set_ports 4000 80 ?seg)" "dg_serialize d = Some bl" "dg_parse dg_default (concat bl) = (d', NoError)"
    "unwrap_tcp_in_ip example_resolver example_names d' (fa_pair (ad_ipv4 80 0) (ad_ipv4 0 0) True ?cfg) =
      (Inr (Some ((ts_set_ports 4000 80 ?seg)\<lparr>ts_header := (ts_header (ts_set_ports 4000 80 ?seg))\<lparr>th_cksum := c\<rparr>\<rparr>)),
       fa_pair (ad_ipv4 80 0x0A000002) (ad_ipv4 4000 0x0A000001) False ?cfg)"
    using tcp_in_ip_roundtrip[OF example_names_numeric, of True example_resolver ?seg 0 "0x0A000002" "ad_ipv4 0 0" 4000 "0x0A000001" 80 False ?cfg ?cfg]
      example_resolver_numeric h by auto
  moreover have "ts_payload ((ts_set_ports 4000 80 ?seg)\<lparr>ts_header := x\<rparr>) = [1, 2, 3]" for x
    by (simp add: ts_set_ports_def)
  ultimately show ?thesis unfolding Let_def by blast
qed

end
