(* ===== verification/TCP_Sponge_Socket.thy ===== *)
theory TCP_Sponge_Socket
  imports Event_Loop TCP_Adapter TCP_State
begin

text \<open>
  The socket that runs a connection (\<^verbatim>\<open>tcp_helpers/tcp_sponge_socket.hh\<close> and \<^verbatim>\<open>.cc\<close>). The template parameter
  is a record of the adapter's operations, the system calls are a record of functions. The state
  holds the two descriptors of the socket pair, the adapter, the connection, the flags and the
  kernel; the rules of the event loop are kept beside it, because they are functions of it.

  \<^verbatim>\<open>_tcp\<rightarrow>\<close> on an empty optional is undefined behaviour, \<^verbatim>\<open>_tcp.value()\<close> throws. Debug output is left out, but
  \<open>to_string\<close> in it is kept, as it can throw. The second thread runs \<open>ss_main\<close>; what the owner's thread
  changes meanwhile (the abort flag, the other end of the socket pair) happens while \<^verbatim>\<open>poll\<close> waits, so
  that it is a part of the argument \<open>sys_poll\<close>.
\<close>

section \<open>State\<close>

record ('a, 'w) AdaptT =
  at_read :: "('a \<times> 'w, sys_error, TCPSegment option) eff"
  at_write :: "TCPSegment \<Rightarrow> ('a \<times> 'w, sys_error, unit) eff"
  at_tick :: "nat \<Rightarrow> ('a \<times> 'w, sys_error, unit) eff"
  at_fd :: "'a \<Rightarrow> FDWrapper"
  at_config :: "'a \<Rightarrow> FdAdapterConfig"
  at_set_config :: "FdAdapterConfig \<Rightarrow> 'a \<Rightarrow> 'a"
  at_set_listening :: "bool \<Rightarrow> 'a \<Rightarrow> 'a"

record 'w kernel_calls =
  kc_getnameinfo :: reverse_lookup
  kc_read :: "int \<Rightarrow> nat \<Rightarrow> ('w, bytes) syscall"
  kc_writev :: "int \<Rightarrow> (bytes \<times> nat) list \<Rightarrow> ('w, unit) syscall"
  kc_shutdown :: "int \<Rightarrow> int \<Rightarrow> ('w, unit) syscall"
  kc_clock :: "'w \<Rightarrow> nat \<times> 'w"

record ('a, 'w) TCPSpongeSocket =
  ss_owner :: FDWrapper
  ss_thread_data :: FDWrapper
  ss_datagram_adapter :: 'a
  ss_tcp :: "TCPConnection option"
  ss_abort :: bool
  ss_inbound_shutdown :: bool
  ss_outbound_shutdown :: bool
  ss_fully_acked :: bool
  ss_kernel :: 'w

datatype ss_handle = ThreadData | DatagramAdapter

fun ss_fds :: "('a, 'w) AdaptT \<Rightarrow> (ss_handle, ('a, 'w) TCPSpongeSocket) fd_store" where
  "ss_fds A s ThreadData = ss_thread_data s"
| "ss_fds A s DatagramAdapter = at_fd A (ss_datagram_adapter s)"

type_synonym ('a, 'w, 'b) ss_eff = "(('a, 'w) TCPSpongeSocket, sys_error, 'b) eff"

definition ss_on_adapter :: "('a \<times> 'w, sys_error, 'b) eff \<Rightarrow> ('a, 'w, 'b) ss_eff" where
  "ss_on_adapter = ezoom (\<lambda>s. (ss_datagram_adapter s, ss_kernel s)) (\<lambda>(a, w) s. s\<lparr>ss_datagram_adapter := a, ss_kernel := w\<rparr>)"

definition ss_on_thread_data :: "('w, 'b) fd_eff \<Rightarrow> ('a, 'w, 'b) ss_eff" where
  "ss_on_thread_data = ezoom (\<lambda>s. (ss_thread_data s, ss_kernel s)) (\<lambda>(f, w) s. s\<lparr>ss_thread_data := f, ss_kernel := w\<rparr>)"

definition ss_on_owner :: "('w, 'b) fd_eff \<Rightarrow> ('a, 'w, 'b) ss_eff" where
  "ss_on_owner = ezoom (\<lambda>s. (ss_owner s, ss_kernel s)) (\<lambda>(f, w) s. s\<lparr>ss_owner := f, ss_kernel := w\<rparr>)"

definition conn_exn :: "conn_error \<Rightarrow> sys_error" where
  "conn_exn e = (case e of ReassemblerUndefined \<Rightarrow> UndefinedBehaviour | BadOptionalAccess \<Rightarrow> BadOptional)"

text \<open>\<^verbatim>\<open>_tcp\<rightarrow>\<close> with an operation on the connection, and the two ways to look at it.\<close>

definition ss_on_tcp :: "(TCPConnection \<Rightarrow> conn_error + 'b \<times> TCPConnection) \<Rightarrow> ('a, 'w, 'b) ss_eff" where
  "ss_on_tcp op s =
     (case ss_tcp s of
        None \<Rightarrow> (Inl UndefinedBehaviour, s)
      | Some c \<Rightarrow> (case op c of Inl e \<Rightarrow> (Inl (conn_exn e), s) | Inr (b, c') \<Rightarrow> (Inr b, s\<lparr>ss_tcp := Some c'\<rparr>)))"

definition ss_tcp_arrow :: "(TCPConnection \<Rightarrow> 'b) \<Rightarrow> ('a, 'w, 'b) ss_eff" where
  "ss_tcp_arrow f = ss_on_tcp (\<lambda>c. Inr (f c, c))"

definition ss_tcp_value :: "(TCPConnection \<Rightarrow> 'b) \<Rightarrow> ('a, 'w, 'b) ss_eff" where
  "ss_tcp_value f s = (case ss_tcp s of None \<Rightarrow> (Inl BadOptional, s) | Some c \<Rightarrow> (Inr (f c), s))"

definition ss_peer_string :: "('a, 'w) AdaptT \<Rightarrow> 'w kernel_calls \<Rightarrow> ('a, 'w, string) ss_eff" where
  "ss_peer_string A K =
     ebind (eget (\<lambda>s. fc_destination (at_config A (ss_datagram_adapter s)))) (\<lambda>destination.
       eresult (addr_result (ad_to_string (kc_getnameinfo K) destination)))"

text \<open>The adapters for which the class is instantiated, and those with random loss.\<close>

definition udp_ops :: "reverse_lookup \<Rightarrow> (int \<Rightarrow> nat \<Rightarrow> ('w, bytes \<times> bytes \<times> nat) syscall) \<Rightarrow>
    (int \<Rightarrow> (bytes \<times> nat) option \<Rightarrow> (bytes \<times> nat) list \<Rightarrow> ('w, unit) syscall) \<Rightarrow> (TCPOverUDPSocketAdapter, 'w) AdaptT" where
  "udp_ops getnameinfo sys_recvfrom sys_sendmsg =
     \<lparr>at_read = ua_read sys_recvfrom, at_write = ua_write getnameinfo sys_sendmsg, at_tick = (\<lambda>_. ereturn ()),
      at_fd = ua_sock, at_config = (\<lambda>a. fa_cfg (ua_base a)),
      at_set_config = (\<lambda>cfg a. a\<lparr>ua_base := (ua_base a)\<lparr>fa_cfg := cfg\<rparr>\<rparr>),
      at_set_listening = (\<lambda>l a. a\<lparr>ua_base := fa_set_listening l (ua_base a)\<rparr>)\<rparr>"

definition tun_ops :: "resolver \<Rightarrow> reverse_lookup \<Rightarrow> (int \<Rightarrow> nat \<Rightarrow> ('w, bytes) syscall) \<Rightarrow>
    (int \<Rightarrow> (bytes \<times> nat) list \<Rightarrow> ('w, unit) syscall) \<Rightarrow> (TCPOverIPv4OverTunFdAdapter, 'w) AdaptT" where
  "tun_ops getaddrinfo getnameinfo sys_read sys_writev =
     \<lparr>at_read = ta_read getaddrinfo getnameinfo sys_read, at_write = ta_write getnameinfo sys_writev,
      at_tick = (\<lambda>_. ereturn ()), at_fd = ta_tun, at_config = (\<lambda>a. fa_cfg (ta_base a)),
      at_set_config = (\<lambda>cfg a. a\<lparr>ta_base := (ta_base a)\<lparr>fa_cfg := cfg\<rparr>\<rparr>),
      at_set_listening = (\<lambda>l a. a\<lparr>ta_base := fa_set_listening l (ta_base a)\<rparr>)\<rparr>"

definition ethernet_ops :: "resolver \<Rightarrow> reverse_lookup \<Rightarrow> (int \<Rightarrow> nat \<Rightarrow> ('w, bytes) syscall) \<Rightarrow>
    (int \<Rightarrow> (bytes \<times> nat) list \<Rightarrow> ('w, unit) syscall) \<Rightarrow> (TCPOverIPv4OverEthernetAdapter, 'w) AdaptT" where
  "ethernet_ops getaddrinfo getnameinfo sys_read sys_writev =
     \<lparr>at_read = ea_read getaddrinfo getnameinfo sys_read sys_writev, at_write = ea_write getnameinfo sys_writev,
      at_tick = ea_tick sys_writev, at_fd = ea_tap, at_config = (\<lambda>a. fa_cfg (ea_base a)),
      at_set_config = (\<lambda>cfg a. a\<lparr>ea_base := (ea_base a)\<lparr>fa_cfg := cfg\<rparr>\<rparr>),
      at_set_listening = (\<lambda>l a. a\<lparr>ea_base := fa_set_listening l (ea_base a)\<rparr>)\<rparr>"

definition lossy_ops :: "('g \<Rightarrow> u32 \<times> 'g) \<Rightarrow> ('a, 'w) AdaptT \<Rightarrow> (('g, 'a) LossyFdAdapter, 'w) AdaptT" where
  "lossy_ops rand A =
     \<lparr>at_read = la_read rand (at_config A) (at_read A), at_write = la_write rand (at_config A) (at_write A),
      at_tick = la_tick (at_tick A), at_fd = (\<lambda>l. at_fd A (la_adapter l)), at_config = (\<lambda>l. at_config A (la_adapter l)),
      at_set_config = (\<lambda>cfg l. l\<lparr>la_adapter := at_set_config A cfg (la_adapter l)\<rparr>),
      at_set_listening = (\<lambda>b l. l\<lparr>la_adapter := at_set_listening A b (la_adapter l)\<rparr>)\<rparr>"

section \<open>The rules\<close>

definition ss_receive :: "('a, 'w) AdaptT \<Rightarrow> 'w kernel_calls \<Rightarrow> ('a, 'w, unit) ss_eff" where
  "ss_receive A K =
     ebind (ss_on_adapter (at_read A)) (\<lambda>seg.
     eseq (case seg of
             None \<Rightarrow> ereturn ()
           | Some seg \<Rightarrow> ss_on_tcp (\<lambda>c. case tc_segment_received seg c of Inl e \<Rightarrow> Inl e | Inr c' \<Rightarrow> Inr ((), c')))
     (ebind (eget (\<lambda>s. fd_eof (ss_thread_data s))) (\<lambda>eof.
        if \<not> eof then ereturn ()
        else ebind (ss_tcp_value tc_bytes_in_flight) (\<lambda>in_flight.
        ebind (eget ss_fully_acked) (\<lambda>fully_acked.
          ewhen (in_flight = 0 \<and> \<not> fully_acked)
            (eseq (ss_peer_string A K) (emodify (\<lambda>s. s\<lparr>ss_fully_acked := True\<rparr>))))))))"

definition ss_receive_interest :: "('a, 'w) TCPSpongeSocket \<Rightarrow> bool" where
  "ss_receive_interest s \<longleftrightarrow> (case ss_tcp s of None \<Rightarrow> False | Some c \<Rightarrow> tc_active c)"

abbreviation short_write :: sys_error where
  "short_write \<equiv> RuntimeError ''TCPConnection::write() accepted less than advertised length''"

definition ss_end_output :: "('a, 'w, unit) ss_eff" where
  "ss_end_output =
     eseq (ss_on_tcp (\<lambda>c. Inr ((), tc_end_input_stream c))) (emodify (\<lambda>s. s\<lparr>ss_outbound_shutdown := True\<rparr>))"

definition ss_copy_out :: "('a, 'w) AdaptT \<Rightarrow> 'w kernel_calls \<Rightarrow> ('a, 'w, unit) ss_eff" where
  "ss_copy_out A K =
     ebind (ss_tcp_arrow tc_remaining_outbound_capacity) (\<lambda>capacity.
     ebind (ss_on_thread_data (fd_read (kc_read K) capacity)) (\<lambda>data.
     ebind (ss_on_tcp (\<lambda>c. case tc_write data c of (c', n) \<Rightarrow> Inr (n, c'))) (\<lambda>amount_written.
       if amount_written \<noteq> length data then ethrow short_write
       else ebind (eget (\<lambda>s. fd_eof (ss_thread_data s))) (\<lambda>eof.
         ewhen eof (eseq ss_end_output
           (eseq (ss_peer_string A K) (eseq (ss_tcp_value tc_bytes_in_flight) (ereturn ()))))))))"

definition ss_copy_out_interest :: "('a, 'w) TCPSpongeSocket \<Rightarrow> bool" where
  "ss_copy_out_interest s \<longleftrightarrow>
     (case ss_tcp s of
        None \<Rightarrow> False
      | Some c \<Rightarrow> tc_active c \<and> \<not> ss_outbound_shutdown s \<and> tc_remaining_outbound_capacity c > 0)"

definition tc_set_inbound :: "ByteStream \<Rightarrow> TCPConnection \<Rightarrow> TCPConnection" where
  "tc_set_inbound stream c =
     c\<lparr>tc_receiver := (tc_receiver c)\<lparr>tr_reassembler := (tr_reassembler (tc_receiver c))\<lparr>sr_output := stream\<rparr>\<rparr>\<rparr>"

definition ss_copy_in :: "('a, 'w) AdaptT \<Rightarrow> 'w kernel_calls \<Rightarrow> ('a, 'w, unit) ss_eff" where
  "ss_copy_in A K =
     ebind (ss_tcp_arrow tc_inbound_stream) (\<lambda>inbound.
       let amount_to_write = min 65536 (bs_buffer_size inbound);
           buffer = bs_peek_output inbound amount_to_write
       in ebind (ss_on_thread_data (fd_write_string (kc_writev K) buffer False)) (\<lambda>bytes_written.
          eseq (ss_on_tcp (\<lambda>c. Inr ((), tc_set_inbound (bs_pop_output (tc_inbound_stream c) bytes_written) c)))
            (ebind (ss_tcp_arrow tc_inbound_stream) (\<lambda>inbound.
              ewhen (bs_eof inbound \<or> bs_error inbound)
                (eseq (ss_on_thread_data (so_shutdown (kc_shutdown K) SHUT_WR))
                (eseq (emodify (\<lambda>s. s\<lparr>ss_inbound_shutdown := True\<rparr>))
                (eseq (ss_peer_string A K) (eseq (ss_tcp_value tc_state) (ereturn ())))))))))"

definition ss_copy_in_interest :: "('a, 'w) TCPSpongeSocket \<Rightarrow> bool" where
  "ss_copy_in_interest s \<longleftrightarrow>
     (case ss_tcp s of
        None \<Rightarrow> False
      | Some c \<Rightarrow> \<not> bs_buffer_empty (tc_inbound_stream c) \<or>
          (bs_eof (tc_inbound_stream c) \<or> bs_error (tc_inbound_stream c)) \<and> \<not> ss_inbound_shutdown s)"

text \<open>The loop over the queue of segments: a segment leaves the queue after it has been written.\<close>

fun ss_send_loop :: "('a, 'w) AdaptT \<Rightarrow> TCPSegment list \<Rightarrow> ('a, 'w, unit) ss_eff" where
  "ss_send_loop A [] s = (Inr (), s)"
| "ss_send_loop A (front # queue) s =
     (case ss_on_adapter (at_write A front) s of
        (Inl e, s') \<Rightarrow> (Inl e, s')
      | (Inr _, s') \<Rightarrow>
          (case ss_on_tcp (\<lambda>c. Inr ((), c\<lparr>tc_segments_out := queue\<rparr>)) s' of
             (Inl e, s'') \<Rightarrow> (Inl e, s'')
           | (Inr _, s'') \<Rightarrow> ss_send_loop A queue s''))"

definition ss_send :: "('a, 'w) AdaptT \<Rightarrow> ('a, 'w, unit) ss_eff" where
  "ss_send A = ebind (ss_tcp_arrow tc_segments_out) (\<lambda>queue. ss_send_loop A queue)"

definition ss_send_interest :: "('a, 'w) TCPSpongeSocket \<Rightarrow> bool" where
  "ss_send_interest s \<longleftrightarrow> (case ss_tcp s of None \<Rightarrow> False | Some c \<Rightarrow> tc_segments_out c \<noteq> [])"

definition ss_rules :: "('a, 'w) AdaptT \<Rightarrow> 'w kernel_calls \<Rightarrow> (ss_handle, ('a, 'w) TCPSpongeSocket) Rule list" where
  "ss_rules A K =
     el_add_rule DatagramAdapter Out (ss_send A) ss_send_interest (ereturn ())
       (el_add_rule ThreadData Out (ss_copy_in A K) ss_copy_in_interest (ereturn ())
          (el_add_rule ThreadData In (ss_copy_out A K) ss_copy_out_interest ss_end_output
             (el_add_rule DatagramAdapter In (ss_receive A K) ss_receive_interest (ereturn ()) [])))"

section \<open>The loop of the connection\<close>

abbreviation TCP_TICK_MS :: int where "TCP_TICK_MS \<equiv> 10"

type_synonym ('a, 'w) ss_state = "(ss_handle, ('a, 'w) TCPSpongeSocket) Rule list \<times> ('a, 'w) TCPSpongeSocket"

definition ss_clock :: "'w kernel_calls \<Rightarrow> ('a, 'w, nat) ss_eff" where
  "ss_clock K s = (case kc_clock K (ss_kernel s) of (t, w) \<Rightarrow> (Inr t, s\<lparr>ss_kernel := w\<rparr>))"

text \<open>The end of a round: the connection and the adapter are told the time that has passed.\<close>

definition ss_round_tick :: "('a, 'w) AdaptT \<Rightarrow> 'w kernel_calls \<Rightarrow> nat \<Rightarrow> ('a, 'w, nat) ss_eff" where
  "ss_round_tick A K base_time =
     ebind (ss_tcp_value tc_active) (\<lambda>active.
       if \<not> active then ereturn base_time
       else ebind (ss_clock K) (\<lambda>next_time.
         eseq (ss_on_tcp (\<lambda>c. Inr ((), tc_tick (sub64 next_time base_time) c)))
           (eseq (ss_on_adapter (at_tick A (sub64 next_time base_time))) (ereturn next_time))))"

partial_function (option) ss_tcp_rounds :: "('a, 'w) AdaptT \<Rightarrow> 'w kernel_calls \<Rightarrow>
    (pollfd list \<Rightarrow> int \<Rightarrow> (('a, 'w) TCPSpongeSocket, u16 list) syscall) \<Rightarrow> (('a, 'w) TCPSpongeSocket \<Rightarrow> bool) \<Rightarrow>
    nat \<Rightarrow> ('a, 'w) ss_state \<Rightarrow> ((sys_error + unit) \<times> ('a, 'w) ss_state) option" where
  "ss_tcp_rounds A K sys_poll condition base_time st =
     (if \<not> condition (snd st) then Some (Inr (), st)
      else case wait_next_event (ss_fds A) sys_poll TCP_TICK_MS st of
        (Inl e, st') \<Rightarrow> Some (Inl e, st')
      | (Inr ret, rules, s) \<Rightarrow>
          if ret = Exit \<or> ss_abort s then Some (Inr (), rules, s)
          else case ss_round_tick A K base_time s of
            (Inl e, s') \<Rightarrow> Some (Inl e, rules, s')
          | (Inr base_time', s') \<Rightarrow> ss_tcp_rounds A K sys_poll condition base_time' (rules, s'))"

definition ss_tcp_loop :: "('a, 'w) AdaptT \<Rightarrow> 'w kernel_calls \<Rightarrow>
    (pollfd list \<Rightarrow> int \<Rightarrow> (('a, 'w) TCPSpongeSocket, u16 list) syscall) \<Rightarrow> (('a, 'w) TCPSpongeSocket \<Rightarrow> bool) \<Rightarrow>
    ('a, 'w) ss_state \<Rightarrow> ((sys_error + unit) \<times> ('a, 'w) ss_state) option" where
  "ss_tcp_loop A K sys_poll condition st =
     (case st of (rules, s) \<Rightarrow>
        (case ss_clock K s of
           (Inl e, s') \<Rightarrow> Some (Inl e, rules, s')
         | (Inr base_time, s') \<Rightarrow> ss_tcp_rounds A K sys_poll condition base_time (rules, s')))"

section \<open>Construction, connecting and accepting\<close>

definition ss_new :: "(int \<Rightarrow> int \<Rightarrow> int \<Rightarrow> ('w, int \<times> nat) syscall) \<Rightarrow> (int \<Rightarrow> ('w, unit) syscall) \<Rightarrow>
    (int \<Rightarrow> int \<Rightarrow> ('w, unit) syscall) \<Rightarrow> FDWrapper \<Rightarrow> FDWrapper \<Rightarrow> 'a \<Rightarrow> ('w, sys_error, ('a, 'w) TCPSpongeSocket) eff" where
  "ss_new sys_getsockopt sys_getfl sys_setfl first second datagram_interface w =
     (case so_from_fd sys_getsockopt AF_UNIX SOCK_STREAM (first, w) of
        (Inl e, _, w1) \<Rightarrow> (Inl e, w1)
      | (Inr _, owner, w1) \<Rightarrow>
     (case so_from_fd sys_getsockopt AF_UNIX SOCK_STREAM (second, w1) of
        (Inl e, _, w2) \<Rightarrow> (Inl e, w2)
      | (Inr _, thread_data, w2) \<Rightarrow>
     (case fd_set_blocking sys_getfl sys_setfl False (thread_data, w2) of
        (Inl e, _, w3) \<Rightarrow> (Inl e, w3)
      | (Inr _, thread_data, w3) \<Rightarrow>
          (Inr \<lparr>ss_owner = owner, ss_thread_data = thread_data, ss_datagram_adapter = datagram_interface, ss_tcp = None,
             ss_abort = False, ss_inbound_shutdown = False, ss_outbound_shutdown = False, ss_fully_acked = False,
             ss_kernel = w3\<rparr>, w3))))"

text \<open>\<^verbatim>\<open>socketpair\<close> stores two descriptor numbers.\<close>

definition socket_pair_helper :: "(int \<Rightarrow> int \<Rightarrow> ('w, int \<times> int) syscall) \<Rightarrow> int \<Rightarrow> ('w, sys_error, FDWrapper \<times> FDWrapper) eff" where
  "socket_pair_helper sys_socketpair type w =
     (case sys_socketpair AF_UNIX type w of (ret, (fd0, fd1), w') \<Rightarrow>
        (case SystemCall ''socketpair'' ret 0 of
           Inl e \<Rightarrow> (Inl e, w')
         | Inr _ \<Rightarrow>
             (case fd_wrapper fd0 of
                Inl e \<Rightarrow> (Inl e, w')
              | Inr first \<Rightarrow> (case fd_wrapper fd1 of Inl e \<Rightarrow> (Inl e, w') | Inr second \<Rightarrow> (Inr (first, second), w')))))"

definition ss_initialize_TCP :: "('a, 'w) AdaptT \<Rightarrow> 'w kernel_calls \<Rightarrow> u32 \<Rightarrow> TCPConfig \<Rightarrow> ('a, 'w) ss_state \<Rightarrow> ('a, 'w) ss_state" where
  "ss_initialize_TCP A K rnd config st =
     (case st of (rules, s) \<Rightarrow> (rules @ ss_rules A K, s\<lparr>ss_tcp := Some (tc_new rnd config)\<rparr>))"

definition ss_in_state :: "State \<Rightarrow> ('a, 'w) TCPSpongeSocket \<Rightarrow> bool" where
  "ss_in_state x s \<longleftrightarrow> (case ss_tcp s of None \<Rightarrow> False | Some c \<Rightarrow> st_equal (tc_state c) (st_of_state x))"

text \<open>The constructor of the thread that runs \<open>_tcp_main\<close> is left to the caller.\<close>

definition ss_connect :: "('a, 'w) AdaptT \<Rightarrow> 'w kernel_calls \<Rightarrow>
    (pollfd list \<Rightarrow> int \<Rightarrow> (('a, 'w) TCPSpongeSocket, u16 list) syscall) \<Rightarrow> u32 \<Rightarrow> TCPConfig \<Rightarrow> FdAdapterConfig \<Rightarrow>
    ('a, 'w) ss_state \<Rightarrow> ((sys_error + unit) \<times> ('a, 'w) ss_state) option" where
  "ss_connect A K sys_poll rnd c_tcp c_ad st =
     (if ss_tcp (snd st) \<noteq> None
      then Some (Inl (RuntimeError ''connect() with TCPConnection already initialized''), st)
      else
        (case ss_initialize_TCP A K rnd c_tcp st of (rules, s) \<Rightarrow>
           (let s = s\<lparr>ss_datagram_adapter := at_set_config A c_ad (ss_datagram_adapter s)\<rparr>
            in case addr_result (ad_to_string (kc_getnameinfo K) (fc_destination c_ad)) of
                 Inl e \<Rightarrow> Some (Inl e, rules, s)
               | Inr _ \<Rightarrow>
                   (case ss_on_tcp (\<lambda>c. Inr (tc_state (tc_connect c), tc_connect c)) s of
                      (Inl e, s) \<Rightarrow> Some (Inl e, rules, s)
                    | (Inr state, s) \<Rightarrow>
                        if \<not> st_equal state (st_of_state SYN_SENT)
                        then Some (Inl (RuntimeError (''After TCPConnection::connect(), state was '' @ st_name state @
                               '' but expected '' @ st_name (st_of_state SYN_SENT))), rules, s)
                        else Option.bind (ss_tcp_loop A K sys_poll (ss_in_state SYN_SENT) (rules, s)) (\<lambda>(r, st).
                          Some (case r of
                                  Inl e \<Rightarrow> (Inl e, st)
                                | Inr _ \<Rightarrow>
                                    (case addr_result (ad_to_string (kc_getnameinfo K) (fc_destination c_ad)) of
                                       Inl e \<Rightarrow> (Inl e, st)
                                     | Inr _ \<Rightarrow> (Inr (), st))))))))"

definition ss_listen_and_accept :: "('a, 'w) AdaptT \<Rightarrow> 'w kernel_calls \<Rightarrow>
    (pollfd list \<Rightarrow> int \<Rightarrow> (('a, 'w) TCPSpongeSocket, u16 list) syscall) \<Rightarrow> u32 \<Rightarrow> TCPConfig \<Rightarrow> FdAdapterConfig \<Rightarrow>
    ('a, 'w) ss_state \<Rightarrow> ((sys_error + unit) \<times> ('a, 'w) ss_state) option" where
  "ss_listen_and_accept A K sys_poll rnd c_tcp c_ad st =
     (if ss_tcp (snd st) \<noteq> None
      then Some (Inl (RuntimeError ''listen_and_accept() with TCPConnection already initialized''), st)
      else
        (case ss_initialize_TCP A K rnd c_tcp st of (rules, s) \<Rightarrow>
           (let s = s\<lparr>ss_datagram_adapter := at_set_listening A True (at_set_config A c_ad (ss_datagram_adapter s))\<rparr>
            in Option.bind (ss_tcp_loop A K sys_poll
                 (\<lambda>s. ss_in_state LISTEN s \<or> ss_in_state SYN_RCVD s \<or> ss_in_state SYN_SENT s) (rules, s)) (\<lambda>(r, rules, s).
               Some (case r of
                       Inl e \<Rightarrow> (Inl e, rules, s)
                     | Inr _ \<Rightarrow>
                         (case ss_peer_string A K s of
                            (Inl e, s) \<Rightarrow> (Inl e, rules, s)
                          | (Inr _, s) \<Rightarrow> (Inr (), rules, s)))))))"

text \<open>\<^verbatim>\<open>_tcp.reset()\<close> runs the destructor of the connection (\<open>tc_destroy\<close>), which can only change the
  connection that is going away with its queue of segments.\<close>

definition ss_main :: "('a, 'w) AdaptT \<Rightarrow> 'w kernel_calls \<Rightarrow>
    (pollfd list \<Rightarrow> int \<Rightarrow> (('a, 'w) TCPSpongeSocket, u16 list) syscall) \<Rightarrow>
    ('a, 'w) ss_state \<Rightarrow> ((sys_error + unit) \<times> ('a, 'w) ss_state) option" where
  "ss_main A K sys_poll st =
     (if ss_tcp (snd st) = None then Some (Inl (RuntimeError ''no TCP''), st)
      else Option.bind (ss_tcp_loop A K sys_poll (\<lambda>_. True) st) (\<lambda>(r, rules, s).
        Some (case r of
                Inl e \<Rightarrow> (Inl e, rules, s)
              | Inr _ \<Rightarrow>
                  (case eseq (ss_on_owner (so_shutdown (kc_shutdown K) SHUT_RDWR)) (ss_tcp_value tc_active) s of
                     (Inl e, s) \<Rightarrow> (Inl e, rules, s)
                   | (Inr _, s) \<Rightarrow> (Inr (), rules, s\<lparr>ss_tcp := None\<rparr>)))))"

text \<open>The owner's side, before it waits for the thread.\<close>

definition ss_wait_until_closed :: "'w kernel_calls \<Rightarrow> ('a, 'w, unit) ss_eff" where
  "ss_wait_until_closed K = ss_on_owner (so_shutdown (kc_shutdown K) SHUT_RDWR)"

definition ss_destroy :: "bool \<Rightarrow> ('a, 'w) TCPSpongeSocket \<Rightarrow> ('a, 'w) TCPSpongeSocket" where
  "ss_destroy joinable s = (if joinable then s\<lparr>ss_abort := True\<rparr> else s)"

section \<open>Ready-made sockets\<close>

text \<open>The configurations with which \<open>CS144TCPSocket\<close> and \<open>FullStackSocket\<close> connect; the random port is an
  argument.\<close>

definition LOCAL_TAP_IP_ADDRESS :: string where "LOCAL_TAP_IP_ADDRESS = ''169.254.10.9''"
definition LOCAL_TAP_NEXT_HOP_ADDRESS :: string where "LOCAL_TAP_NEXT_HOP_ADDRESS = ''169.254.10.1''"

definition multiplexer_config :: "resolver \<Rightarrow> string \<Rightarrow> u16 \<Rightarrow> Address \<Rightarrow> sys_error + FdAdapterConfig" where
  "multiplexer_config getaddrinfo local_ip port address =
     (case fc_default getaddrinfo of
        Inl e \<Rightarrow> Inl e
      | Inr cfg \<Rightarrow>
          (case addr_result (ad_new_service getaddrinfo local_ip (show_dec (unat port))) of
             Inl e \<Rightarrow> Inl e
           | Inr source \<Rightarrow> Inr (cfg\<lparr>fc_source := source, fc_destination := address\<rparr>)))"

definition cs144_config :: "resolver \<Rightarrow> u32 \<Rightarrow> Address \<Rightarrow> sys_error + TCPConfig \<times> FdAdapterConfig" where
  "cs144_config getaddrinfo rnd address =
     (case multiplexer_config getaddrinfo ''169.254.144.9'' (ucast rnd) address of
        Inl e \<Rightarrow> Inl e
      | Inr cfg \<Rightarrow> Inr (cfg_default\<lparr>cfg_rt_timeout := 100\<rparr>, cfg))"

definition full_stack_config :: "resolver \<Rightarrow> u32 \<Rightarrow> Address \<Rightarrow> sys_error + TCPConfig \<times> FdAdapterConfig" where
  "full_stack_config getaddrinfo rnd address =
     (case multiplexer_config getaddrinfo LOCAL_TAP_IP_ADDRESS (ucast rnd) address of
        Inl e \<Rightarrow> Inl e
      | Inr cfg \<Rightarrow> Inr (cfg_default\<lparr>cfg_rt_timeout := 100\<rparr>, cfg))"

text \<open>Six random numbers, with the two lowest bits of the first byte set to \<open>10\<close>.\<close>

definition private_ethernet_address :: "u32 list \<Rightarrow> EthernetAddress" where
  "private_ethernet_address random =
     (let addr = map ucast random in addr[0 := (addr ! 0 OR 0x02) AND 0xfe])"

section \<open>Every callback serves its descriptor\<close>

abbreviation adapter_reads :: "('a, 'w) AdaptT \<Rightarrow> nat \<Rightarrow> ('a, 'w) TCPSpongeSocket \<Rightarrow> bool" where
  "adapter_reads A n s \<equiv> fd_read_count (at_fd A (ss_datagram_adapter s)) = n"

lemma ss_keeps:
  "(\<And>s x. P (s\<lparr>ss_tcp := x\<rparr>) = P s) \<Longrightarrow> ekeeps P (ss_on_tcp op)"
  "(\<And>s x. P (s\<lparr>ss_tcp := x\<rparr>) = P s) \<Longrightarrow> ekeeps P (ss_tcp_arrow f)"
  "ekeeps P (ss_tcp_value f)" "ekeeps P (ss_peer_string A K)"
  "(\<And>s. P s \<Longrightarrow> P (u s)) \<Longrightarrow> ekeeps P (emodify u)"
  by (auto simp: ekeeps_def ss_on_tcp_def ss_tcp_arrow_def ss_tcp_value_def ss_peer_string_def ebind_def eff
      split: option.splits sum.splits prod.splits)

lemma ss_on_thread_data_ensures:
  assumes "eensures (\<lambda>(f, w). P f) m (\<lambda>(f, w). Q f)"
  shows "eensures (\<lambda>s. P (ss_thread_data s)) (ss_on_thread_data m) (\<lambda>s. Q (ss_thread_data s))"
  unfolding ss_on_thread_data_def by (rule eensures_ezoom[OF assms]) auto

lemma fd_write_once_counts:
  "eensures (\<lambda>(f, w). fd_write_count f = n) (fd_write_string sys_writev str False) (\<lambda>(f, w). fd_write_count f = add32 n 1)"
proof -
  have "fd_write_count f' = add32 (fd_write_count f) 1"
    if "fd_write_step sys_writev buffer (f, w) = (Inr r, (f', w'))" for buffer f w r f' w'
    using that
    by (auto simp: fd_write_step_def fd_call_def ebind_def eseq_def fd_update_def eff register_write_def
        split: prod.splits sum.splits if_splits option.splits)
  then show ?thesis
    unfolding eensures_def fd_write_string_def fd_write_def
    by (subst fd_write_loop.simps) (auto simp: Let_def split: prod.splits sum.splits)
qed

lemma ss_receive_serves:
  assumes "fd_adapter (at_read A) (at_write A) (at_fd A)"
  shows "eensures (adapter_reads A n) (ss_receive A K) (adapter_reads A (add32 n 1))"
proof -
  have "eensures (\<lambda>(a, w). fd_read_count (at_fd A a) = n) (at_read A) (\<lambda>(a, w). fd_read_count (at_fd A a) = add32 n 1)"
    using fd_adapter.read_counts[OF assms] by (auto simp: eensures_def)
  then have rd: "eensures (adapter_reads A n) (ss_on_adapter (at_read A)) (adapter_reads A (add32 n 1))"
    unfolding ss_on_adapter_def by (rule eensures_ezoom) auto
  have k: "ekeeps (adapter_reads A m) (case seg of None \<Rightarrow> ereturn ()
      | Some seg \<Rightarrow> ss_on_tcp (\<lambda>c. case tc_segment_received seg c of Inl e \<Rightarrow> Inl e | Inr c' \<Rightarrow> Inr ((), c')))" for seg m
    by (cases seg) (auto intro: ss_keeps ekeeps_simple)
  show ?thesis
    unfolding ss_receive_def
    by (intro eensures_ebind[OF rd] ekeeps_eseq k ekeeps_ebind ekeeps_simple)
      (simp add: ekeeps_simple, intro impI ekeeps_ebind ekeeps_simple ekeeps_ewhen ekeeps_eseq ss_keeps; simp)
qed

abbreviation thread_count :: "(FDWrapper \<Rightarrow> nat) \<Rightarrow> nat \<Rightarrow> ('a, 'w) TCPSpongeSocket \<Rightarrow> bool" where
  "thread_count count n s \<equiv> count (ss_thread_data s) = n"

lemma ss_end_output_keeps: "ekeeps (thread_count count n) ss_end_output"
  unfolding ss_end_output_def by (intro ekeeps_eseq ss_keeps) simp_all

lemma ss_copy_out_serves:
  "eensures (thread_count fd_read_count n) (ss_copy_out A K) (thread_count fd_read_count (add32 n 1))"
proof -
  have rd: "eensures (thread_count fd_read_count n) (ss_on_thread_data (fd_read (kc_read K) capacity))
      (thread_count fd_read_count (add32 n 1))" for capacity
    by (rule ss_on_thread_data_ensures) (auto simp: eensures_def fd_read_counts)
  show ?thesis
    unfolding ss_copy_out_def
    by (intro eensures_before ss_keeps eensures_ebind[OF rd] ekeeps_ebind)
      (simp_all add: ekeeps_simple, intro impI ekeeps_ebind ekeeps_simple ekeeps_ewhen ekeeps_eseq ss_keeps ss_end_output_keeps)
qed

lemma shutdown_write_counts:
  "eensures (\<lambda>(f, w). fd_write_count f = n) (so_shutdown sys_shutdown SHUT_WR) (\<lambda>(f, w). fd_write_count f = add32 n 1)"
  by (auto simp: eensures_def so_shutdown_def fd_call_def eseq_def ebind_def fd_update_def eff register_write_def
      split: prod.splits sum.splits)

lemma add32_twice_neq: "add32 (add32 n 1) 1 \<noteq> n"
proof
  assume n: "add32 (add32 n 1) 1 = n"
  then have "n < two32" using add32_less[of "add32 n 1" 1] by simp
  then show False using n by (cases "n < 4294967294"; cases "n = 4294967294"; cases "n = 4294967295") (auto simp: add32_def)
qed

lemma ss_copy_in_serves:
  "eensures (thread_count fd_write_count n) (ss_copy_in A K) (\<lambda>s. fd_write_count (ss_thread_data s) \<noteq> n)"
proof -
  let ?P = "thread_count fd_write_count n" and ?Q = "thread_count fd_write_count (add32 n 1)"
  let ?R = "\<lambda>s. fd_write_count (ss_thread_data s) \<noteq> n"
  have wr: "eensures ?P (ss_on_thread_data (fd_write_string (kc_writev K) buffer False)) ?Q" for buffer
    by (rule ss_on_thread_data_ensures) (rule fd_write_once_counts)
  have "eensures ?Q (ss_on_thread_data (so_shutdown (kc_shutdown K) SHUT_WR)) (thread_count fd_write_count (add32 (add32 n 1) 1))"
    by (rule ss_on_thread_data_ensures) (rule shutdown_write_counts)
  then have sh: "eensures ?Q (ss_on_thread_data (so_shutdown (kc_shutdown K) SHUT_WR)) ?R"
    by (rule eensures_weaken) (use add32_twice_neq[of n] in simp)
  have "eensures ?Q (ereturn ()) ?R" using add32_neq[of n] by (simp add: eensures_def eff)
  moreover have "eensures ?Q (eseq (ss_on_thread_data (so_shutdown (kc_shutdown K) SHUT_WR))
      (eseq (emodify (\<lambda>s. s\<lparr>ss_inbound_shutdown := True\<rparr>)) (eseq (ss_peer_string A K) (eseq (ss_tcp_value tc_state) (ereturn ()))))) ?R"
    by (intro eensures_eseq(1)[OF sh] ekeeps_eseq ss_keeps ekeeps_simple) simp
  ultimately have rest: "eensures ?Q (ewhen b (eseq (ss_on_thread_data (so_shutdown (kc_shutdown K) SHUT_WR))
      (eseq (emodify (\<lambda>s. s\<lparr>ss_inbound_shutdown := True\<rparr>)) (eseq (ss_peer_string A K) (eseq (ss_tcp_value tc_state) (ereturn ())))))) ?R" for b
    by (cases b) (simp_all add: ewhen_def)
  have after: "eensures ?Q (eseq (ss_on_tcp op) (ebind (ss_tcp_arrow tc_inbound_stream) (\<lambda>inbound.
      ewhen (bs_eof inbound \<or> bs_error inbound) (eseq (ss_on_thread_data (so_shutdown (kc_shutdown K) SHUT_WR))
      (eseq (emodify (\<lambda>s. s\<lparr>ss_inbound_shutdown := True\<rparr>)) (eseq (ss_peer_string A K) (eseq (ss_tcp_value tc_state) (ereturn ())))))))) ?R" for op
    by (intro eensures_eseq(2) eensures_before ss_keeps rest) simp_all
  show ?thesis
    unfolding ss_copy_in_def Let_def
    by (rule eensures_before; (rule ss_keeps; simp)?) (rule eensures_then[OF wr after])
qed

lemma ss_on_adapter_tcp: "ss_on_adapter m s = (r, s') \<Longrightarrow> ss_tcp s' = ss_tcp s"
  by (auto simp: ss_on_adapter_def eff split: prod.splits)

lemma ss_send_loop_done:
  "ss_send_loop A queue s = (Inr (), s') \<Longrightarrow> ss_tcp s = Some c \<Longrightarrow> tc_segments_out c = queue \<Longrightarrow>
   \<exists>c'. ss_tcp s' = Some c' \<and> tc_segments_out c' = []"
proof (induction queue arbitrary: s c)
  case (Cons front queue)
  obtain s1 where s1: "ss_on_adapter (at_write A front) s = (Inr (), s1)"
    using Cons.prems(1) by (auto split: prod.splits sum.splits)
  have "ss_tcp s1 = Some c" using ss_on_adapter_tcp[OF s1] Cons.prems(2) by simp
  then have "ss_on_tcp (\<lambda>c. Inr ((), c\<lparr>tc_segments_out := queue\<rparr>)) s1 = (Inr (), s1\<lparr>ss_tcp := Some (c\<lparr>tc_segments_out := queue\<rparr>)\<rparr>)"
    by (simp add: ss_on_tcp_def)
  then show ?case
    using Cons.IH[of "s1\<lparr>ss_tcp := Some (c\<lparr>tc_segments_out := queue\<rparr>)\<rparr>" "c\<lparr>tc_segments_out := queue\<rparr>"] Cons.prems(1) s1 by simp
qed simp

lemma ss_send_done:
  assumes "ss_send A s = (Inr (), s')"
  shows "\<not> ss_send_interest s'"
proof -
  obtain queue t where q: "ss_tcp_arrow tc_segments_out s = (Inr queue, t)" "ss_send_loop A queue t = (Inr (), s')"
    by (rule ebind_InrD[OF assms[unfolded ss_send_def]])
  obtain c where c: "ss_tcp s = Some c" "queue = tc_segments_out c" "t = s"
    using q(1) by (auto simp: ss_tcp_arrow_def ss_on_tcp_def split: option.splits)
  then show ?thesis using ss_send_loop_done[OF q(2)] by (auto simp: ss_send_interest_def)
qed

text \<open>The socket over any adapter that keeps the contract.\<close>

locale sponge_socket = fd_adapter "at_read A" "at_write A" "at_fd A" for A :: "('a, 'w) AdaptT"
begin

lemma rule_serves:
  assumes "r \<in> set (ss_rules A K)" "rl_callback r s = (Inr (), s')"
  shows "rl_service_count (ss_fds A) r s \<noteq> rl_service_count (ss_fds A) r s' \<or> \<not> rl_interest r s'"
proof -
  have neq: "n \<noteq> add32 n 1" for n using add32_neq[of n] by simp
  consider "r = \<lparr>rl_fd = DatagramAdapter, rl_direction = In, rl_callback = ss_receive A K, rl_interest = ss_receive_interest, rl_cancel = ereturn ()\<rparr>"
    | "r = \<lparr>rl_fd = ThreadData, rl_direction = In, rl_callback = ss_copy_out A K, rl_interest = ss_copy_out_interest, rl_cancel = ss_end_output\<rparr>"
    | "r = \<lparr>rl_fd = ThreadData, rl_direction = Out, rl_callback = ss_copy_in A K, rl_interest = ss_copy_in_interest, rl_cancel = ereturn ()\<rparr>"
    | "r = \<lparr>rl_fd = DatagramAdapter, rl_direction = Out, rl_callback = ss_send A, rl_interest = ss_send_interest, rl_cancel = ereturn ()\<rparr>"
    using assms(1) unfolding ss_rules_def el_add_rule_def by auto
  then show ?thesis
  proof cases
    case 1
    then have "adapter_reads A (add32 (fd_read_count (at_fd A (ss_datagram_adapter s))) 1) s'"
      using ss_receive_serves[OF fd_adapter_axioms, unfolded eensures_def] assms(2) by auto
    then show ?thesis using 1 neq by (simp add: rl_service_count_def)
  next
    case 2
    then have "thread_count fd_read_count (add32 (fd_read_count (ss_thread_data s)) 1) s'"
      using ss_copy_out_serves[unfolded eensures_def, rule_format, OF refl, of A K s "()" s'] assms(2) by simp
    then show ?thesis using 2 neq by (simp add: rl_service_count_def)
  next
    case 3
    then show ?thesis
      using ss_copy_in_serves[unfolded eensures_def, rule_format, OF refl, of A K s "()" s'] assms(2)
      by (simp add: rl_service_count_def)
  next
    case 4
    then show ?thesis using ss_send_done[of A s s'] assms(2) by simp
  qed
qed

lemma serve_errors:
  assumes "r \<in> set (ss_rules A K)" "el_serve (ss_fds A) r p s = (Inl e, s')"
  shows "e = error_on_polled \<or> rl_cancel r s = (Inl e, s') \<or> rl_callback r s = (Inl e, s')"
  using assms(2) rule_serves[OF assms(1), of s]
  by (auto simp: el_serve_def Let_def split: if_splits prod.splits sum.splits)

end

interpretation udp_socket: sponge_socket "udp_ops getnameinfo sys_recvfrom sys_sendmsg"
  by (simp add: sponge_socket_def udp_ops_def udp_adapter.fd_adapter_axioms)

interpretation tun_socket: sponge_socket "tun_ops getaddrinfo getnameinfo sys_read sys_writev"
  by (simp add: sponge_socket_def tun_ops_def tun_adapter.fd_adapter_axioms)

interpretation ethernet_socket: sponge_socket "ethernet_ops getaddrinfo getnameinfo sys_read sys_writev"
  by (simp add: sponge_socket_def ethernet_ops_def ethernet_adapter.fd_adapter_axioms)

interpretation lossy_udp_socket: sponge_socket "lossy_ops rand (udp_ops getnameinfo sys_recvfrom sys_sendmsg)"
  for rand :: "'g \<Rightarrow> u32 \<times> 'g" and getnameinfo sys_recvfrom sys_sendmsg
  by (simp add: sponge_socket_def lossy_ops_def udp_ops_def lossy_udp.lossy.fd_adapter_axioms)

interpretation lossy_tun_socket: sponge_socket "lossy_ops rand (tun_ops getaddrinfo getnameinfo sys_read sys_writev)"
  for rand :: "'g \<Rightarrow> u32 \<times> 'g" and getaddrinfo getnameinfo sys_read sys_writev
  by (simp add: sponge_socket_def lossy_ops_def tun_ops_def lossy_tun.lossy.fd_adapter_axioms)

section \<open>Bytes between the owner and the connection\<close>

text \<open>What \<^verbatim>\<open>read(2)\<close> documents: the return value is the number of bytes stored, at most as many as asked for.\<close>

definition read_honest :: "(int \<Rightarrow> nat \<Rightarrow> ('w, bytes) syscall) \<Rightarrow> bool" where
  "read_honest sys_read \<longleftrightarrow>
     (\<forall>fd n w. case sys_read fd n w of ((r, errno), data, w') \<Rightarrow> 0 \<le> r \<longrightarrow> r = int (length data) \<and> length data \<le> n)"

lemma fd_read_result:
  assumes "read_honest sys_read"
  shows "(\<exists>data f' w'. fd_read sys_read limit (f, w) = (Inr data, f', w') \<and> length data \<le> limit \<and> length data \<le> READ_BUFFER_SIZE)
    \<or> (\<exists>e f' w'. fd_read sys_read limit (f, w) = (Inl e, f', w') \<and> e \<noteq> short_write)"
proof -
  let ?n = "min READ_BUFFER_SIZE limit"
  obtain r errno data w' where c: "sys_read (fd_num f) ?n w = ((r, errno), data, w')" by (metis prod_cases4 surj_pair)
  show ?thesis
  proof (cases "0 \<le> r")
    case True
    then have d: "r = int (length data)" "length data \<le> ?n"
      using assms c unfolding read_honest_def by (metis (mono_tags, lifting) case_prod_conv)+
    then show ?thesis using fd_read_eq[of sys_read f limit w data errno w'] c by simp
  next
    case False
    show ?thesis
    proof (cases "as_int r \<ge> 0 \<or> errno = 0")
      case True
      then show ?thesis
        using c by (auto simp: fd_read_def fd_read_into_def fd_call_def SystemCall_def Let_def ebind_def eseq_def ewhen_def
            fd_update_def eff resize_def)
    next
      case False
      then show ?thesis
        using c by (simp add: fd_read_def fd_read_into_def fd_call_def SystemCall_def Let_def ebind_def)
    qed
  qed
qed

lemma tc_write_fits:
  assumes "bs_ok (tc_stream_in c)" "bs_bytes_written (tc_stream_in c) + length data < two64"
    and "length data \<le> tc_remaining_outbound_capacity c"
  shows "\<exists>c'. tc_write data c = (c', length data)"
proof -
  let ?b = "tc_stream_in c"
  have "tc_remaining_outbound_capacity c = bs_capacity ?b - length (bs_buffer ?b)"
    using assms(1) by (simp add: tc_remaining_outbound_capacity_def bs_remaining_capacity_eq)
  then have "snd (bs_write ?b data) = length data"
    using assms by (simp add: bs_write_eq Let_def)
  then show ?thesis by (auto simp: tc_write_def split: prod.splits)
qed

lemma peer_string_error: "eavoids short_write (ss_peer_string A K)"
  by (auto simp: eavoids_def ss_peer_string_def ebind_def eff addr_result_def addr_exn_def split: sum.splits addr_error.splits)

lemma copy_out_tail_error:
  "fst (ewhen eof (eseq ss_end_output (eseq (ss_peer_string A K) (eseq (ss_tcp_value tc_bytes_in_flight) (ereturn ())))) s)
     \<noteq> Inl short_write"
proof -
  have "eavoids short_write (ss_tcp_value f)" "eavoids short_write (ss_on_tcp op)" for f op
    by (auto simp: eavoids_def ss_tcp_value_def ss_on_tcp_def conn_exn_def split: option.splits sum.splits conn_error.splits)
  then have "eavoids short_write (ewhen eof (eseq ss_end_output (eseq (ss_peer_string A K) (eseq (ss_tcp_value tc_bytes_in_flight) (ereturn ())))))"
    unfolding ss_end_output_def by (intro eavoids_intros peer_string_error)
  then show ?thesis by (simp add: eavoids_def)
qed

lemma ss_copy_out_run:
  assumes "ss_tcp s = Some c"
    and "fd_read (kc_read K) (tc_remaining_outbound_capacity c) (ss_thread_data s, ss_kernel s) = (Inr data, f, w)"
    and "tc_write data c = (c', length data)"
  shows "ss_copy_out A K s =
    ewhen (fd_eof f) (eseq ss_end_output (eseq (ss_peer_string A K) (eseq (ss_tcp_value tc_bytes_in_flight) (ereturn ()))))
      (s\<lparr>ss_thread_data := f, ss_kernel := w, ss_tcp := Some c'\<rparr>)"
  using assms
  by (simp add: ss_copy_out_def ebind_def ss_tcp_arrow_def ss_on_tcp_def ss_on_thread_data_def eff)

lemma ss_copy_out_no_short_write:
  assumes "read_honest (kc_read K)" "ss_tcp s = Some c"
    and "bs_ok (tc_stream_in c)" "bs_bytes_written (tc_stream_in c) + READ_BUFFER_SIZE < two64"
  shows "fst (ss_copy_out A K s) \<noteq> Inl short_write"
proof -
  let ?m = "fd_read (kc_read K) (tc_remaining_outbound_capacity c) (ss_thread_data s, ss_kernel s)"
  consider (ok) data f w where "?m = (Inr data, f, w)" "length data \<le> tc_remaining_outbound_capacity c" "length data \<le> READ_BUFFER_SIZE"
    | (fail) e f w where "?m = (Inl e, f, w)" "e \<noteq> short_write"
    using fd_read_result[OF assms(1)] by blast
  then show ?thesis
  proof cases
    case ok
    obtain c' where "tc_write data c = (c', length data)"
      using tc_write_fits[OF assms(3) _ ok(2)] assms(4) ok(3) by auto
    then show ?thesis
      using ss_copy_out_run[OF assms(2) ok(1)] copy_out_tail_error by metis
  next
    case fail
    then show ?thesis
      using assms(2) by (simp add: ss_copy_out_def ebind_def ss_tcp_arrow_def ss_on_tcp_def ss_on_thread_data_def eff)
  qed
qed

text \<open>One call of \<open>write\<close> without \<open>write_all\<close>.\<close>

lemma fd_write_part:
  assumes "writev_progress written sys_writev (fd_num f)" "length str < 9223372036854775808"
  obtains n w' where "fd_write_string sys_writev str False (f, w) = (Inr n, register_write f, w')" "n \<le> length str"
    "str \<noteq> [] \<longrightarrow> 0 < n" "written w' = written w @ take n str"
proof -
  have len: "length (concat [str]) < 9223372036854775808" using assms(2) by simp
  obtain buffer' n w' where st: "fd_write_step sys_writev [str] (f, w) = (Inr (buffer', n), register_write f, w')"
      "n \<le> length str" "str \<noteq> [] \<longrightarrow> 0 < n" "written w' = written w @ take n str"
    by (rule fd_write_step_progress[OF assms(1) len]) (rule that, assumption, simp_all)
  have "fd_write_string sys_writev str False (f, w) = (Inr n, register_write f, w')"
    using st(1,2) assms(2) unfolding fd_write_string_def fd_write_def bvl_of_string_def
    by (subst fd_write_loop.simps) (simp add: no_wrap)
  then show ?thesis using that st(2-4) by blast
qed

lemma tc_set_inbound_stream [simp]: "tc_inbound_stream (tc_set_inbound b c) = b"
  by (simp add: tc_inbound_stream_def tc_set_inbound_def tr_stream_out_def)

lemma ss_copy_in_delivers:
  assumes "writev_progress written (kc_writev K) (fd_num (ss_thread_data s))" "ss_tcp s = Some c"
    and "bs_ok (tc_inbound_stream c)" "\<not> bs_input_ended (tc_inbound_stream c)" "\<not> bs_error (tc_inbound_stream c)"
  shows "\<exists>n s' c'. ss_copy_in A K s = (Inr (), s') \<and> ss_tcp s' = Some c' \<and>
    n \<le> 65536 \<and> n \<le> length (bs_buffer (tc_inbound_stream c)) \<and>
    (bs_buffer (tc_inbound_stream c) \<noteq> [] \<longrightarrow> 0 < n) \<and>
    written (ss_kernel s') = written (ss_kernel s) @ take n (bs_buffer (tc_inbound_stream c)) \<and>
    bs_buffer (tc_inbound_stream c') = drop n (bs_buffer (tc_inbound_stream c))"
proof -
  let ?b = "tc_inbound_stream c" and ?str = "take (min 65536 (length (bs_buffer (tc_inbound_stream c)))) (bs_buffer (tc_inbound_stream c))"
  have str: "bs_peek_output ?b (min 65536 (bs_buffer_size ?b)) = ?str"
    by (simp add: bs_peek_output_eq bs_buffer_size_def)
  obtain n w' where w: "fd_write_string (kc_writev K) ?str False (ss_thread_data s, ss_kernel s) =
      (Inr n, register_write (ss_thread_data s), w')" "n \<le> length ?str" "?str \<noteq> [] \<longrightarrow> 0 < n"
      "written w' = written (ss_kernel s) @ take n ?str"
    by (rule fd_write_part[OF assms(1), of ?str "ss_kernel s"]) (simp, blast)
  let ?c = "tc_set_inbound (bs_pop_output ?b n) c"
  let ?s = "s\<lparr>ss_thread_data := register_write (ss_thread_data s), ss_kernel := w', ss_tcp := Some ?c\<rparr>"
  have pop: "bs_buffer (bs_pop_output ?b n) = drop n (bs_buffer ?b)" "\<not> bs_eof (bs_pop_output ?b n)" "\<not> bs_error (bs_pop_output ?b n)"
    using assms(3-5) by (simp_all add: bs_pop_output_eq bs_eof_def)
  have "ss_copy_in A K s = (Inr (), ?s)"
    using assms(2) w(1) pop(2,3)
    by (simp add: ss_copy_in_def ebind_def eseq_def ss_tcp_arrow_def ss_on_tcp_def ss_on_thread_data_def eff Let_def str ewhen_def)
  moreover have "n \<le> min 65536 (length (bs_buffer ?b))" using w(2) by simp
  then have "take n ?str = take n (bs_buffer ?b)" by (simp add: min_absorb1)
  ultimately show ?thesis
    using w(2-4) pop(1) by (intro exI[of _ n] exI[of _ ?s] exI[of _ ?c]) auto
qed

section \<open>The end of the thread\<close>

lemma tc_destroy_reset:
  assumes "tc_active c"
  shows "\<exists>segs rst. tc_segments_out (tc_destroy c) = tc_segments_out c @ segs @ [rst] \<and> th_rst (ts_header rst)"
  using assms
  by (simp add: tc_destroy_def tc_send_rst_empty_segment_def sn_send_empty_flags_def sn_set_error_def ts_default_def
      th_default_def Let_def)

lemma ss_main_aborted:
  assumes "ss_tcp s = Some c" "kc_clock K (ss_kernel s) = (t, w)"
    and "wait_next_event (ss_fds A) sys_poll TCP_TICK_MS (rules, s\<lparr>ss_kernel := w\<rparr>) = (Inr r, rules', s1)"
    and "ss_abort s1" "ss_tcp s1 = Some c1"
    and "kc_shutdown K (fd_num (ss_owner s1)) SHUT_RDWR (ss_kernel s1) = ((0, errno), (), w1)"
  shows "\<exists>s2. ss_main A K sys_poll (rules, s) = Some (Inr (), rules', s2) \<and> ss_tcp s2 = None \<and>
    ss_datagram_adapter s2 = ss_datagram_adapter s1 \<and> ss_kernel s2 = w1"
proof -
  have loop: "ss_tcp_loop A K sys_poll (\<lambda>_. True) (rules, s) = Some (Inr (), rules', s1)"
    using assms(2-4) by (simp add: ss_tcp_loop_def ss_clock_def) (subst ss_tcp_rounds.simps, simp)
  have "so_shutdown (kc_shutdown K) SHUT_RDWR (ss_owner s1, ss_kernel s1) =
      (Inr (), register_write (register_read (ss_owner s1)), w1)"
    using assms(6) by (simp add: so_shutdown_def eseq_def ebind_def fd_call_def SystemCall_def as_int_id fd_update_def eff)
  then have "eseq (ss_on_owner (so_shutdown (kc_shutdown K) SHUT_RDWR)) (ss_tcp_value tc_active) s1 =
      (Inr (tc_active c1), s1\<lparr>ss_owner := register_write (register_read (ss_owner s1)), ss_kernel := w1\<rparr>)"
    using assms(5) by (simp add: eseq_def ebind_def ss_on_owner_def eff ss_tcp_value_def)
  then show ?thesis using assms(1) loop by (simp add: ss_main_def)
qed

section \<open>An example\<close>

definition example_kernel :: "bytes kernel_calls" where
  "example_kernel = \<lparr>kc_getnameinfo = example_names,
     kc_read = (\<lambda>fd n w. ((int (length (take n [104, 105 :: byte])), 0), take n [104, 105], w)),
     kc_writev = two_at_a_time, kc_shutdown = (\<lambda>fd how w. ((0, 0), (), w)), kc_clock = (\<lambda>w. (7, w))\<rparr>"

definition example_adapter :: "(TCPOverUDPSocketAdapter, bytes) AdaptT" where
  "example_adapter = udp_ops example_names (\<lambda>fd n w. ((-1, 11), ([], [], 0), w)) (\<lambda>fd a iov w. ((-1, 11), (), w))"

definition example_socket :: "TCPConnection \<Rightarrow> (TCPOverUDPSocketAdapter, bytes) TCPSpongeSocket" where
  "example_socket c = \<lparr>ss_owner = example_fd, ss_thread_data = example_fd,
     ss_datagram_adapter = \<lparr>ua_base = fa_pair (ad_ipv4 1 2) (ad_ipv4 3 4) False
         \<lparr>fc_source = ad_ipv4 0 0, fc_destination = ad_ipv4 0 0, fc_loss_rate_dn = 0, fc_loss_rate_up = 0\<rparr>, ua_sock = example_fd\<rparr>,
     ss_tcp = Some c, ss_abort = True, ss_inbound_shutdown = False, ss_outbound_shutdown = False, ss_fully_acked = False,
     ss_kernel = []\<rparr>"

lemma two_at_a_time_progress: "writev_progress (\<lambda>w. w) two_at_a_time fd"
  unfolding writev_progress_def two_at_a_time_def Let_def
  by (intro allI, rule exI[of _ "min 2 (length (concat (map fst _)))"]) (auto simp: min_def)

lemma example_read_honest: "read_honest (kc_read example_kernel)"
  by (simp add: read_honest_def example_kernel_def)

section \<open>Properties\<close>

text \<open>C37: A callback of the socket over UDP that returns has served its descriptor or has lost interest:
  the event loop never takes it for a busy wait. The same holds over TUN and Ethernet devices and
  with random loss.\<close>

theorem socket_never_busy_waits:
  assumes "r \<in> set (ss_rules (udp_ops getnameinfo sys_recvfrom sys_sendmsg) K)"
    and "pf_revents p AND (POLLERR OR POLLNVAL) = 0" "pf_revents p AND pf_events p \<noteq> 0"
    and "rl_callback r s = (Inr (), s')"
  shows "el_serve (ss_fds (udp_ops getnameinfo sys_recvfrom sys_sendmsg)) r p s = (Inr True, s')"
  using udp_socket.rule_serves[OF assms(1,4)] assms(2-4) by (auto simp: el_serve_def Let_def)

theorem socket_never_busy_waits_witness:
  "\<exists>r\<in>set (ss_rules example_adapter example_kernel).
     el_serve (ss_fds example_adapter) r \<lparr>pf_fd = 5, pf_events = POLLOUT, pf_revents = POLLOUT\<rparr>
       (example_socket (tc_new 1 cfg_default)) = (Inr True, example_socket (tc_new 1 cfg_default))"
proof -
  let ?s = "example_socket (tc_new 1 cfg_default)"
  let ?r = "\<lparr>rl_fd = DatagramAdapter, rl_direction = Out, rl_callback = ss_send example_adapter,
      rl_interest = ss_send_interest, rl_cancel = ereturn ()\<rparr>"
  have in_rules: "?r \<in> set (ss_rules example_adapter example_kernel)" by (simp add: ss_rules_def el_add_rule_def)
  have "ss_send example_adapter ?s = (Inr (), ?s)"
    by (simp add: ss_send_def ss_tcp_arrow_def ss_on_tcp_def ebind_def example_socket_def tc_new_def)
  then have "el_serve (ss_fds example_adapter) ?r \<lparr>pf_fd = 5, pf_events = POLLOUT, pf_revents = POLLOUT\<rparr> ?s = (Inr True, ?s)"
    using in_rules unfolding example_adapter_def by (intro socket_never_busy_waits) simp_all
  then show ?thesis using in_rules by blast
qed

text \<open>C36: The bytes that the socket reads from its owner always fit into the outbound stream: the exception
  for a short write is never thrown.\<close>

theorem owner_bytes_fit:
  assumes "read_honest (kc_read K)" "ss_tcp s = Some c"
    and "bs_ok (tc_stream_in c)" "bs_bytes_written (tc_stream_in c) + 1048576 < two64"
  shows "fst (ss_copy_out A K s) \<noteq> Inl short_write"
  using assms by (rule ss_copy_out_no_short_write)

theorem owner_bytes_fit_witness:
  "fst (ss_copy_out example_adapter example_kernel (example_socket (tc_new 1 cfg_default))) \<noteq> Inl short_write"
  by (rule owner_bytes_fit[OF example_read_honest, where c = "tc_new 1 cfg_default"])
    (simp_all add: example_socket_def tc_new_def tc_stream_in_def sn_new_def bs_new_def bs_ok_def cfg_default_def)

text \<open>C35: While the peer's stream is open, the callback that serves the owner writes the next bytes of the
  stream to the owner's socket and removes exactly these from the stream, also when the kernel
  takes only a part of them.\<close>

theorem owner_receives_stream:
  assumes "writev_progress written (kc_writev K) (fd_num (ss_thread_data s))" "ss_tcp s = Some c"
    and "bs_ok (tc_inbound_stream c)" "\<not> bs_input_ended (tc_inbound_stream c)" "\<not> bs_error (tc_inbound_stream c)"
  shows "\<exists>n s' c'. ss_copy_in A K s = (Inr (), s') \<and> ss_tcp s' = Some c' \<and>
    n \<le> 65536 \<and> n \<le> length (bs_buffer (tc_inbound_stream c)) \<and>
    (bs_buffer (tc_inbound_stream c) \<noteq> [] \<longrightarrow> 0 < n) \<and>
    written (ss_kernel s') = written (ss_kernel s) @ take n (bs_buffer (tc_inbound_stream c)) \<and>
    bs_buffer (tc_inbound_stream c') = drop n (bs_buffer (tc_inbound_stream c))"
  using assms by (rule ss_copy_in_delivers)

theorem owner_receives_stream_witness:
  "let c = tc_set_inbound ((bs_new 10)\<lparr>bs_buffer := [1, 2, 3], bs_bytes_written := 3\<rparr>) (tc_new 1 cfg_default)
   in \<exists>n s' c'. ss_copy_in example_adapter example_kernel (example_socket c) = (Inr (), s') \<and> ss_tcp s' = Some c' \<and> 0 < n \<and>
     ss_kernel s' = take n [1, 2, 3] \<and> bs_buffer (tc_inbound_stream c') = drop n [1, 2, 3]"
proof -
  let ?c = "tc_set_inbound ((bs_new 10)\<lparr>bs_buffer := [1, 2, 3], bs_bytes_written := 3\<rparr>) (tc_new 1 cfg_default)"
  have k: "writev_progress (\<lambda>w. w) (kc_writev example_kernel) (fd_num (ss_thread_data (example_socket ?c)))"
    by (simp add: example_kernel_def two_at_a_time_progress)
  have b: "bs_buffer (tc_inbound_stream ?c) = [1, 2, 3]" "ss_kernel (example_socket ?c) = []" "ss_tcp (example_socket ?c) = Some ?c"
    by (simp_all add: example_socket_def)
  have "bs_ok (tc_inbound_stream ?c)" "\<not> bs_input_ended (tc_inbound_stream ?c)" "\<not> bs_error (tc_inbound_stream ?c)"
    by (simp_all add: bs_ok_def bs_new_def)
  from owner_receives_stream[OF k b(3) this, of example_adapter] show ?thesis
    unfolding b Let_def by auto
qed



end
