(* ===== verification/Stream_Copy.thy ===== *)
theory Stream_Copy
  imports Socket Event_Loop Byte_Stream
begin

text \<open>
  Copying between a socket and the standard streams (\<^verbatim>\<open>apps/bidirectional_stream_copy.cc\<close>): the state of
  the function, its four rules, and the loop. The local variables of the function are the record
  \<open>stream_copy\<close>; the socket is the caller's. The theorem shows that the two byte streams between
  the descriptors lose, repeat and reorder nothing, wherever the loop stands or ends.
\<close>

section \<open>Model\<close>

record 'w copy_calls =
  cc_read :: "int \<Rightarrow> nat \<Rightarrow> ('w, bytes) syscall"
  cc_writev :: "int \<Rightarrow> (bytes \<times> nat) list \<Rightarrow> ('w, unit) syscall"
  cc_shutdown :: "int \<Rightarrow> int \<Rightarrow> ('w, unit) syscall"
  cc_close :: "int \<Rightarrow> ('w, unit) syscall"
  cc_getfl :: "int \<Rightarrow> ('w, unit) syscall"
  cc_setfl :: "int \<Rightarrow> int \<Rightarrow> ('w, unit) syscall"
  cc_poll :: "pollfd list \<Rightarrow> int \<Rightarrow> ('w, u16 list) syscall"

record 'w stream_copy =
  sc_socket :: FDWrapper
  sc_input :: FDWrapper
  sc_output :: FDWrapper
  sc_outbound :: ByteStream
  sc_inbound :: ByteStream
  sc_outbound_shutdown :: bool
  sc_inbound_shutdown :: bool
  sc_kernel :: 'w

datatype sc_handle = CopySocket | CopyInput | CopyOutput

fun sc_fds :: "(sc_handle, 'w stream_copy) fd_store" where
  "sc_fds s CopySocket = sc_socket s"
| "sc_fds s CopyInput = sc_input s"
| "sc_fds s CopyOutput = sc_output s"

type_synonym ('w, 'a) sc_eff = "('w stream_copy, sys_error, 'a) eff"

fun sc_on :: "sc_handle \<Rightarrow> ('w, 'a) fd_eff \<Rightarrow> ('w, 'a) sc_eff" where
  "sc_on CopySocket = ezoom (\<lambda>s. (sc_socket s, sc_kernel s)) (\<lambda>(f, w) s. s\<lparr>sc_socket := f, sc_kernel := w\<rparr>)"
| "sc_on CopyInput = ezoom (\<lambda>s. (sc_input s, sc_kernel s)) (\<lambda>(f, w) s. s\<lparr>sc_input := f, sc_kernel := w\<rparr>)"
| "sc_on CopyOutput = ezoom (\<lambda>s. (sc_output s, sc_kernel s)) (\<lambda>(f, w) s. s\<lparr>sc_output := f, sc_kernel := w\<rparr>)"

abbreviation max_copy_length :: nat where "max_copy_length \<equiv> 65536"
abbreviation copy_buffer_size :: nat where "copy_buffer_size \<equiv> 1048576"
abbreviation STDIN_FILENO :: int where "STDIN_FILENO \<equiv> 0"
abbreviation STDOUT_FILENO :: int where "STDOUT_FILENO \<equiv> 1"

text \<open>Rule 1, from standard input into the outbound stream.\<close>

definition sc_end_outbound :: "('w, unit) sc_eff" where
  "sc_end_outbound = emodify (\<lambda>s. s\<lparr>sc_outbound := bs_end_input (sc_outbound s)\<rparr>)"

definition sc_read_input :: "'w copy_calls \<Rightarrow> ('w, unit) sc_eff" where
  "sc_read_input K =
     ebind (eget (\<lambda>s. bs_remaining_capacity (sc_outbound s))) (\<lambda>capacity.
     ebind (sc_on CopyInput (fd_read (cc_read K) capacity)) (\<lambda>data.
     eseq (emodify (\<lambda>s. s\<lparr>sc_outbound := fst (bs_write (sc_outbound s) data)\<rparr>))
     (ebind (eget (\<lambda>s. fd_eof (sc_input s))) (\<lambda>eof. ewhen eof sc_end_outbound))))"

definition sc_read_input_interest :: "'w stream_copy \<Rightarrow> bool" where
  "sc_read_input_interest s \<longleftrightarrow>
     \<not> bs_error (sc_outbound s) \<and> bs_remaining_capacity (sc_outbound s) > 0 \<and> \<not> bs_error (sc_inbound s)"

text \<open>Rule 2, from the outbound stream into the socket.\<close>

definition sc_write_socket :: "'w copy_calls \<Rightarrow> ('w, unit) sc_eff" where
  "sc_write_socket K =
     ebind (eget sc_outbound) (\<lambda>outbound.
       let bytes_to_write = min max_copy_length (bs_buffer_size outbound)
       in ebind (sc_on CopySocket (fd_write_string (cc_writev K) (bs_peek_output outbound bytes_to_write) False))
            (\<lambda>bytes_written.
          eseq (emodify (\<lambda>s. s\<lparr>sc_outbound := bs_pop_output (sc_outbound s) bytes_written\<rparr>))
          (ebind (eget sc_outbound) (\<lambda>outbound.
             ewhen (bs_eof outbound)
               (eseq (sc_on CopySocket (so_shutdown (cc_shutdown K) SHUT_WR))
                  (emodify (\<lambda>s. s\<lparr>sc_outbound_shutdown := True\<rparr>)))))))"

definition sc_write_socket_interest :: "'w stream_copy \<Rightarrow> bool" where
  "sc_write_socket_interest s \<longleftrightarrow>
     \<not> bs_buffer_empty (sc_outbound s) \<or> bs_eof (sc_outbound s) \<and> \<not> sc_outbound_shutdown s"

text \<open>Rule 3, from the socket into the inbound stream.\<close>

definition sc_end_inbound :: "('w, unit) sc_eff" where
  "sc_end_inbound = emodify (\<lambda>s. s\<lparr>sc_inbound := bs_end_input (sc_inbound s)\<rparr>)"

definition sc_read_socket :: "'w copy_calls \<Rightarrow> ('w, unit) sc_eff" where
  "sc_read_socket K =
     ebind (eget (\<lambda>s. bs_remaining_capacity (sc_inbound s))) (\<lambda>capacity.
     ebind (sc_on CopySocket (fd_read (cc_read K) capacity)) (\<lambda>data.
     eseq (emodify (\<lambda>s. s\<lparr>sc_inbound := fst (bs_write (sc_inbound s) data)\<rparr>))
     (ebind (eget (\<lambda>s. fd_eof (sc_socket s))) (\<lambda>eof. ewhen eof sc_end_inbound))))"

definition sc_read_socket_interest :: "'w stream_copy \<Rightarrow> bool" where
  "sc_read_socket_interest s \<longleftrightarrow>
     \<not> bs_error (sc_inbound s) \<and> bs_remaining_capacity (sc_inbound s) > 0 \<and> \<not> bs_error (sc_outbound s)"

text \<open>Rule 4, from the inbound stream into standard output.\<close>

definition sc_write_output :: "'w copy_calls \<Rightarrow> ('w, unit) sc_eff" where
  "sc_write_output K =
     ebind (eget sc_inbound) (\<lambda>inbound.
       let bytes_to_write = min max_copy_length (bs_buffer_size inbound)
       in ebind (sc_on CopyOutput (fd_write_string (cc_writev K) (bs_peek_output inbound bytes_to_write) False))
            (\<lambda>bytes_written.
          eseq (emodify (\<lambda>s. s\<lparr>sc_inbound := bs_pop_output (sc_inbound s) bytes_written\<rparr>))
          (ebind (eget sc_inbound) (\<lambda>inbound.
             ewhen (bs_eof inbound)
               (eseq (sc_on CopyOutput (fd_close (cc_close K)))
                  (emodify (\<lambda>s. s\<lparr>sc_inbound_shutdown := True\<rparr>)))))))"

definition sc_write_output_interest :: "'w stream_copy \<Rightarrow> bool" where
  "sc_write_output_interest s \<longleftrightarrow>
     \<not> bs_buffer_empty (sc_inbound s) \<or> bs_eof (sc_inbound s) \<and> \<not> sc_inbound_shutdown s"

definition sc_rules :: "'w copy_calls \<Rightarrow> (sc_handle, 'w stream_copy) Rule list" where
  "sc_rules K =
     el_add_rule CopyOutput Out (sc_write_output K) sc_write_output_interest sc_end_inbound
       (el_add_rule CopySocket In (sc_read_socket K) sc_read_socket_interest sc_end_inbound
          (el_add_rule CopySocket Out (sc_write_socket K) sc_write_socket_interest sc_end_outbound
             (el_add_rule CopyInput In (sc_read_input K) sc_read_input_interest sc_end_outbound [])))"

text \<open>The three descriptors are made non-blocking before the rules are added.\<close>

definition sc_init :: "FDWrapper \<Rightarrow> 'w \<Rightarrow> sys_error + 'w stream_copy" where
  "sc_init socket w =
     (case fd_wrapper STDIN_FILENO of
        Inl e \<Rightarrow> Inl e
      | Inr input \<Rightarrow>
     (case fd_wrapper STDOUT_FILENO of
        Inl e \<Rightarrow> Inl e
      | Inr output \<Rightarrow>
          Inr \<lparr>sc_socket = socket, sc_input = input, sc_output = output, sc_outbound = bs_new copy_buffer_size,
            sc_inbound = bs_new copy_buffer_size, sc_outbound_shutdown = False, sc_inbound_shutdown = False,
            sc_kernel = w\<rparr>))"

definition sc_nonblocking :: "'w copy_calls \<Rightarrow> ('w, unit) sc_eff" where
  "sc_nonblocking K =
     eseq (sc_on CopySocket (fd_set_blocking (cc_getfl K) (cc_setfl K) False))
       (eseq (sc_on CopyInput (fd_set_blocking (cc_getfl K) (cc_setfl K) False))
          (sc_on CopyOutput (fd_set_blocking (cc_getfl K) (cc_setfl K) False)))"

definition sc_poll :: "'w copy_calls \<Rightarrow> pollfd list \<Rightarrow> int \<Rightarrow> ('w stream_copy, u16 list) syscall" where
  "sc_poll K pollfds timeout_ms s =
     (case cc_poll K pollfds timeout_ms (sc_kernel s) of (r, revents, w) \<Rightarrow> (r, revents, s\<lparr>sc_kernel := w\<rparr>))"

partial_function (option) sc_loop :: "'w copy_calls \<Rightarrow> (sc_handle, 'w stream_copy) Rule list \<times> 'w stream_copy \<Rightarrow>
    ((sys_error + unit) \<times> 'w stream_copy) option" where
  "sc_loop K st =
     (case wait_next_event sc_fds (sc_poll K) (-1) st of
        (Inl e, rules, s) \<Rightarrow> Some (Inl e, s)
      | (Inr Exit, rules, s) \<Rightarrow> Some (Inr (), s)
      | (Inr _, st') \<Rightarrow> sc_loop K st')"

definition bidirectional_stream_copy :: "'w copy_calls \<Rightarrow> FDWrapper \<Rightarrow> 'w \<Rightarrow>
    (sys_error + (sys_error + unit) \<times> 'w stream_copy) option" where
  "bidirectional_stream_copy K socket w =
     (case sc_init socket w of
        Inl e \<Rightarrow> Some (Inl e)
      | Inr s \<Rightarrow>
          (case sc_nonblocking K s of
             (Inl e, s') \<Rightarrow> Some (Inr (Inl e, s'))
           | (Inr _, s') \<Rightarrow> map_option Inr (sc_loop K (sc_rules K, s'))))"

section \<open>Where the loop can stand\<close>

inductive sc_at :: "'w copy_calls \<Rightarrow> FDWrapper \<Rightarrow> 'w \<Rightarrow> (sc_handle, 'w stream_copy) Rule list \<times> 'w stream_copy \<Rightarrow> bool"
  for K socket w where
  start: "sc_init socket w = Inr s \<Longrightarrow> sc_nonblocking K s = (r, s') \<Longrightarrow> sc_at K socket w (sc_rules K, s')"
| round: "sc_at K socket w st \<Longrightarrow> wait_next_event sc_fds (sc_poll K) (-1) st = (r, st') \<Longrightarrow> sc_at K socket w st'"

lemma sc_loop_at_raw: "sc_loop K st = Some res \<Longrightarrow> sc_at K socket w st \<longrightarrow> (\<exists>rules. sc_at K socket w (rules, snd res))"
proof (induction rule: sc_loop.raw_induct[rotated 1, consumes 1])
  case (1 loop K st res)
  obtain r rules s where e: "wait_next_event sc_fds (sc_poll K) (-1) st = (r, rules, s)" by (metis prod_cases3)
  show ?case
  proof
    assume "sc_at K socket w st"
    then have n: "sc_at K socket w (rules, s)" using e by (rule sc_at.round)
    show "\<exists>rules. sc_at K socket w (rules, snd res)"
    proof (cases "\<exists>x. r = Inr x \<and> x \<noteq> Exit")
      case True
      then obtain x where "r = Inr x" "x \<noteq> Exit" by blast
      then have "loop K (rules, s) = Some res" using 1(2) e by (cases x) simp_all
      then show ?thesis using 1(1)[of K "(rules, s)" res] n by simp
    next
      case False
      then have "snd res = s" using 1(2) e by (cases r) auto
      then show ?thesis using n by blast
    qed
  qed
qed

lemma bidirectional_stream_copy_at:
  assumes "bidirectional_stream_copy K socket w = Some (Inr (r, s))"
  shows "\<exists>rules. sc_at K socket w (rules, s)"
proof -
  obtain s0 where 0: "sc_init socket w = Inr s0" using assms by (auto simp: bidirectional_stream_copy_def split: sum.splits)
  obtain r1 s1 where 1: "sc_nonblocking K s0 = (r1, s1)" by fastforce
  have at: "sc_at K socket w (sc_rules K, s1)" using 0 1 by (rule sc_at.start)
  show ?thesis
  proof (cases r1)
    case (Inl e)
    then show ?thesis using assms 0 1 at by (auto simp: bidirectional_stream_copy_def)
  next
    case (Inr u)
    then have "sc_loop K (sc_rules K, s1) = Some (r, s)" using assms 0 1 by (simp add: bidirectional_stream_copy_def)
    then show ?thesis using sc_loop_at_raw[of K _ "(r, s)" socket w] at by simp
  qed
qed

section \<open>The kernel\<close>

text \<open>What the calls document: \<open>taken\<close> is what has been read from each descriptor and \<open>put\<close> what has been
  written to it. A call that fails returns \<open>-1\<close> and moves no bytes.\<close>

definition stream_read :: "('w \<Rightarrow> int \<Rightarrow> bytes) \<Rightarrow> ('w \<Rightarrow> int \<Rightarrow> bytes) \<Rightarrow> (int \<Rightarrow> nat \<Rightarrow> ('w, bytes) syscall) \<Rightarrow> bool" where
  "stream_read taken put sys_read \<longleftrightarrow>
     (\<forall>fd n w r errno data w'. sys_read fd n w = ((r, errno), data, w') \<longrightarrow>
        put w' = put w \<and>
        (r = -1 \<and> taken w' = taken w \<or>
         r = int (length data) \<and> length data \<le> n \<and> taken w' = (taken w)(fd := taken w fd @ data)))"

definition stream_writev :: "('w \<Rightarrow> int \<Rightarrow> bytes) \<Rightarrow> ('w \<Rightarrow> int \<Rightarrow> bytes) \<Rightarrow> (int \<Rightarrow> (bytes \<times> nat) list \<Rightarrow> ('w, unit) syscall) \<Rightarrow> bool" where
  "stream_writev taken put sys_writev \<longleftrightarrow>
     (\<forall>fd iov w r errno w'. sys_writev fd iov w = ((r, errno), (), w') \<longrightarrow>
        taken w' = taken w \<and>
        (r = -1 \<and> put w' = put w \<or>
         (\<exists>n. r = int n \<and> n \<le> length (concat (map fst iov)) \<and> n < 2147483648 \<and>
            put w' = (put w)(fd := put w fd @ take n (concat (map fst iov))))))"

definition moves_nothing :: "('w \<Rightarrow> int \<Rightarrow> bytes) \<Rightarrow> ('w \<Rightarrow> int \<Rightarrow> bytes) \<Rightarrow> ('w, 'a) syscall \<Rightarrow> bool" where
  "moves_nothing taken put call \<longleftrightarrow> (\<forall>w r a w'. call w = (r, a, w') \<longrightarrow> taken w' = taken w \<and> put w' = put w)"

definition stream_kernel :: "('w \<Rightarrow> int \<Rightarrow> bytes) \<Rightarrow> ('w \<Rightarrow> int \<Rightarrow> bytes) \<Rightarrow> 'w copy_calls \<Rightarrow> bool" where
  "stream_kernel taken put K \<longleftrightarrow>
     stream_read taken put (cc_read K) \<and> stream_writev taken put (cc_writev K) \<and>
     (\<forall>fd. moves_nothing taken put (cc_close K fd) \<and> moves_nothing taken put (cc_getfl K fd) \<and>
        (\<forall>x. moves_nothing taken put (cc_shutdown K fd x) \<and> moves_nothing taken put (cc_setfl K fd x))) \<and>
     (\<forall>pollfds t. moves_nothing taken put (cc_poll K pollfds t))"

lemma stream_kernelD:
  assumes "stream_kernel taken put K"
  shows "stream_read taken put (cc_read K)" "stream_writev taken put (cc_writev K)"
    "moves_nothing taken put (cc_close K fd)" "moves_nothing taken put (cc_getfl K fd)"
    "moves_nothing taken put (cc_shutdown K fd x)" "moves_nothing taken put (cc_setfl K fd x)"
    "moves_nothing taken put (cc_poll K pollfds t)"
  using assms by (simp_all add: stream_kernel_def)

lemma fd_read_stream:
  assumes "stream_read taken put sys_read" "fd_read sys_read limit (f, w) = (res, f', w')"
  shows "put w' = put w \<and> fd_num f' = fd_num f \<and>
    (case res of
       Inl e \<Rightarrow> taken w' = taken w
     | Inr data \<Rightarrow> length data \<le> limit \<and> taken w' = (taken w)(fd_num f := taken w (fd_num f) @ data))"
proof -
  let ?n = "min READ_BUFFER_SIZE limit"
  obtain r errno data w1 where c: "sys_read (fd_num f) ?n w = ((r, errno), data, w1)" by (metis prod_cases4 surj_pair)
  have num: "fd_num f' = fd_num f"
  proof (rule fd_keepsD[OF fd_keeps_read assms(2)])
  qed (simp_all add: register_read_def)
  consider (fail) "r = -1" "taken w1 = taken w"
    | (ok) "r = int (length data)" "length data \<le> ?n" "taken w1 = (taken w)(fd_num f := taken w (fd_num f) @ data)"
    using assms(1) c unfolding stream_read_def by blast
  then show ?thesis
  proof cases
    case fail
    then have "(\<exists>e. res = Inl e) \<and> w' = w1"
      using assms(2) c
      by (cases "errno = 0") (auto simp: fd_read_def fd_read_into_def fd_call_def SystemCall_def as_int_id Let_def ebind_def eseq_def
          fd_update_def eff)
    then show ?thesis using fail num assms(1) c unfolding stream_read_def by auto
  next
    case ok
    then have "res = Inr data \<and> w' = w1"
      using fd_read_eq[of sys_read f limit w data errno w1] c assms(2) by simp
    then show ?thesis using ok num assms(1) c unfolding stream_read_def by auto
  qed
qed

lemma fd_write_stream:
  assumes "stream_writev taken put sys_writev" "fd_write_string sys_writev str False (f, w) = (res, f', w')"
    and "length str < 9223372036854775808"
  shows "taken w' = taken w \<and> fd_num f' = fd_num f \<and>
    (case res of
       Inl e \<Rightarrow> put w' = put w
     | Inr n \<Rightarrow> n \<le> length str \<and> put w' = (put w)(fd_num f := put w (fd_num f) @ take n str))"
proof -
  obtain r errno w1 where c: "sys_writev (fd_num f) (bvl_as_iovecs [str]) w = ((r, errno), (), w1)"
    by (metis prod_cases3 unit.exhaust surj_pair)
  have bytes: "concat (map fst (bvl_as_iovecs [str])) = str" by (simp add: iovecs_bytes)
  have size: "bvl_size [str] = length str" using assms(3) by (simp add: bvl_size_eq)
  have loop: "fd_write_string sys_writev str False (f, w) =
      (case fd_write_step sys_writev [str] (f, w) of (Inl e, s') \<Rightarrow> (Inl e, s') | (Inr (b, n), s') \<Rightarrow> (Inr (add64 0 n), s'))"
    unfolding fd_write_string_def fd_write_def bvl_of_string_def by (subst fd_write_loop.simps) (simp add: Let_def split: prod.split sum.split)
  consider (fail) "r = -1" "put w1 = put w" | (ok) n where "r = int n" "n \<le> length str" "n < 2147483648"
      "put w1 = (put w)(fd_num f := put w (fd_num f) @ take n str)"
    using assms(1) c unfolding stream_writev_def by (metis bytes)
  moreover have taken: "taken w1 = taken w" using assms(1) c unfolding stream_writev_def by metis
  ultimately show ?thesis
  proof cases
    case fail
    have "bvl_remove_prefix [str] (as_size (-1)) = None"
      using bvl_remove_prefix_concat[of "[str]" "as_size (-1)"] assms(3)
      by (auto simp: as_size_def mask_eq_exp_minus_1 split: option.splits)
    then have "(\<exists>e. res = Inl e) \<and> fd_num f' = fd_num f \<and> w' = w1"
      using assms(2) c fail(1) loop
      by (cases "errno = 0") (auto simp: fd_write_step_def fd_call_def SystemCall_def as_int_id ebind_def eseq_def fd_update_def eff
          as_ssize_id[OF assms(3)] size register_write_def)
    then show ?thesis using fail taken by auto
  next
    case ok
    obtain buffer' where b: "bvl_remove_prefix [str] n = Some buffer'"
      using bvl_remove_prefix_concat[of "[str]" n] ok(2) by (auto split: option.splits)
    have "as_size (int n) = n" using ok(3) by (simp add: as_size_int)
    then have "fd_num f' = fd_num f \<and> w' = w1 \<and> (res = Inr n \<or> n = 0 \<and> (\<exists>e. res = Inl e))"
      using assms(2) c ok loop b
      by (auto simp: fd_write_step_def fd_call_def SystemCall_def as_int_id ebind_def eseq_def fd_update_def eff
          as_ssize_id[OF assms(3)] size register_write_def no_wrap split: if_splits)
    then show ?thesis using ok taken by auto
  qed
qed

text \<open>The other calls on a descriptor.\<close>

definition fd_quiet :: "('w \<Rightarrow> int \<Rightarrow> bytes) \<Rightarrow> ('w \<Rightarrow> int \<Rightarrow> bytes) \<Rightarrow> ('w, 'a) fd_eff \<Rightarrow> bool" where
  "fd_quiet taken put m \<longleftrightarrow> (\<forall>T P n. ekeeps (\<lambda>(f, w). taken w = T \<and> put w = P \<and> fd_num f = n) m)"

lemma fd_quietD:
  assumes "fd_quiet taken put m" "m (f, w) = (r, f', w')"
  shows "taken w' = taken w" "put w' = put w" "fd_num f' = fd_num f"
  using assms unfolding fd_quiet_def ekeeps_def
  by (metis (mono_tags, lifting) case_prod_conv snd_conv)+

lemma fd_quiet_call:
  assumes "\<And>fd. moves_nothing taken put (call fd)"
  shows "fd_quiet taken put (fd_call attempt call)"
  unfolding fd_quiet_def ekeeps_def
proof (intro allI impI)
  fix T P n s assume s: "case s of (f :: FDWrapper, w) \<Rightarrow> taken w = T \<and> put w = P \<and> fd_num f = n"
  obtain f w where fw: "s = (f, w)" by fastforce
  obtain r a w' where c: "call (fd_num f) w = (r, a, w')" by (metis prod_cases3)
  have "taken w' = taken w" "put w' = put w" using assms[of "fd_num f"] c unfolding moves_nothing_def by blast+
  then show "case snd (fd_call attempt call s) of (f, w) \<Rightarrow> taken w = T \<and> put w = P \<and> fd_num f = n"
    using s fw c by (auto simp: fd_call_def split: sum.split)
qed

lemma fd_quiet_intros:
  "fd_quiet taken put (ereturn a)" "fd_quiet taken put (ethrow e)"
  "fd_quiet taken put m \<Longrightarrow> (\<And>a. fd_quiet taken put (g a)) \<Longrightarrow> fd_quiet taken put (ebind m g)"
  "fd_quiet taken put m \<Longrightarrow> fd_quiet taken put n \<Longrightarrow> fd_quiet taken put (eseq m n)"
  unfolding fd_quiet_def by blast+

lemma fd_quiet_update: "(\<And>f. fd_num (u f) = fd_num f) \<Longrightarrow> fd_quiet taken put (fd_update u)"
  by (auto simp: fd_quiet_def ekeeps_def fd_update_def eff)

lemma fd_quiet_operations:
  assumes "stream_kernel taken put K"
  shows "fd_quiet taken put (so_shutdown (cc_shutdown K) how)"
    "fd_quiet taken put (fd_close (cc_close K))"
    "fd_quiet taken put (fd_set_blocking (cc_getfl K) (cc_setfl K) b)"
  unfolding so_shutdown_def fd_close_def fd_set_blocking_def Let_def
  by (auto intro!: fd_quiet_intros fd_quiet_update fd_quiet_call stream_kernelD[OF assms]
      simp: register_read_def register_write_def split: prod.split)

section \<open>Conservation\<close>

text \<open>What has been read is what has been written followed by what is buffered, in each direction.\<close>

definition sc_conserved :: "('w \<Rightarrow> int \<Rightarrow> bytes) \<Rightarrow> ('w \<Rightarrow> int \<Rightarrow> bytes) \<Rightarrow> int \<Rightarrow> 'w stream_copy \<Rightarrow> bool" where
  "sc_conserved taken put num s \<longleftrightarrow>
     fd_num (sc_socket s) = num \<and> fd_num (sc_input s) = STDIN_FILENO \<and> fd_num (sc_output s) = STDOUT_FILENO \<and>
     bs_capacity (sc_outbound s) = copy_buffer_size \<and> length (bs_buffer (sc_outbound s)) \<le> copy_buffer_size \<and>
     bs_capacity (sc_inbound s) = copy_buffer_size \<and> length (bs_buffer (sc_inbound s)) \<le> copy_buffer_size \<and>
     taken (sc_kernel s) STDIN_FILENO = put (sc_kernel s) num @ bs_buffer (sc_outbound s) \<and>
     taken (sc_kernel s) num = put (sc_kernel s) STDOUT_FILENO @ bs_buffer (sc_inbound s)"

text \<open>The buffer does not depend on the counters of the stream.\<close>

lemma bs_buffer_operations:
  "length data < two64 \<Longrightarrow> bs_buffer (fst (bs_write b data)) = bs_buffer b @ take (bs_capacity b - length (bs_buffer b)) data"
  "bs_capacity (fst (bs_write b data)) = bs_capacity b"
  "bs_buffer (bs_pop_output b n) = drop n (bs_buffer b)" "bs_capacity (bs_pop_output b n) = bs_capacity b"
  "bs_buffer (bs_end_input b) = bs_buffer b" "bs_capacity (bs_end_input b) = bs_capacity b"
  by (simp_all add: bs_write_def bs_write_loop_eq bs_pop_output_def bs_pop_loop_eq bs_end_input_def min_def split: prod.split)

lemma sc_quiet_keeps:
  assumes "fd_quiet taken put m"
  shows "ekeeps (sc_conserved taken put num) (sc_on h m)"
  unfolding ekeeps_def
proof (intro allI impI)
  fix s assume "sc_conserved taken put num s"
  then show "sc_conserved taken put num (snd (sc_on h m s))"
    using fd_quietD[OF assms] by (cases h) (auto simp: sc_conserved_def eff split: prod.split)
qed

lemma sc_end_keeps:
  "ekeeps (sc_conserved taken put num) sc_end_outbound" "ekeeps (sc_conserved taken put num) sc_end_inbound"
  by (simp_all add: ekeeps_def sc_end_outbound_def sc_end_inbound_def eff sc_conserved_def bs_buffer_operations)

lemma sc_flag_keeps:
  "ekeeps (sc_conserved taken put num) (emodify (\<lambda>s. s\<lparr>sc_outbound_shutdown := True\<rparr>))"
  "ekeeps (sc_conserved taken put num) (emodify (\<lambda>s. s\<lparr>sc_inbound_shutdown := True\<rparr>))"
  by (simp_all add: ekeeps_def eff sc_conserved_def)

lemma remaining_capacity_room:
  "length (bs_buffer b) \<le> bs_capacity b \<Longrightarrow> bs_capacity b = copy_buffer_size \<Longrightarrow>
   bs_remaining_capacity b = copy_buffer_size - length (bs_buffer b)"
  by (simp add: bs_remaining_capacity_def no_wrap)

lemma sc_read_input_keeps:
  assumes "stream_kernel taken put K" "num \<notin> {STDIN_FILENO, STDOUT_FILENO}"
  shows "ekeeps (sc_conserved taken put num) (sc_read_input K)"
  unfolding ekeeps_def
proof (intro allI impI)
  fix s assume c: "sc_conserved taken put num s"
  let ?n = "bs_remaining_capacity (sc_outbound s)"
  have n: "?n = copy_buffer_size - length (bs_buffer (sc_outbound s))"
    using c by (simp add: sc_conserved_def remaining_capacity_room)
  obtain res f w where r: "fd_read (cc_read K) ?n (sc_input s, sc_kernel s) = (res, f, w)" by (metis prod_cases3)
  note st = fd_read_stream[OF stream_kernelD(1)[OF assms(1)] r]
  show "sc_conserved taken put num (snd (sc_read_input K s))"
  proof (cases res)
    case (Inl e)
    then show ?thesis using c r st by (auto simp: sc_read_input_def ebind_def eff sc_conserved_def)
  next
    case (Inr data)
    let ?s = "s\<lparr>sc_input := f, sc_kernel := w, sc_outbound := fst (bs_write (sc_outbound s) data)\<rparr>"
    have "sc_conserved taken put num ?s"
      using c st Inr n assms(2) by (auto simp: sc_conserved_def bs_buffer_operations)
    moreover have "snd (sc_read_input K s) = snd (ewhen (fd_eof f) sc_end_outbound ?s)"
      using r Inr by (simp add: sc_read_input_def ebind_def eseq_def eff)
    ultimately show ?thesis using ekeeps_ewhen[OF sc_end_keeps(1)] unfolding ekeeps_def by metis
  qed
qed

lemma sc_read_socket_keeps:
  assumes "stream_kernel taken put K" "num \<notin> {STDIN_FILENO, STDOUT_FILENO}"
  shows "ekeeps (sc_conserved taken put num) (sc_read_socket K)"
  unfolding ekeeps_def
proof (intro allI impI)
  fix s assume c: "sc_conserved taken put num s"
  let ?n = "bs_remaining_capacity (sc_inbound s)"
  have n: "?n = copy_buffer_size - length (bs_buffer (sc_inbound s))"
    using c by (simp add: sc_conserved_def remaining_capacity_room)
  obtain res f w where r: "fd_read (cc_read K) ?n (sc_socket s, sc_kernel s) = (res, f, w)" by (metis prod_cases3)
  note st = fd_read_stream[OF stream_kernelD(1)[OF assms(1)] r]
  show "sc_conserved taken put num (snd (sc_read_socket K s))"
  proof (cases res)
    case (Inl e)
    then show ?thesis using c r st by (auto simp: sc_read_socket_def ebind_def eff sc_conserved_def)
  next
    case (Inr data)
    let ?s = "s\<lparr>sc_socket := f, sc_kernel := w, sc_inbound := fst (bs_write (sc_inbound s) data)\<rparr>"
    have "sc_conserved taken put num ?s"
      using c st Inr n assms(2) by (auto simp: sc_conserved_def bs_buffer_operations)
    moreover have "snd (sc_read_socket K s) = snd (ewhen (fd_eof f) sc_end_inbound ?s)"
      using r Inr by (simp add: sc_read_socket_def ebind_def eseq_def eff)
    ultimately show ?thesis using ekeeps_ewhen[OF sc_end_keeps(2)] unfolding ekeeps_def by metis
  qed
qed

lemma sc_write_socket_keeps:
  assumes "stream_kernel taken put K" "num \<notin> {STDIN_FILENO, STDOUT_FILENO}"
  shows "ekeeps (sc_conserved taken put num) (sc_write_socket K)"
  unfolding ekeeps_def
proof (intro allI impI)
  fix s assume c: "sc_conserved taken put num s"
  let ?str = "bs_peek_output (sc_outbound s) (min max_copy_length (bs_buffer_size (sc_outbound s)))"
  have str: "?str = take max_copy_length (bs_buffer (sc_outbound s))" by (simp add: bs_peek_output_eq bs_buffer_size_def min_def)
  obtain res f w where r: "fd_write_string (cc_writev K) ?str False (sc_socket s, sc_kernel s) = (res, f, w)" by (metis prod_cases3)
  have st: "taken w = taken (sc_kernel s) \<and> fd_num f = fd_num (sc_socket s) \<and>
    (case res of
       Inl e \<Rightarrow> put w = put (sc_kernel s)
     | Inr n \<Rightarrow> n \<le> length ?str \<and>
         put w = (put (sc_kernel s))(fd_num (sc_socket s) := put (sc_kernel s) (fd_num (sc_socket s)) @ take n ?str))"
    by (rule fd_write_stream[OF stream_kernelD(2)[OF assms(1)] r]) (simp add: str)
  show "sc_conserved taken put num (snd (sc_write_socket K s))"
  proof (cases res)
    case (Inl e)
    then show ?thesis using c r st by (auto simp: sc_write_socket_def ebind_def eff Let_def sc_conserved_def)
  next
    case (Inr n)
    let ?s = "s\<lparr>sc_socket := f, sc_kernel := w, sc_outbound := bs_pop_output (sc_outbound s) n\<rparr>"
    have "n \<le> max_copy_length" using st Inr str by simp
    then have "take n ?str = take n (bs_buffer (sc_outbound s))" using str by (simp add: min_absorb1)
    then have "sc_conserved taken put num ?s"
      using c st Inr assms(2) by (auto simp: sc_conserved_def bs_buffer_operations)
    moreover have "ekeeps (sc_conserved taken put num)
        (ewhen b (eseq (sc_on CopySocket (so_shutdown (cc_shutdown K) SHUT_WR)) (emodify (\<lambda>s. s\<lparr>sc_outbound_shutdown := True\<rparr>))))" for b
      by (intro ekeeps_ewhen ekeeps_eseq sc_quiet_keeps fd_quiet_operations(1) assms(1) sc_flag_keeps)
    moreover have "snd (sc_write_socket K s) = snd (ewhen (bs_eof (bs_pop_output (sc_outbound s) n))
        (eseq (sc_on CopySocket (so_shutdown (cc_shutdown K) SHUT_WR)) (emodify (\<lambda>s. s\<lparr>sc_outbound_shutdown := True\<rparr>))) ?s)"
      using r Inr by (simp add: sc_write_socket_def ebind_def eseq_def eff Let_def)
    ultimately show ?thesis unfolding ekeeps_def by metis
  qed
qed

lemma sc_write_output_keeps:
  assumes "stream_kernel taken put K" "num \<notin> {STDIN_FILENO, STDOUT_FILENO}"
  shows "ekeeps (sc_conserved taken put num) (sc_write_output K)"
  unfolding ekeeps_def
proof (intro allI impI)
  fix s assume c: "sc_conserved taken put num s"
  let ?str = "bs_peek_output (sc_inbound s) (min max_copy_length (bs_buffer_size (sc_inbound s)))"
  have str: "?str = take max_copy_length (bs_buffer (sc_inbound s))" by (simp add: bs_peek_output_eq bs_buffer_size_def min_def)
  obtain res f w where r: "fd_write_string (cc_writev K) ?str False (sc_output s, sc_kernel s) = (res, f, w)" by (metis prod_cases3)
  have st: "taken w = taken (sc_kernel s) \<and> fd_num f = fd_num (sc_output s) \<and>
    (case res of
       Inl e \<Rightarrow> put w = put (sc_kernel s)
     | Inr n \<Rightarrow> n \<le> length ?str \<and>
         put w = (put (sc_kernel s))(fd_num (sc_output s) := put (sc_kernel s) (fd_num (sc_output s)) @ take n ?str))"
    by (rule fd_write_stream[OF stream_kernelD(2)[OF assms(1)] r]) (simp add: str)
  show "sc_conserved taken put num (snd (sc_write_output K s))"
  proof (cases res)
    case (Inl e)
    then show ?thesis using c r st by (auto simp: sc_write_output_def ebind_def eff Let_def sc_conserved_def)
  next
    case (Inr n)
    let ?s = "s\<lparr>sc_output := f, sc_kernel := w, sc_inbound := bs_pop_output (sc_inbound s) n\<rparr>"
    have "n \<le> max_copy_length" using st Inr str by simp
    then have "take n ?str = take n (bs_buffer (sc_inbound s))" using str by (simp add: min_absorb1)
    then have "sc_conserved taken put num ?s"
      using c st Inr assms(2) by (auto simp: sc_conserved_def bs_buffer_operations)
    moreover have "ekeeps (sc_conserved taken put num)
        (ewhen b (eseq (sc_on CopyOutput (fd_close (cc_close K))) (emodify (\<lambda>s. s\<lparr>sc_inbound_shutdown := True\<rparr>))))" for b
      by (intro ekeeps_ewhen ekeeps_eseq sc_quiet_keeps fd_quiet_operations(2) assms(1) sc_flag_keeps)
    moreover have "snd (sc_write_output K s) = snd (ewhen (bs_eof (bs_pop_output (sc_inbound s) n))
        (eseq (sc_on CopyOutput (fd_close (cc_close K))) (emodify (\<lambda>s. s\<lparr>sc_inbound_shutdown := True\<rparr>))) ?s)"
      using r Inr by (simp add: sc_write_output_def ebind_def eseq_def eff Let_def)
    ultimately show ?thesis unfolding ekeeps_def by metis
  qed
qed

lemma sc_rules_keep:
  assumes "stream_kernel taken put K" "num \<notin> {STDIN_FILENO, STDOUT_FILENO}"
  shows "\<forall>r\<in>set (sc_rules K). rule_keeps (sc_conserved taken put num) r"
  using sc_read_input_keeps[OF assms] sc_write_socket_keeps[OF assms] sc_read_socket_keeps[OF assms]
    sc_write_output_keeps[OF assms]
  by (simp add: sc_rules_def el_add_rule_def sc_end_keeps)

lemma sc_at_conserved:
  assumes "sc_at K socket w st" "stream_kernel taken put K" "fd_num socket \<notin> {STDIN_FILENO, STDOUT_FILENO}"
    and "taken w STDIN_FILENO = []" "taken w (fd_num socket) = []" "put w STDOUT_FILENO = []" "put w (fd_num socket) = []"
  shows "sc_conserved taken put (fd_num socket) (snd st) \<and> set (fst st) \<subseteq> set (sc_rules K)"
  using assms(1)
proof induction
  case (start s r s')
  have s: "sc_conserved taken put (fd_num socket) s"
    using start(1) assms(4-7) by (auto simp: sc_init_def fd_wrapper_def sc_conserved_def bs_new_def)
  have "ekeeps (sc_conserved taken put (fd_num socket)) (sc_nonblocking K)"
    unfolding sc_nonblocking_def by (intro ekeeps_eseq sc_quiet_keeps fd_quiet_operations assms(2))
  from ekeepsD[OF this s start(2)] show ?case by simp
next
  case (round st r st')
  obtain rules s rules' s' where st: "st = (rules, s)" "st' = (rules', s')" by fastforce
  let ?P = "sc_conserved taken put (fd_num socket)"
  have "?P s' \<and> set rules' \<subseteq> set rules"
  proof (rule wait_next_event_keeps[OF round(2)[unfolded st]])
    show "\<forall>r\<in>set rules. rule_keeps ?P r" using sc_rules_keep[OF assms(2,3)] round(3) st by auto
    fix pollfds s r revents s' assume p: "?P s" "sc_poll K pollfds (-1) s = (r, revents, s')"
    obtain w' where w: "cc_poll K pollfds (-1) (sc_kernel s) = (r, revents, w')" "s' = s\<lparr>sc_kernel := w'\<rparr>"
      using p(2) by (auto simp: sc_poll_def split: prod.splits)
    have "taken w' = taken (sc_kernel s)" "put w' = put (sc_kernel s)"
      using stream_kernelD(7)[OF assms(2)] w(1) unfolding moves_nothing_def by blast+
    then show "?P s'" using p(1) w(2) by (simp add: sc_conserved_def)
  qed (use round(3) st in simp)
  then show ?case using round(3) st by auto
qed

section \<open>The end of the loop\<close>

text \<open>The callbacks in terms of the operation on the descriptor.\<close>

lemma sc_read_input_run:
  obtains res f w where "fd_read (cc_read K) (bs_remaining_capacity (sc_outbound s)) (sc_input s, sc_kernel s) = (res, f, w)"
    "snd (sc_read_input K s) = (case res of
       Inl e \<Rightarrow> s\<lparr>sc_input := f, sc_kernel := w\<rparr>
     | Inr data \<Rightarrow> (let b = fst (bs_write (sc_outbound s) data)
         in s\<lparr>sc_input := f, sc_kernel := w, sc_outbound := if fd_eof f then bs_end_input b else b\<rparr>))"
proof -
  obtain res f w where r: "fd_read (cc_read K) (bs_remaining_capacity (sc_outbound s)) (sc_input s, sc_kernel s) = (res, f, w)"
    by (metis prod_cases3)
  then show ?thesis
    by (intro that[OF r], cases res)
      (simp_all add: sc_read_input_def ebind_def eseq_def ewhen_def sc_end_outbound_def eff Let_def)
qed

lemma sc_read_socket_run:
  obtains res f w where "fd_read (cc_read K) (bs_remaining_capacity (sc_inbound s)) (sc_socket s, sc_kernel s) = (res, f, w)"
    "snd (sc_read_socket K s) = (case res of
       Inl e \<Rightarrow> s\<lparr>sc_socket := f, sc_kernel := w\<rparr>
     | Inr data \<Rightarrow> (let b = fst (bs_write (sc_inbound s) data)
         in s\<lparr>sc_socket := f, sc_kernel := w, sc_inbound := if fd_eof f then bs_end_input b else b\<rparr>))"
proof -
  obtain res f w where r: "fd_read (cc_read K) (bs_remaining_capacity (sc_inbound s)) (sc_socket s, sc_kernel s) = (res, f, w)"
    by (metis prod_cases3)
  then show ?thesis
    by (intro that[OF r], cases res)
      (simp_all add: sc_read_socket_def ebind_def eseq_def ewhen_def sc_end_inbound_def eff Let_def)
qed

text \<open>What the operations keep of the flags of a descriptor.\<close>

lemma fd_read_flags:
  assumes "fd_read sys_read n (f, w) = (res, f', w')"
  shows "fd_closed f' = fd_closed f" "fd_eof f \<Longrightarrow> fd_eof f'"
  by (rule fd_keepsD[OF fd_keeps_read assms], simp_all add: register_read_def)+

lemma fd_write_flags:
  assumes "fd_write_string sys_writev str b (f, w) = (res, f', w')"
  shows "fd_closed f' = fd_closed f" "fd_eof f' = fd_eof f"
  by (rule fd_keepsD[OF fd_keeps_write assms[unfolded fd_write_string_def]], simp_all add: register_write_def)+

lemma so_shutdown_flags:
  assumes "so_shutdown sys_shutdown how (f, w) = (res, f', w')"
  shows "fd_closed f' = fd_closed f" "fd_eof f' = fd_eof f"
proof -
  have k: "fd_keeps (\<lambda>f. fd_closed f = c \<and> fd_eof f = e) (so_shutdown sys_shutdown how)" for c e
    unfolding so_shutdown_def
    by (auto intro!: fd_keeps_eff fd_keeps_call fd_keeps_update simp: register_read_def register_write_def)
  from fd_keepsD[OF k assms] show "fd_closed f' = fd_closed f" "fd_eof f' = fd_eof f" by blast+
qed

lemma fd_close_flags:
  assumes "fd_close sys_close (f, w) = (res, f', w')"
  shows "case res of Inl e \<Rightarrow> f' = f | Inr _ \<Rightarrow> fd_closed f'"
  using assms by (auto simp: fd_close_def eseq_def ebind_def fd_call_def fd_update_def eff split: prod.splits sum.splits)

lemma bs_flags_operations:
  "bs_input_ended (bs_pop_output b n) = bs_input_ended b" "bs_error (bs_pop_output b n) = bs_error b"
  "bs_input_ended (bs_end_input b)" "bs_error (bs_end_input b) = bs_error b"
  by (simp_all add: bs_pop_output_def bs_end_input_def Let_def)

lemma sc_read_input_flags:
  fixes K s defines "s' \<equiv> snd (sc_read_input K s)"
  shows "sc_socket s' = sc_socket s" "sc_output s' = sc_output s" "sc_inbound s' = sc_inbound s"
    "sc_inbound_shutdown s' = sc_inbound_shutdown s" "fd_closed (sc_input s') = fd_closed (sc_input s)"
    "fd_eof (sc_input s) \<Longrightarrow> fd_eof (sc_input s')"
    "bs_input_ended (sc_outbound s) \<Longrightarrow> bs_input_ended (sc_outbound s')" "bs_error (sc_outbound s') = bs_error (sc_outbound s)"
proof -
  obtain res f w where r: "fd_read (cc_read K) (bs_remaining_capacity (sc_outbound s)) (sc_input s, sc_kernel s) = (res, f, w)"
    "s' = (case res of
       Inl e \<Rightarrow> s\<lparr>sc_input := f, sc_kernel := w\<rparr>
     | Inr data \<Rightarrow> (let b = fst (bs_write (sc_outbound s) data)
         in s\<lparr>sc_input := f, sc_kernel := w, sc_outbound := if fd_eof f then bs_end_input b else b\<rparr>))"
    unfolding s'_def by (rule sc_read_input_run)
  note fd_read_flags[OF r(1)]
  then show "sc_socket s' = sc_socket s" "sc_output s' = sc_output s" "sc_inbound s' = sc_inbound s"
    "sc_inbound_shutdown s' = sc_inbound_shutdown s" "fd_closed (sc_input s') = fd_closed (sc_input s)"
    "fd_eof (sc_input s) \<Longrightarrow> fd_eof (sc_input s')"
    "bs_input_ended (sc_outbound s) \<Longrightarrow> bs_input_ended (sc_outbound s')" "bs_error (sc_outbound s') = bs_error (sc_outbound s)"
    using r(2) by (cases res; simp add: Let_def bs_flags_operations)+
qed

lemma sc_read_socket_flags:
  fixes K s defines "s' \<equiv> snd (sc_read_socket K s)"
  shows "sc_input s' = sc_input s" "sc_output s' = sc_output s" "sc_outbound s' = sc_outbound s"
    "sc_inbound_shutdown s' = sc_inbound_shutdown s" "fd_closed (sc_socket s') = fd_closed (sc_socket s)"
    "fd_eof (sc_socket s) \<Longrightarrow> fd_eof (sc_socket s')"
    "bs_input_ended (sc_inbound s) \<Longrightarrow> bs_input_ended (sc_inbound s')" "bs_error (sc_inbound s') = bs_error (sc_inbound s)"
    "bs_input_ended (sc_inbound s') \<Longrightarrow> bs_input_ended (sc_inbound s) \<or> fd_eof (sc_socket s')"
proof -
  obtain res f w where r: "fd_read (cc_read K) (bs_remaining_capacity (sc_inbound s)) (sc_socket s, sc_kernel s) = (res, f, w)"
    "s' = (case res of
       Inl e \<Rightarrow> s\<lparr>sc_socket := f, sc_kernel := w\<rparr>
     | Inr data \<Rightarrow> (let b = fst (bs_write (sc_inbound s) data)
         in s\<lparr>sc_socket := f, sc_kernel := w, sc_inbound := if fd_eof f then bs_end_input b else b\<rparr>))"
    unfolding s'_def by (rule sc_read_socket_run)
  note fd_read_flags[OF r(1)]
  then show "sc_input s' = sc_input s" "sc_output s' = sc_output s" "sc_outbound s' = sc_outbound s"
    "sc_inbound_shutdown s' = sc_inbound_shutdown s" "fd_closed (sc_socket s') = fd_closed (sc_socket s)"
    "fd_eof (sc_socket s) \<Longrightarrow> fd_eof (sc_socket s')"
    "bs_input_ended (sc_inbound s) \<Longrightarrow> bs_input_ended (sc_inbound s')" "bs_error (sc_inbound s') = bs_error (sc_inbound s)"
    "bs_input_ended (sc_inbound s') \<Longrightarrow> bs_input_ended (sc_inbound s) \<or> fd_eof (sc_socket s')"
    using r(2) by (cases res; simp add: Let_def bs_flags_operations split: if_splits)+
qed

lemma sc_write_socket_flags:
  fixes K s defines "s' \<equiv> snd (sc_write_socket K s)"
  shows "sc_input s' = sc_input s \<and> sc_output s' = sc_output s \<and> sc_inbound s' = sc_inbound s \<and>
    sc_inbound_shutdown s' = sc_inbound_shutdown s \<and> fd_closed (sc_socket s') = fd_closed (sc_socket s) \<and>
    fd_eof (sc_socket s') = fd_eof (sc_socket s) \<and>
    bs_input_ended (sc_outbound s') = bs_input_ended (sc_outbound s) \<and> bs_error (sc_outbound s') = bs_error (sc_outbound s)"
proof -
  obtain res f w where r: "fd_write_string (cc_writev K) (bs_peek_output (sc_outbound s) (min max_copy_length (bs_buffer_size (sc_outbound s))))
      False (sc_socket s, sc_kernel s) = (res, f, w)" by (metis prod_cases3)
  obtain r2 f2 w2 where r2: "so_shutdown (cc_shutdown K) SHUT_WR (f, w) = (r2, f2, w2)" by (metis prod_cases3)
  show ?thesis
    using fd_write_flags[OF r] so_shutdown_flags[OF r2] r r2 unfolding s'_def
    by (cases res; cases r2) (auto simp: sc_write_socket_def ebind_def eseq_def ewhen_def eff Let_def bs_flags_operations)
qed

lemma sc_write_output_flags:
  fixes K s defines "s' \<equiv> snd (sc_write_output K s)"
  shows "sc_input s' = sc_input s \<and> sc_socket s' = sc_socket s \<and> sc_outbound s' = sc_outbound s \<and>
    bs_input_ended (sc_inbound s') = bs_input_ended (sc_inbound s) \<and> bs_error (sc_inbound s') = bs_error (sc_inbound s) \<and>
    (fd_closed (sc_output s) \<longrightarrow> fd_closed (sc_output s')) \<and>
    (fd_closed (sc_output s') \<longrightarrow> fd_closed (sc_output s) \<or> bs_eof (sc_inbound s')) \<and>
    (sc_inbound_shutdown s' \<longrightarrow> sc_inbound_shutdown s \<or> fd_closed (sc_output s'))"
proof -
  obtain res f w where r: "fd_write_string (cc_writev K) (bs_peek_output (sc_inbound s) (min max_copy_length (bs_buffer_size (sc_inbound s))))
      False (sc_output s, sc_kernel s) = (res, f, w)" by (metis prod_cases3)
  obtain r2 f2 w2 where r2: "fd_close (cc_close K) (f, w) = (r2, f2, w2)" by (metis prod_cases3)
  show ?thesis
    using fd_write_flags[OF r] fd_close_flags[OF r2] r r2 unfolding s'_def
    by (cases res; cases r2) (auto simp: sc_write_output_def ebind_def eseq_def ewhen_def eff Let_def bs_flags_operations)
qed

text \<open>The rules that are left of the four, in their order.\<close>

abbreviation copy_rule :: "sc_handle \<Rightarrow> Direction \<Rightarrow> ('w, unit) sc_eff \<Rightarrow> ('w stream_copy \<Rightarrow> bool) \<Rightarrow> ('w, unit) sc_eff \<Rightarrow>
    (sc_handle, 'w stream_copy) Rule" where
  "copy_rule h d callback interest cancel \<equiv>
     \<lparr>rl_fd = h, rl_direction = d, rl_callback = callback, rl_interest = interest, rl_cancel = cancel\<rparr>"

definition sc_live :: "'w copy_calls \<Rightarrow> bool \<Rightarrow> bool \<Rightarrow> bool \<Rightarrow> bool \<Rightarrow> (sc_handle, 'w stream_copy) Rule list" where
  "sc_live K a1 a2 a3 a4 =
     (if a1 then [copy_rule CopyInput In (sc_read_input K) sc_read_input_interest sc_end_outbound] else []) @
     (if a2 then [copy_rule CopySocket Out (sc_write_socket K) sc_write_socket_interest sc_end_outbound] else []) @
     (if a3 then [copy_rule CopySocket In (sc_read_socket K) sc_read_socket_interest sc_end_inbound] else []) @
     (if a4 then [copy_rule CopyOutput Out (sc_write_output K) sc_write_output_interest sc_end_inbound] else [])"

lemma sc_rules_live: "sc_rules K = sc_live K True True True True"
  by (simp add: sc_rules_def sc_live_def el_add_rule_def)

lemma sc_interest_ended:
  "sc_read_input_interest (s\<lparr>sc_inbound := bs_end_input (sc_inbound s)\<rparr>) = sc_read_input_interest s"
  "sc_read_socket_interest (s\<lparr>sc_outbound := bs_end_input (sc_outbound s)\<rparr>) = sc_read_socket_interest s"
  "sc_read_socket_interest (s\<lparr>sc_inbound := bs_end_input (sc_inbound s)\<rparr>) = sc_read_socket_interest s"
  "sc_read_socket_interest (s\<lparr>sc_outbound := bs_end_input (sc_outbound s), sc_inbound := bs_end_input (sc_inbound s)\<rparr>)
     = sc_read_socket_interest s"
  "sc_write_socket_interest (s\<lparr>sc_inbound := b\<rparr>) = sc_write_socket_interest s"
  "sc_write_output_interest (s\<lparr>sc_outbound := b\<rparr>) = sc_write_output_interest s"
  by (simp_all add: sc_read_input_interest_def sc_read_socket_interest_def sc_write_socket_interest_def
      sc_write_output_interest_def bs_end_input_def bs_remaining_capacity_def)

text \<open>The first loop of a round ends the streams of the rules that it removes, and finds something to poll
  exactly when a rule that stays is interested afterwards.\<close>

definition sc_ended :: "bool \<Rightarrow> bool \<Rightarrow> bool \<Rightarrow> 'w stream_copy \<Rightarrow> 'w stream_copy" where
  "sc_ended a1 a3 a4 s =
     (let s = (if a1 \<and> fd_eof (sc_input s) then s\<lparr>sc_outbound := bs_end_input (sc_outbound s)\<rparr> else s)
      in if a3 \<and> fd_eof (sc_socket s) \<or> a4 \<and> fd_closed (sc_output s)
         then s\<lparr>sc_inbound := bs_end_input (sc_inbound s)\<rparr> else s)"

lemma bs_end_input_twice: "bs_end_input (bs_end_input b) = bs_end_input b"
  by (simp add: bs_end_input_def)

lemma sc_setup:
  assumes "\<not> fd_closed (sc_socket s)" "\<not> fd_closed (sc_input s)"
  shows "\<exists>pollfds b. el_setup sc_fds [] (sc_live K a1 True a3 a4) [] False s =
    (Inr (pollfds, b), sc_live K (a1 \<and> \<not> fd_eof (sc_input s)) True (a3 \<and> \<not> fd_eof (sc_socket s)) (a4 \<and> \<not> fd_closed (sc_output s)),
     sc_ended a1 a3 a4 s) \<and>
    (\<not> b \<longrightarrow> \<not> (a1 \<and> \<not> fd_eof (sc_input s) \<and> sc_read_input_interest (sc_ended a1 a3 a4 s)) \<and>
      \<not> sc_write_socket_interest (sc_ended a1 a3 a4 s) \<and>
      \<not> (a3 \<and> \<not> fd_eof (sc_socket s) \<and> sc_read_socket_interest (sc_ended a1 a3 a4 s)) \<and>
      \<not> (a4 \<and> \<not> fd_closed (sc_output s) \<and> sc_write_output_interest (sc_ended a1 a3 a4 s)))"
  using assms
  by (cases a1; cases a3; cases a4; cases "fd_eof (sc_input s)"; cases "fd_eof (sc_socket s)"; cases "fd_closed (sc_output s)";
      simp add: sc_live_def sc_ended_def Let_def sc_end_outbound_def sc_end_inbound_def eff sc_interest_ended bs_end_input_twice
        split: if_split; blast)

text \<open>A kernel whose \<open>poll\<close> succeeds and reports no hangup.\<close>

definition poll_calm :: "'w copy_calls \<Rightarrow> bool" where
  "poll_calm K \<longleftrightarrow> (\<forall>pollfds t w r errno revents w'. cc_poll K pollfds t w = ((r, errno), revents, w') \<longrightarrow>
     0 \<le> r \<and> r < 2147483648 \<and> (\<forall>x\<in>set revents. x AND POLLHUP = 0))"

text \<open>What holds between two rounds, for the rules that are left: a reading rule is gone only at the end of
  its input, and standard output is closed only when everything has been written to it.\<close>

definition sc_settled :: "bool \<Rightarrow> bool \<Rightarrow> bool \<Rightarrow> 'w stream_copy \<Rightarrow> bool" where
  "sc_settled a1 a3 a4 s \<longleftrightarrow>
     \<not> fd_closed (sc_socket s) \<and> \<not> fd_closed (sc_input s) \<and> \<not> bs_error (sc_outbound s) \<and> \<not> bs_error (sc_inbound s) \<and>
     (\<not> a1 \<longrightarrow> fd_eof (sc_input s) \<and> bs_input_ended (sc_outbound s)) \<and>
     (\<not> a3 \<longrightarrow> fd_eof (sc_socket s) \<and> bs_input_ended (sc_inbound s)) \<and>
     (\<not> a4 \<longrightarrow> fd_closed (sc_output s)) \<and>
     (bs_input_ended (sc_inbound s) \<longrightarrow> fd_eof (sc_socket s)) \<and>
     (fd_closed (sc_output s) \<longrightarrow> bs_eof (sc_inbound s)) \<and>
     (sc_inbound_shutdown s \<longrightarrow> fd_closed (sc_output s))"

lemma sc_settled_ended:
  assumes "sc_settled a1 a3 a4 s"
  shows "sc_settled (a1 \<and> \<not> fd_eof (sc_input s)) (a3 \<and> \<not> fd_eof (sc_socket s)) (a4 \<and> \<not> fd_closed (sc_output s)) (sc_ended a1 a3 a4 s)"
  using assms by (auto simp: sc_settled_def sc_ended_def Let_def bs_flags_operations bs_eof_def bs_buffer_empty_def bs_buffer_operations)

lemma sc_settled_callbacks:
  assumes "sc_settled a1 a3 a4 s"
  shows "sc_settled a1 a3 a4 (snd (sc_read_input K s))" "sc_settled a1 a3 a4 (snd (sc_write_socket K s))"
    "\<not> fd_eof (sc_socket s) \<Longrightarrow> sc_settled a1 a3 a4 (snd (sc_read_socket K s))"
    "\<not> fd_closed (sc_output s) \<Longrightarrow> sc_settled a1 a3 a4 (snd (sc_write_output K s))"
proof -
  show "sc_settled a1 a3 a4 (snd (sc_read_input K s))"
    using assms sc_read_input_flags[where K = K and s = s] by (simp add: sc_settled_def)
  show "sc_settled a1 a3 a4 (snd (sc_write_socket K s))"
    using assms sc_write_socket_flags[where K = K and s = s] by (simp add: sc_settled_def)
  show "sc_settled a1 a3 a4 (snd (sc_read_socket K s))" if "\<not> fd_eof (sc_socket s)"
    using assms that sc_read_socket_flags[where K = K and s = s] by (auto simp: sc_settled_def bs_eof_def)
  show "sc_settled a1 a3 a4 (snd (sc_write_output K s))" if "\<not> fd_closed (sc_output s)"
    using assms that sc_write_output_flags[where K = K and s = s] by (auto simp: sc_settled_def)
qed

definition sc_before :: "'w copy_calls \<Rightarrow> bool \<Rightarrow> bool \<Rightarrow> bool \<Rightarrow> (sc_handle, 'w stream_copy) Rule list \<Rightarrow> 'w stream_copy \<Rightarrow> bool" where
  "sc_before K a1 a3 a4 rules s \<longleftrightarrow> sc_settled a1 a3 a4 s \<and>
     (\<exists>b1 b2 b3 b4. rules = sc_live K b1 b2 b3 b4 \<and> (b3 \<longrightarrow> \<not> fd_eof (sc_socket s)) \<and> (b4 \<longrightarrow> \<not> fd_closed (sc_output s)))"

lemma sc_before_step:
  assumes "sc_before K a1 a3 a4 (r # rest) s"
  shows "sc_before K a1 a3 a4 rest s \<and> sc_before K a1 a3 a4 rest (snd (rl_callback r s))"
proof -
  obtain b1 b2 b3 b4 where b: "r # rest = sc_live K b1 b2 b3 b4" "b3 \<longrightarrow> \<not> fd_eof (sc_socket s)" "b4 \<longrightarrow> \<not> fd_closed (sc_output s)"
    and st: "sc_settled a1 a3 a4 s" using assms by (auto simp: sc_before_def)
  note cb = sc_settled_callbacks[OF st, of K]
  consider (1) "b1" | (2) "\<not> b1" "b2" | (3) "\<not> b1" "\<not> b2" "b3" | (4) "\<not> b1" "\<not> b2" "\<not> b3" "b4"
    using b(1) by (cases b1; cases b2; cases b3; cases b4; simp add: sc_live_def)
  then show ?thesis
  proof cases
    case 1
    then have r: "rl_callback r = sc_read_input K" "rest = sc_live K False b2 b3 b4" using b(1) by (simp_all add: sc_live_def)
    then show ?thesis unfolding sc_before_def r using b(2,3) st cb(1) sc_read_input_flags[where K = K and s = s] by metis
  next
    case 2
    then have r: "rl_callback r = sc_write_socket K" "rest = sc_live K False False b3 b4" using b(1) by (simp_all add: sc_live_def)
    then show ?thesis unfolding sc_before_def r using b(2,3) st cb(2) sc_write_socket_flags[where K = K and s = s] by metis
  next
    case 3
    then have r: "rl_callback r = sc_read_socket K" "rest = sc_live K False False False b4" using b(1) by (simp_all add: sc_live_def)
    then show ?thesis unfolding sc_before_def r using b(2,3) 3 st cb(3) sc_read_socket_flags[where K = K and s = s] by metis
  next
    case 4
    then have r: "rl_callback r = sc_write_output K" "rest = sc_live K False False False False" using b(1) by (simp_all add: sc_live_def)
    then show ?thesis unfolding sc_before_def r using b(3) 4 st cb(4) by metis
  qed
qed

text \<open>One round: the invariant, and what holds when the loop has nothing left to wait for.\<close>

definition sc_between :: "'w copy_calls \<Rightarrow> (sc_handle, 'w stream_copy) Rule list \<times> 'w stream_copy \<Rightarrow> bool" where
  "sc_between K st \<longleftrightarrow> (\<exists>a1 a3 a4. fst st = sc_live K a1 True a3 a4 \<and> sc_settled a1 a3 a4 (snd st))"

definition sc_idle :: "'w stream_copy \<Rightarrow> bool" where
  "sc_idle s \<longleftrightarrow> (\<exists>a1 a3 a4. sc_settled a1 a3 a4 s \<and> \<not> (a1 \<and> sc_read_input_interest s) \<and> \<not> sc_write_socket_interest s \<and>
     \<not> (a3 \<and> sc_read_socket_interest s) \<and> \<not> (a4 \<and> \<not> fd_closed (sc_output s) \<and> sc_write_output_interest s))"

lemma sc_round:
  assumes "poll_calm K" "sc_between K st" "wait_next_event sc_fds (sc_poll K) (-1) st = (Inr res, st')"
  shows "sc_between K st' \<and> (res = Exit \<longrightarrow> sc_idle (snd st'))"
proof -
  obtain rules s where rs: "st = (rules, s)" by fastforce
  obtain a1 a3 a4 where a: "rules = sc_live K a1 True a3 a4" "sc_settled a1 a3 a4 s"
    using assms(2) rs by (auto simp: sc_between_def)
  let ?b1 = "a1 \<and> \<not> fd_eof (sc_input s)" and ?b3 = "a3 \<and> \<not> fd_eof (sc_socket s)" and ?b4 = "a4 \<and> \<not> fd_closed (sc_output s)"
  let ?s = "sc_ended a1 a3 a4 s" and ?rules = "sc_live K ?b1 True ?b3 ?b4"
  have open_fds: "\<not> fd_closed (sc_socket s)" "\<not> fd_closed (sc_input s)" using a(2) by (simp_all add: sc_settled_def)
  obtain pollfds b where e: "el_setup sc_fds [] rules [] False s = (Inr (pollfds, b), ?rules, ?s)"
    and idle: "\<not> b \<longrightarrow> \<not> (?b1 \<and> sc_read_input_interest ?s) \<and> \<not> sc_write_socket_interest ?s \<and>
      \<not> (?b3 \<and> sc_read_socket_interest ?s) \<and> \<not> (?b4 \<and> sc_write_output_interest ?s)"
    using sc_setup[OF open_fds, of K a1 a3 a4] unfolding a(1) by blast
  have s: "sc_settled ?b1 ?b3 ?b4 ?s" by (rule sc_settled_ended) (rule a(2))
  have flags: "sc_socket ?s = sc_socket s" "sc_output ?s = sc_output s" by (simp_all add: sc_ended_def Let_def)
  show ?thesis
  proof (cases b)
    case False
    then have "st' = (?rules, ?s)" using assms(3) e rs by (simp add: wait_next_event_def)
    moreover have "sc_idle ?s" unfolding sc_idle_def using s idle False flags by blast
    ultimately show ?thesis using s by (auto simp: sc_between_def)
  next
    case True
    obtain r errno revents w where p: "cc_poll K pollfds (-1) (sc_kernel ?s) = ((r, errno), revents, w)" by (metis prod_cases4 surj_pair)
    let ?t = "?s\<lparr>sc_kernel := w\<rparr>"
    have r: "0 \<le> r" "r < 2147483648" "\<forall>x\<in>set revents. x AND POLLHUP = 0" using assms(1) p unfolding poll_calm_def by blast+
    have calm: "\<forall>p\<in>set (set_revents pollfds revents). pf_revents p AND POLLHUP = 0"
      using set_revents_bits el_setup_revents[OF e] r(3) by simp
    have t: "sc_settled ?b1 ?b3 ?b4 ?t" using s by (simp add: sc_settled_def)
    then have before: "sc_before K ?b1 ?b3 ?b4 ?rules ?t" unfolding sc_before_def using flags by auto
    have chain: "rules' = ?rules \<and> sc_before K ?b1 ?b3 ?b4 [] u \<and> res' = Success"
      if x: "el_results sc_fds [] ?rules 0 (set_revents pollfds revents) ?t = (Inr res', rules', u)" for res' rules' u
      using el_results_chain[where J = "sc_before K ?b1 ?b3 ?b4", OF x before calm sc_before_step] by simp
    have round: "wait_next_event sc_fds (sc_poll K) (-1) st =
        (if r = 0 then (Inr Timeout, ?rules, ?t) else el_results sc_fds [] ?rules 0 (set_revents pollfds revents) ?t)"
      using e rs True p r by (simp add: wait_next_event_def sc_poll_def SystemCall_def as_int_id)
    obtain rules' u where u: "st' = (rules', u)" by fastforce
    have "rules' = ?rules \<and> sc_settled ?b1 ?b3 ?b4 u \<and> res \<noteq> Exit"
    proof (cases "r = 0")
      case True
      then show ?thesis using assms(3) round t u by simp
    next
      case False
      then have "el_results sc_fds [] ?rules 0 (set_revents pollfds revents) ?t = (Inr res, rules', u)"
        using assms(3) round u by simp
      from chain[OF this] show ?thesis unfolding sc_before_def by blast
    qed
    then show ?thesis using u unfolding sc_between_def by auto
  qed
qed

lemma sc_idle_done:
  assumes "sc_idle s" "sc_conserved taken put num s"
  shows "put (sc_kernel s) num = taken (sc_kernel s) STDIN_FILENO \<and> put (sc_kernel s) STDOUT_FILENO = taken (sc_kernel s) num \<and>
    fd_eof (sc_input s) \<and> fd_eof (sc_socket s) \<and> sc_outbound_shutdown s \<and> fd_closed (sc_output s)"
proof -
  obtain a1 a3 a4 where s: "sc_settled a1 a3 a4 s" and i: "\<not> (a1 \<and> sc_read_input_interest s)" "\<not> sc_write_socket_interest s"
      "\<not> (a3 \<and> sc_read_socket_interest s)" "\<not> (a4 \<and> \<not> fd_closed (sc_output s) \<and> sc_write_output_interest s)"
    using assms(1) by (auto simp: sc_idle_def)
  have out: "bs_buffer (sc_outbound s) = []" and shut: "bs_eof (sc_outbound s) \<longrightarrow> sc_outbound_shutdown s"
    using i(2) by (auto simp: sc_write_socket_interest_def bs_buffer_empty_def)
  have inb: "bs_buffer (sc_inbound s) = []"
    using i(4) s by (auto simp: sc_write_output_interest_def sc_settled_def bs_eof_def bs_buffer_empty_def)
  have room: "bs_remaining_capacity (sc_outbound s) > 0" "bs_remaining_capacity (sc_inbound s) > 0"
    using assms(2) out inb by (simp_all add: sc_conserved_def remaining_capacity_room)
  have a1: "\<not> a1" and a3: "\<not> a3"
    using i(1,3) s room by (auto simp: sc_read_input_interest_def sc_read_socket_interest_def sc_settled_def)
  have ends: "fd_eof (sc_input s)" "bs_input_ended (sc_outbound s)" "fd_eof (sc_socket s)" "bs_input_ended (sc_inbound s)"
    using s a1 a3 by (simp_all add: sc_settled_def)
  have "fd_closed (sc_output s)"
  proof (rule ccontr)
    assume "\<not> fd_closed (sc_output s)"
    then have "a4" "\<not> sc_inbound_shutdown s" using s by (auto simp: sc_settled_def)
    then show False using i(4) \<open>\<not> fd_closed (sc_output s)\<close> ends(4) inb
      by (simp add: sc_write_output_interest_def bs_eof_def bs_buffer_empty_def)
  qed
  moreover have "sc_outbound_shutdown s" using shut ends(2) out by (simp add: bs_eof_def bs_buffer_empty_def)
  ultimately show ?thesis using assms(2) ends out inb by (simp add: sc_conserved_def)
qed

lemma sc_loop_idle:
  "sc_loop K st = Some res \<Longrightarrow> poll_calm K \<Longrightarrow> sc_between K st \<longrightarrow> fst res = Inr () \<longrightarrow> sc_idle (snd res)"
proof (induction rule: sc_loop.raw_induct[rotated 1, consumes 1])
  case (1 loop K st res)
  obtain r rules s where e: "wait_next_event sc_fds (sc_poll K) (-1) st = (r, rules, s)" by (metis prod_cases3)
  show ?case
  proof (intro impI)
    assume b: "sc_between K st" and res: "fst res = Inr ()"
    obtain x where x: "r = Inr x" using 1(2) e res by (cases r) auto
    note n = sc_round[OF 1(3) b e[unfolded x]]
    show "sc_idle (snd res)"
    proof (cases "x = Exit")
      case True
      then show ?thesis using n 1(2) e x by auto
    next
      case False
      then have "loop K (rules, s) = Some res" using 1(2) e x by (cases x) simp_all
      then show ?thesis using 1(1)[of K "(rules, s)" res] n res 1(3) by simp
    qed
  qed
qed

lemma fd_set_blocking_keeps: "fd_keeps P (fd_set_blocking sys_getfl sys_setfl b)"
  unfolding fd_set_blocking_def Let_def by (auto intro!: fd_keeps_eff fd_keeps_call split: prod.split)

lemma sc_start_settled:
  assumes "sc_init socket w = Inr s0" "\<not> fd_closed socket" "sc_nonblocking K s0 = (Inr (), s1)"
  shows "sc_settled True True True s1"
proof -
  let ?P = "\<lambda>s. \<not> fd_closed (sc_socket s) \<and> \<not> fd_closed (sc_input s) \<and> \<not> fd_closed (sc_output s) \<and>
    sc_outbound s = bs_new copy_buffer_size \<and> sc_inbound s = bs_new copy_buffer_size \<and> \<not> sc_inbound_shutdown s"
  have k: "ekeeps ?P (sc_on h (fd_set_blocking (cc_getfl K) (cc_setfl K) False))" for h
    using fd_set_blocking_keeps[of "\<lambda>f. \<not> fd_closed f" "cc_getfl K" "cc_setfl K" False] unfolding fd_keeps_def
    by (cases h) (auto intro: ekeeps_ezoom)
  have "?P s0" using assms(1,2) by (auto simp: sc_init_def fd_wrapper_def)
  moreover have "ekeeps ?P (sc_nonblocking K)" unfolding sc_nonblocking_def by (intro ekeeps_eseq k)
  ultimately have "?P s1" using assms(3) ekeepsD[of ?P "sc_nonblocking K" s0 "Inr ()" s1] by simp
  then show ?thesis by (simp add: sc_settled_def bs_new_def)
qed

section \<open>An example\<close>

text \<open>A kernel with what is left to read from each descriptor, what has been read and what has been written:
  every descriptor is ready, and a call moves at most two bytes.\<close>

type_synonym pipe_world = "(int \<Rightarrow> bytes) \<times> (int \<Rightarrow> bytes) \<times> (int \<Rightarrow> bytes)"

definition pipe_calls :: "pipe_world copy_calls" where
  "pipe_calls = \<lparr>
     cc_read = (\<lambda>fd n (left, taken, put).
       let data = take (min 2 n) (left fd)
       in ((int (length data), 0), data, left(fd := drop (length data) (left fd)), taken(fd := taken fd @ data), put)),
     cc_writev = (\<lambda>fd iov (left, taken, put).
       let data = take 2 (concat (map fst iov)) in ((int (length data), 0), (), left, taken, put(fd := put fd @ data))),
     cc_shutdown = (\<lambda>fd how w. ((0, 0), (), w)), cc_close = (\<lambda>fd w. ((0, 0), (), w)),
     cc_getfl = (\<lambda>fd w. ((0, 0), (), w)), cc_setfl = (\<lambda>fd flags w. ((0, 0), (), w)),
     cc_poll = (\<lambda>pollfds t w. ((4, 0), map (\<lambda>p. pf_events p AND (POLLIN OR POLLOUT)) pollfds, w))\<rparr>"

definition pipe_start :: pipe_world where
  "pipe_start = ((\<lambda>_. [])(0 := [1, 2, 3], 7 := [8]), \<lambda>_. [], \<lambda>_. [])"

definition pipe_socket :: FDWrapper where
  "pipe_socket = \<lparr>fd_num = 7, fd_eof = False, fd_closed = False, fd_read_count = 0, fd_write_count = 0\<rparr>"

lemma pipe_kernel: "stream_kernel (fst \<circ> snd) (snd \<circ> snd) pipe_calls"
proof -
  have "stream_read (fst \<circ> snd) (snd \<circ> snd) (cc_read pipe_calls)"
    by (auto simp: stream_read_def pipe_calls_def Let_def)
  moreover have "stream_writev (fst \<circ> snd) (snd \<circ> snd) (cc_writev pipe_calls)"
    unfolding stream_writev_def
  proof (intro allI impI)
    fix fd iov r errno and w w' :: pipe_world
    assume c: "cc_writev pipe_calls fd iov w = ((r, errno), (), w')"
    obtain left taken put where w: "w = (left, taken, put)" by (rule prod_cases3)
    show "(fst \<circ> snd) w' = (fst \<circ> snd) w \<and>
        (r = -1 \<and> (snd \<circ> snd) w' = (snd \<circ> snd) w \<or>
         (\<exists>n. r = int n \<and> n \<le> length (concat (map fst iov)) \<and> n < 2147483648 \<and>
            (snd \<circ> snd) w' = ((snd \<circ> snd) w)(fd := (snd \<circ> snd) w fd @ take n (concat (map fst iov)))))"
      using c w by (intro conjI disjI2 exI[of _ "min 2 (length (concat (map fst iov)))"]) (auto simp: pipe_calls_def Let_def min_def)
  qed
  ultimately show ?thesis by (simp add: stream_kernel_def moves_nothing_def pipe_calls_def)
qed

lemma pipe_calm: "poll_calm pipe_calls"
  by (auto simp: poll_calm_def pipe_calls_def and.assoc)

lemma pipe_read:
  "fd_read (cc_read pipe_calls) n (f, (left, taken, put)) =
     (let data = take (min 2 n) (left (fd_num f))
      in (Inr data, register_read (if n > 0 \<and> data = [] then f\<lparr>fd_eof := True\<rparr> else f),
          left(fd_num f := drop (length data) (left (fd_num f))), taken(fd_num f := taken (fd_num f) @ data), put))"
  unfolding Let_def
  by (rule fd_read_eq[where errno = 0]) (simp_all add: pipe_calls_def Let_def min_def)

lemma pipe_write:
  assumes "length str < 9223372036854775808"
  shows "fd_write_string (cc_writev pipe_calls) str False (f, (left, taken, put)) =
     (Inr (min 2 (length str)), register_write f, left, taken, put(fd_num f := put (fd_num f) @ take 2 str))"
  by (rule fd_write_eq[where errno = 0])
    (use assms in \<open>simp_all add: pipe_calls_def Let_def bvl_as_iovecs_def min.commute\<close>)

text \<open>The callbacks on this kernel.\<close>

lemma pipe_read_input:
  "sc_kernel s = (left, taken, put) \<Longrightarrow> n = bs_remaining_capacity (sc_outbound s) \<Longrightarrow> data = take (min 2 n) (left (fd_num (sc_input s))) \<Longrightarrow>
   b = fst (bs_write (sc_outbound s) data) \<Longrightarrow> f = register_read (if n > 0 \<and> data = [] then (sc_input s)\<lparr>fd_eof := True\<rparr> else sc_input s) \<Longrightarrow>
   sc_read_input pipe_calls s = (Inr (), s\<lparr>sc_input := f, sc_kernel := (left(fd_num (sc_input s) := drop (length data) (left (fd_num (sc_input s)))),
       taken(fd_num (sc_input s) := taken (fd_num (sc_input s)) @ data), put), sc_outbound := if fd_eof f then bs_end_input b else b\<rparr>)"
  by (simp add: sc_read_input_def ebind_def eseq_def ewhen_def eff pipe_read Let_def sc_end_outbound_def)

lemma pipe_read_socket:
  "sc_kernel s = (left, taken, put) \<Longrightarrow> n = bs_remaining_capacity (sc_inbound s) \<Longrightarrow> data = take (min 2 n) (left (fd_num (sc_socket s))) \<Longrightarrow>
   b = fst (bs_write (sc_inbound s) data) \<Longrightarrow> f = register_read (if n > 0 \<and> data = [] then (sc_socket s)\<lparr>fd_eof := True\<rparr> else sc_socket s) \<Longrightarrow>
   sc_read_socket pipe_calls s = (Inr (), s\<lparr>sc_socket := f, sc_kernel := (left(fd_num (sc_socket s) := drop (length data) (left (fd_num (sc_socket s)))),
       taken(fd_num (sc_socket s) := taken (fd_num (sc_socket s)) @ data), put), sc_inbound := if fd_eof f then bs_end_input b else b\<rparr>)"
  by (simp add: sc_read_socket_def ebind_def eseq_def ewhen_def eff pipe_read Let_def sc_end_inbound_def)

lemma pipe_quiet:
  "so_shutdown (cc_shutdown pipe_calls) SHUT_WR (f, w) = (Inr (), register_write f, w)"
  "fd_close (cc_close pipe_calls) (f, w) = (Inr (), f\<lparr>fd_eof := True, fd_closed := True\<rparr>, w)"
  "fd_set_blocking (cc_getfl pipe_calls) (cc_setfl pipe_calls) b (f, w) = (Inr (), f, w)"
  by (simp_all add: so_shutdown_def fd_close_def fd_set_blocking_def eseq_def ebind_def fd_call_def SystemCall_def as_int_id fd_update_def
      eff pipe_calls_def Let_def)

lemma pipe_write_socket:
  "sc_kernel s = (left, taken, put) \<Longrightarrow> str = take max_copy_length (bs_buffer (sc_outbound s)) \<Longrightarrow>
   b = bs_pop_output (sc_outbound s) (min 2 (length str)) \<Longrightarrow>
   sc_write_socket pipe_calls s = (Inr (), s\<lparr>sc_socket := (if bs_eof b then register_write (register_write (sc_socket s)) else register_write (sc_socket s)),
       sc_kernel := (left, taken, put(fd_num (sc_socket s) := put (fd_num (sc_socket s)) @ take 2 str)), sc_outbound := b,
       sc_outbound_shutdown := (bs_eof b \<or> sc_outbound_shutdown s)\<rparr>)"
  by (simp add: sc_write_socket_def ebind_def eseq_def ewhen_def eff pipe_write pipe_quiet Let_def bs_peek_output_eq bs_buffer_size_def)

lemma pipe_write_output:
  "sc_kernel s = (left, taken, put) \<Longrightarrow> str = take max_copy_length (bs_buffer (sc_inbound s)) \<Longrightarrow>
   b = bs_pop_output (sc_inbound s) (min 2 (length str)) \<Longrightarrow>
   sc_write_output pipe_calls s = (Inr (), s\<lparr>sc_output := (if bs_eof b then (register_write (sc_output s))\<lparr>fd_eof := True, fd_closed := True\<rparr> else register_write (sc_output s)),
       sc_kernel := (left, taken, put(fd_num (sc_output s) := put (fd_num (sc_output s)) @ take 2 str)), sc_inbound := b,
       sc_inbound_shutdown := (bs_eof b \<or> sc_inbound_shutdown s)\<rparr>)"
  by (simp add: sc_write_output_def ebind_def eseq_def ewhen_def eff pipe_write pipe_quiet Let_def bs_peek_output_eq bs_buffer_size_def)

definition pipe_fd :: "int \<Rightarrow> bool \<Rightarrow> bool \<Rightarrow> nat \<Rightarrow> nat \<Rightarrow> FDWrapper" where
  "pipe_fd n eof closed r w = \<lparr>fd_num = n, fd_eof = eof, fd_closed = closed, fd_read_count = r, fd_write_count = w\<rparr>"

definition pipe_stream :: "bytes \<Rightarrow> nat \<Rightarrow> nat \<Rightarrow> bool \<Rightarrow> ByteStream" where
  "pipe_stream buffer wr rd ended = (bs_new copy_buffer_size)\<lparr>bs_buffer := buffer, bs_bytes_written := wr, bs_bytes_read := rd, bs_input_ended := ended\<rparr>"

lemma pipe_simps:
  "fd_num (pipe_fd n eof closed r w) = n" "fd_eof (pipe_fd n eof closed r w) = eof" "fd_closed (pipe_fd n eof closed r w) = closed"
  "fd_read_count (pipe_fd n eof closed r w) = r" "fd_write_count (pipe_fd n eof closed r w) = w"
  "(pipe_fd n eof closed r w)\<lparr>fd_eof := eof'\<rparr> = pipe_fd n eof' closed r w"
  "(pipe_fd n eof closed r w)\<lparr>fd_closed := closed'\<rparr> = pipe_fd n eof closed' r w"
  "register_read (pipe_fd n eof closed r w) = pipe_fd n eof closed (add32 r 1) w"
  "register_write (pipe_fd n eof closed r w) = pipe_fd n eof closed r (add32 w 1)"
  "bs_end_input (pipe_stream b wr rd e) = pipe_stream b wr rd True"
  "bs_eof (pipe_stream b wr rd e) = (e \<and> b = [])" "bs_buffer_empty (pipe_stream b wr rd e) = (b = [])"
  "bs_buffer (pipe_stream b wr rd e) = b" "\<not> bs_error (pipe_stream b wr rd e)"
  "length b \<le> copy_buffer_size \<Longrightarrow> bs_remaining_capacity (pipe_stream b wr rd e) = copy_buffer_size - length b"
  "bs_pop_output (pipe_stream b wr rd e) k = pipe_stream (drop k b) wr (add64 rd (min k (length b))) e"
  by (simp_all add: pipe_fd_def register_read_def register_write_def pipe_stream_def bs_end_input_def bs_eof_def bs_buffer_empty_def
      bs_new_def bs_remaining_capacity_def no_wrap bs_pop_output_def bs_pop_loop_eq Let_def min_def)

lemma pipe_stream_write:
  "length b + length d \<le> copy_buffer_size \<Longrightarrow>
   fst (bs_write (pipe_stream b wr rd e) d) = pipe_stream (b @ d) (add64 wr (length d)) rd e"
  by (simp add: pipe_stream_def bs_write_def bs_new_def bs_write_loop_eq min_absorb2)

lemmas pipe_run = wait_next_event_def sc_poll_def SystemCall_def as_int_id sc_live_def sc_end_outbound_def sc_end_inbound_def eff
  pipe_simps pipe_stream_write add32_def add64_def rl_service_count_def el_serve_called el_serve_idle
  sc_read_input_interest_def sc_read_socket_interest_def sc_write_socket_interest_def sc_write_output_interest_def
  pipe_read_input pipe_read_socket pipe_write_socket pipe_write_output

lemma pipe_poll: "cc_poll pipe_calls pollfds t w = ((4, 0), map (\<lambda>p. pf_events p AND (POLLIN OR POLLOUT)) pollfds, w)"
  by (simp add: pipe_calls_def)

definition at_fds :: "int \<Rightarrow> bytes \<Rightarrow> int \<Rightarrow> bytes \<Rightarrow> int \<Rightarrow> bytes" where
  "at_fds m a n b = (\<lambda>_. [])(m := a, n := b)"

lemma at_fds_simps:
  "at_fds m a n b n = b" "m \<noteq> n \<Longrightarrow> at_fds m a n b m = a"
  "(at_fds m a n b)(n := x) = at_fds m a n x" "m \<noteq> n \<Longrightarrow> (at_fds m a n b)(m := x) = at_fds m x n b"
  by (auto simp: at_fds_def)

definition pipe_s0 :: "pipe_world stream_copy" where
  "pipe_s0 =
      \<lparr>sc_socket = pipe_fd 7 False False 0 0, sc_input = pipe_fd 0 False False 0 0, sc_output = pipe_fd 1 False False 0 0,
       sc_outbound = pipe_stream [] 0 0 False, sc_inbound = pipe_stream [] 0 0 False,
       sc_outbound_shutdown = False, sc_inbound_shutdown = False, sc_kernel = (at_fds 0 [1, 2, 3] 7 [8], at_fds 0 [] 7 [], at_fds 7 [] 1 [])\<rparr>"

definition pipe_s1 :: "pipe_world stream_copy" where
  "pipe_s1 =
      \<lparr>sc_socket = pipe_fd 7 False False 1 0, sc_input = pipe_fd 0 False False 1 0, sc_output = pipe_fd 1 False False 0 0,
       sc_outbound = pipe_stream [1, 2] 2 0 False, sc_inbound = pipe_stream [8] 1 0 False,
       sc_outbound_shutdown = False, sc_inbound_shutdown = False, sc_kernel = (at_fds 0 [3] 7 [], at_fds 0 [1, 2] 7 [8], at_fds 7 [] 1 [])\<rparr>"

definition pipe_s2 :: "pipe_world stream_copy" where
  "pipe_s2 =
      \<lparr>sc_socket = pipe_fd 7 True False 2 1, sc_input = pipe_fd 0 False False 2 0, sc_output = pipe_fd 1 True True 0 1,
       sc_outbound = pipe_stream [3] 3 2 False, sc_inbound = pipe_stream [] 1 1 True,
       sc_outbound_shutdown = False, sc_inbound_shutdown = True, sc_kernel = (at_fds 0 [] 7 [], at_fds 0 [1, 2, 3] 7 [8], at_fds 7 [1, 2] 1 [8])\<rparr>"

definition pipe_s3 :: "pipe_world stream_copy" where
  "pipe_s3 =
      \<lparr>sc_socket = pipe_fd 7 True False 2 3, sc_input = pipe_fd 0 True False 3 0, sc_output = pipe_fd 1 True True 0 1,
       sc_outbound = pipe_stream [] 3 3 True, sc_inbound = pipe_stream [] 1 1 True,
       sc_outbound_shutdown = True, sc_inbound_shutdown = True, sc_kernel = (at_fds 0 [] 7 [], at_fds 0 [1, 2, 3] 7 [8], at_fds 7 [1, 2, 3] 1 [8])\<rparr>"

lemma pipe_round1:
  "wait_next_event sc_fds (sc_poll pipe_calls) (-1) (sc_live pipe_calls True True True True, pipe_s0) =
     (Inr Success, sc_live pipe_calls True True True True, pipe_s1)"
  by (simp add: pipe_s0_def pipe_s1_def pipe_run pipe_poll at_fds_simps
      cong: prod.case_cong_weak sum.case_cong_weak if_weak_cong) (simp add: numeral_2_eq_2)

lemma pipe_round2:
  "wait_next_event sc_fds (sc_poll pipe_calls) (-1) (sc_live pipe_calls True True True True, pipe_s1) =
     (Inr Success, sc_live pipe_calls True True True True, pipe_s2)"
  by (simp add: pipe_s1_def pipe_s2_def pipe_run pipe_poll at_fds_simps
      cong: prod.case_cong_weak sum.case_cong_weak if_weak_cong) (simp add: numeral_2_eq_2)

lemma pipe_round3:
  "wait_next_event sc_fds (sc_poll pipe_calls) (-1) (sc_live pipe_calls True True True True, pipe_s2) =
     (Inr Success, sc_live pipe_calls True True False False, pipe_s3)"
  by (simp add: pipe_s2_def pipe_s3_def pipe_run pipe_poll at_fds_simps
      cong: prod.case_cong_weak sum.case_cong_weak if_weak_cong)

lemma pipe_round4:
  "wait_next_event sc_fds (sc_poll pipe_calls) (-1) (sc_live pipe_calls True True False False, pipe_s3) =
     (Inr Exit, sc_live pipe_calls False True False False, pipe_s3)"
  by (simp add: pipe_s3_def pipe_run pipe_poll at_fds_simps
      cong: prod.case_cong_weak sum.case_cong_weak if_weak_cong)

lemma pipe_copy: "bidirectional_stream_copy pipe_calls pipe_socket pipe_start = Some (Inr (Inr (), pipe_s3))"
proof -
  have init: "sc_init pipe_socket pipe_start = Inr pipe_s0"
    by (simp add: sc_init_def fd_wrapper_def pipe_s0_def pipe_fd_def pipe_stream_def bs_new_def pipe_socket_def pipe_start_def at_fds_def fun_eq_iff)
  have block: "sc_nonblocking pipe_calls pipe_s0 = (Inr (), pipe_s0)"
    by (simp add: sc_nonblocking_def eseq_def ebind_def eff pipe_quiet)
  have "sc_loop pipe_calls (sc_rules pipe_calls, pipe_s0) = Some (Inr (), pipe_s3)"
    unfolding sc_rules_live
    by (subst sc_loop.simps, simp add: pipe_round1, subst sc_loop.simps, simp add: pipe_round2,
        subst sc_loop.simps, simp add: pipe_round3, subst sc_loop.simps, simp add: pipe_round4)
  then show ?thesis by (simp add: bidirectional_stream_copy_def init block)
qed

section \<open>Properties\<close>

text \<open>C40: Wherever the loop of \<open>bidirectional_stream_copy\<close> stands, also after an exception, what has been read
  from standard input is what has been written to the socket followed by what is buffered, and what
  has been read from the socket is what has been written to standard output followed by what is
  buffered: nothing is lost, repeated or reordered, however little each call moves.\<close>

theorem copy_conserves:
  assumes "sc_at K socket w (rules, s)" "stream_kernel taken put K" "fd_num socket \<notin> {0, 1}"
    and "taken w = (\<lambda>_. [])" "put w = (\<lambda>_. [])"
  shows "taken (sc_kernel s) 0 = put (sc_kernel s) (fd_num socket) @ bs_buffer (sc_outbound s) \<and>
    taken (sc_kernel s) (fd_num socket) = put (sc_kernel s) 1 @ bs_buffer (sc_inbound s) \<and>
    length (bs_buffer (sc_outbound s)) \<le> 1048576 \<and> length (bs_buffer (sc_inbound s)) \<le> 1048576"
  using sc_at_conserved[OF assms(1-3)] assms(4,5) by (simp add: sc_conserved_def)

theorem copy_conserves_witness:
  "\<exists>rules s. sc_at pipe_calls pipe_socket pipe_start (rules, s) \<and> s = pipe_s3 \<and>
    (fst \<circ> snd) (sc_kernel s) 0 = (snd \<circ> snd) (sc_kernel s) 7 @ bs_buffer (sc_outbound s)"
proof -
  obtain rules where at: "sc_at pipe_calls pipe_socket pipe_start (rules, pipe_s3)"
    using bidirectional_stream_copy_at[OF pipe_copy] by blast
  from copy_conserves[OF at pipe_kernel] show ?thesis
    using at by (auto simp: pipe_socket_def pipe_start_def)
qed

text \<open>C39: When \<open>bidirectional_stream_copy\<close> returns, and no descriptor was hung up and no wait interrupted, the
  copy is complete: standard input and the socket have reached their end, everything read from
  standard input has been written to the socket and the socket's writing side is shut down, and
  everything read from the socket has been written to standard output, which is closed.\<close>

theorem copy_complete:
  assumes "bidirectional_stream_copy K socket w = Some (Inr (Inr (), s))" "stream_kernel taken put K" "poll_calm K"
    and "fd_num socket \<notin> {0, 1}" "\<not> fd_closed socket" "taken w = (\<lambda>_. [])" "put w = (\<lambda>_. [])"
  shows "put (sc_kernel s) (fd_num socket) = taken (sc_kernel s) 0 \<and> put (sc_kernel s) 1 = taken (sc_kernel s) (fd_num socket) \<and>
    fd_eof (sc_input s) \<and> fd_eof (sc_socket s) \<and> sc_outbound_shutdown s \<and> fd_closed (sc_output s)"
proof -
  obtain rules where "sc_at K socket w (rules, s)" using bidirectional_stream_copy_at[OF assms(1)] by blast
  then have cons: "sc_conserved taken put (fd_num socket) s"
    using sc_at_conserved[OF _ assms(2,4)] assms(6,7) by fastforce
  obtain s0 where 0: "sc_init socket w = Inr s0" using assms(1) by (auto simp: bidirectional_stream_copy_def split: sum.splits)
  obtain s1 where 1: "sc_nonblocking K s0 = (Inr (), s1)" "sc_loop K (sc_rules K, s1) = Some (Inr (), s)"
    using assms(1) 0 by (auto simp: bidirectional_stream_copy_def split: sum.splits prod.splits)
  have "sc_between K (sc_rules K, s1)"
    unfolding sc_between_def sc_rules_live using sc_start_settled[OF 0 assms(5) 1(1)] by fastforce
  then have "sc_idle s" using sc_loop_idle[OF 1(2) assms(3)] by simp
  then show ?thesis using sc_idle_done cons by blast
qed

theorem copy_complete_witness:
  "bidirectional_stream_copy pipe_calls pipe_socket pipe_start = Some (Inr (Inr (), pipe_s3)) \<and>
    snd (snd (sc_kernel pipe_s3)) 7 = [1, 2, 3] \<and> snd (snd (sc_kernel pipe_s3)) 1 = [8]"
proof (intro conjI pipe_copy)
  have "fd_num pipe_socket = 7" "\<not> fd_closed pipe_socket" "fst (snd pipe_start) = (\<lambda>_. [])" "snd (snd pipe_start) = (\<lambda>_. [])"
    by (simp_all add: pipe_socket_def pipe_start_def)
  with copy_complete[OF pipe_copy pipe_kernel pipe_calm]
  have "snd (snd (sc_kernel pipe_s3)) 7 = fst (snd (sc_kernel pipe_s3)) 0" "snd (snd (sc_kernel pipe_s3)) 1 = fst (snd (sc_kernel pipe_s3)) 7"
    by simp_all
  then show "snd (snd (sc_kernel pipe_s3)) 7 = [1, 2, 3]" "snd (snd (sc_kernel pipe_s3)) 1 = [8]"
    by (simp_all add: pipe_s3_def at_fds_def)
qed

end
