(* ===== verification/Router.thy ===== *)
theory Router
  imports Network_Interface
begin

text \<open>
  The router (\<^verbatim>\<open>libsponge/router.hh\<close> and \<^verbatim>\<open>.cc\<close>): interfaces that keep received datagrams in a queue,
  a list of routes and the forwarding of datagrams along the longest matching prefix. The errors
  are the undefined shift for a prefix longer than 32 bits, the undefined access to an interface
  that does not exist, and the exceptions of the interface. Debug output is not modelled.
\<close>

section \<open>Model\<close>

datatype router_error = ShiftUndefined | IndexUndefined | IndexOutOfRange | InterfaceError ni_error | AddressError

record AsyncNetworkInterface =
  an_interface :: NetworkInterface
  an_datagrams_out :: "IPv4Datagram list"

definition an_new :: "NetworkInterface \<Rightarrow> AsyncNetworkInterface" where
  "an_new n = \<lparr>an_interface = n, an_datagrams_out = []\<rparr>"

definition an_recv_frame :: "EthernetFrame \<Rightarrow> AsyncNetworkInterface \<Rightarrow> ni_error + AsyncNetworkInterface" where
  "an_recv_frame frame a =
     (case ni_recv_frame frame (an_interface a) of
        Inl e \<Rightarrow> Inl e
      | Inr (n, optional_dgram) \<Rightarrow>
          (case optional_dgram of
             None \<Rightarrow> Inr (a\<lparr>an_interface := n\<rparr>)
           | Some dgram \<Rightarrow> Inr (a\<lparr>an_interface := n, an_datagrams_out := an_datagrams_out a @ [dgram]\<rparr>)))"

record Route =
  rt_route_prefix :: u32
  rt_prefix_length :: u8
  rt_next_hop :: "Address option"
  rt_interface_num :: nat

record Router =
  ro_routes :: "Route list"
  ro_interfaces :: "AsyncNetworkInterface list"

definition ro_new :: Router where
  "ro_new = \<lparr>ro_routes = [], ro_interfaces = []\<rparr>"

definition ro_add_interface :: "AsyncNetworkInterface \<Rightarrow> Router \<Rightarrow> Router \<times> nat" where
  "ro_add_interface interface ro =
     (let ro' = ro\<lparr>ro_interfaces := ro_interfaces ro @ [interface]\<rparr>
      in (ro', length (ro_interfaces ro') - 1))"

definition ro_interface :: "nat \<Rightarrow> Router \<Rightarrow> router_error + AsyncNetworkInterface" where
  "ro_interface N ro =
     (if N < length (ro_interfaces ro) then Inr (ro_interfaces ro ! N) else Inl IndexOutOfRange)"

definition ro_add_route :: "u32 \<Rightarrow> u8 \<Rightarrow> Address option \<Rightarrow> nat \<Rightarrow> Router \<Rightarrow> Router" where
  "ro_add_route route_prefix prefix_length next_hop interface_num ro =
     ro\<lparr>ro_routes := ro_routes ro @ [\<lparr>rt_route_prefix = route_prefix, rt_prefix_length = prefix_length,
       rt_next_hop = next_hop, rt_interface_num = interface_num\<rparr>]\<rparr>"

definition ro_mask :: "u8 \<Rightarrow> u32 option" where
  "ro_mask prefix_length =
     (if prefix_length \<noteq> 0
      then (if unat prefix_length \<le> 32 then Some (push_bit (32 - unat prefix_length) 0xFFFFFFFF) else None)
      else Some 0)"

fun ro_best_match :: "u32 \<Rightarrow> Route list \<Rightarrow> Route option \<Rightarrow> router_error + Route option" where
  "ro_best_match dst [] best_match = Inr best_match"
| "ro_best_match dst (it # routes) best_match =
     (case ro_mask (rt_prefix_length it) of
        None \<Rightarrow> Inl ShiftUndefined
      | Some msk \<Rightarrow>
          ro_best_match dst routes
            (if and dst msk = and (rt_route_prefix it) msk then
               (case best_match of
                  None \<Rightarrow> Some it
                | Some b \<Rightarrow> if rt_prefix_length it > rt_prefix_length b then Some it else best_match)
             else best_match))"

definition ro_send :: "nat \<Rightarrow> IPv4Datagram \<Rightarrow> Address \<Rightarrow> Router \<Rightarrow> router_error + Router" where
  "ro_send interface_num dgram next_hop ro =
     (if interface_num < length (ro_interfaces ro) then
        (let a = ro_interfaces ro ! interface_num
         in case ni_send_datagram dgram next_hop (an_interface a) of
              Inl e \<Rightarrow> Inl (InterfaceError e)
            | Inr n \<Rightarrow> Inr (ro\<lparr>ro_interfaces := (ro_interfaces ro)[interface_num := a\<lparr>an_interface := n\<rparr>]\<rparr>))
      else Inl IndexUndefined)"

definition ro_route_one_datagram :: "IPv4Datagram \<Rightarrow> Router \<Rightarrow> router_error + Router" where
  "ro_route_one_datagram dgram ro =
     (if ip_ttl (dg_header dgram) \<le> 1 then Inr ro
      else case ro_best_match (ip_dst (dg_header dgram)) (ro_routes ro) None of
             Inl e \<Rightarrow> Inl e
           | Inr None \<Rightarrow> Inr ro
           | Inr (Some best_match) \<Rightarrow>
               (let dgram = dgram\<lparr>dg_header := (dg_header dgram)\<lparr>ip_ttl := ip_ttl (dg_header dgram) - 1\<rparr>\<rparr>;
                    interface_num = rt_interface_num best_match
                in case rt_next_hop best_match of
                     Some next_hop \<Rightarrow> ro_send interface_num dgram next_hop ro
                   | None \<Rightarrow>
                       (case ad_from_ipv4_numeric (ip_dst (dg_header dgram)) of
                          Inl _ \<Rightarrow> Inl AddressError
                        | Inr next_hop \<Rightarrow> ro_send interface_num dgram next_hop ro)))"

definition ro_queue :: "nat \<Rightarrow> Router \<Rightarrow> IPv4Datagram list" where
  "ro_queue i ro = an_datagrams_out (ro_interfaces ro ! i)"

definition ro_pop :: "nat \<Rightarrow> Router \<Rightarrow> Router" where
  "ro_pop i ro = ro\<lparr>ro_interfaces := (ro_interfaces ro)[i :=
     (ro_interfaces ro ! i)\<lparr>an_datagrams_out := tl (ro_queue i ro)\<rparr>]\<rparr>"

lemma ro_send_keeps:
  assumes "ro_send k d hop ro = Inr ro'"
  shows "length (ro_interfaces ro') = length (ro_interfaces ro)" "ro_routes ro' = ro_routes ro"
    "map an_datagrams_out (ro_interfaces ro') = map an_datagrams_out (ro_interfaces ro)"
proof -
  obtain n where k: "k < length (ro_interfaces ro)"
    and ro': "ro' = ro\<lparr>ro_interfaces := (ro_interfaces ro)[k := (ro_interfaces ro ! k)\<lparr>an_interface := n\<rparr>]\<rparr>"
    using assms by (auto simp: ro_send_def Let_def split: if_splits sum.splits)
  then show "length (ro_interfaces ro') = length (ro_interfaces ro)" "ro_routes ro' = ro_routes ro" by simp_all
  have "map an_datagrams_out (ro_interfaces ro') = (map an_datagrams_out (ro_interfaces ro))[k := an_datagrams_out (ro_interfaces ro ! k)]"
    unfolding ro' by (simp add: map_update)
  also have "\<dots> = map an_datagrams_out (ro_interfaces ro)" using k by (metis list_update_id nth_map)
  finally show "map an_datagrams_out (ro_interfaces ro') = map an_datagrams_out (ro_interfaces ro)" .
qed

lemma ro_route_one_keeps:
  assumes "ro_route_one_datagram d ro = Inr ro'"
  shows "length (ro_interfaces ro') = length (ro_interfaces ro)" "ro_routes ro' = ro_routes ro"
    "map an_datagrams_out (ro_interfaces ro') = map an_datagrams_out (ro_interfaces ro)"
proof -
  have "ro' = ro \<or> (\<exists>k d hop. ro_send k d hop ro = Inr ro')"
    using assms by (auto simp: ro_route_one_datagram_def Let_def split: if_splits sum.splits option.splits)
  then show "length (ro_interfaces ro') = length (ro_interfaces ro)" "ro_routes ro' = ro_routes ro"
    "map an_datagrams_out (ro_interfaces ro') = map an_datagrams_out (ro_interfaces ro)"
    using ro_send_keeps by (metis, metis, metis)
qed

lemma ro_queue_eq: "i < length (ro_interfaces ro) \<Longrightarrow> ro_queue i ro = map an_datagrams_out (ro_interfaces ro) ! i"
  by (simp add: ro_queue_def)

lemma ro_queue_pop:
  assumes "i < length (ro_interfaces ro)"
  shows "ro_queue j (ro_pop i ro) = (if j = i then tl (ro_queue i ro) else ro_queue j ro)"
    "length (ro_interfaces (ro_pop i ro)) = length (ro_interfaces ro)" "ro_routes (ro_pop i ro) = ro_routes ro"
  using assms by (simp_all add: ro_pop_def ro_queue_def nth_list_update)

text \<open>The inner loop of \<open>route\<close>: the queue of one interface is emptied.\<close>

function ro_drain :: "nat \<Rightarrow> Router \<Rightarrow> router_error + Router" where
  "ro_drain i ro =
     (if i < length (ro_interfaces ro) \<and> ro_queue i ro \<noteq> [] then
        (case ro_route_one_datagram (hd (ro_queue i ro)) ro of
           Inl e \<Rightarrow> Inl e
         | Inr ro' \<Rightarrow> ro_drain i (ro_pop i ro'))
      else Inr ro)"
  by pat_completeness auto

termination ro_drain
proof (relation "measure (\<lambda>(i, ro). length (ro_queue i ro))")
  fix i ro ro'
  assume q: "i < length (ro_interfaces ro) \<and> ro_queue i ro \<noteq> []"
    and r: "ro_route_one_datagram (hd (ro_queue i ro)) ro = Inr ro'"
  note k = ro_route_one_keeps[OF r]
  have "ro_queue i ro' = ro_queue i ro" using q k by (simp add: ro_queue_eq)
  then show "((i, ro_pop i ro'), (i, ro)) \<in> measure (\<lambda>(i, ro). length (ro_queue i ro))"
    using q k(1) by (simp add: ro_queue_pop)
qed simp

declare ro_drain.simps [simp del]

fun ro_route_loop :: "nat list \<Rightarrow> Router \<Rightarrow> router_error + Router" where
  "ro_route_loop [] ro = Inr ro"
| "ro_route_loop (i # is) ro =
     (case ro_drain i ro of Inl e \<Rightarrow> Inl e | Inr ro' \<Rightarrow> ro_route_loop is ro')"

definition ro_route :: "Router \<Rightarrow> router_error + Router" where
  "ro_route ro = ro_route_loop [0 ..< length (ro_interfaces ro)] ro"

section \<open>Longest prefix match\<close>

text \<open>Two addresses agree on the first \<open>k\<close> bits.\<close>

definition same_prefix :: "nat \<Rightarrow> u32 \<Rightarrow> u32 \<Rightarrow> bool" where
  "same_prefix k a b \<longleftrightarrow> drop_bit (32 - k) a = drop_bit (32 - k) b"

definition rt_matches :: "u32 \<Rightarrow> Route \<Rightarrow> bool" where
  "rt_matches dst r \<longleftrightarrow> same_prefix (unat (rt_prefix_length r)) dst (rt_route_prefix r)"

text \<open>The reference: among the routes that match, the first one with the largest prefix length.\<close>

definition longest_match :: "u32 \<Rightarrow> Route list \<Rightarrow> Route option" where
  "longest_match dst routes =
     (let ms = filter (rt_matches dst) routes
      in if ms = [] then None
         else find (\<lambda>r. rt_prefix_length r = Max (set (map rt_prefix_length ms))) ms)"

definition rt_wf :: "Route \<Rightarrow> bool" where
  "rt_wf r \<longleftrightarrow> unat (rt_prefix_length r) \<le> 32"

lemma ro_mask_match:
  assumes "unat k \<le> 32"
  obtains m where "ro_mask k = Some m" "and a m = and b m \<longleftrightarrow> same_prefix (unat k) a b"
proof (cases "k = 0")
  case True
  have "drop_bit 32 x = 0" for x :: u32
    by (rule bit_word_eqI) (auto simp: bit_drop_bit_eq dest: bit_imp_le_length)
  then show thesis using that[of 0] True by (simp add: ro_mask_def same_prefix_def)
next
  case False
  let ?j = "32 - unat k"
  have ones: "(0xFFFFFFFF :: u32) = - 1" by simp
  have m: "ro_mask k = Some (push_bit ?j (- 1))" unfolding ro_mask_def ones using False assms by simp
  have "and a (push_bit ?j (- 1)) = and b (push_bit ?j (- 1)) \<longleftrightarrow> same_prefix (unat k) a b"
  proof
    assume e: "and a (push_bit ?j (- 1)) = and b (push_bit ?j (- 1))"
    have "drop_bit ?j a = drop_bit ?j (and a (push_bit ?j (- 1)))" for a :: u32
      by (rule bit_word_eqI) (use bit_imp_le_length[of a] in \<open>auto simp: bit_simps\<close>)
    then show "same_prefix (unat k) a b" unfolding same_prefix_def using e by metis
  next
    assume e: "same_prefix (unat k) a b"
    have "and a (push_bit ?j (- 1)) = push_bit ?j (drop_bit ?j a)" for a :: u32
      by (rule bit_word_eqI) (auto simp: bit_simps)
    then show "and a (push_bit ?j (- 1)) = and b (push_bit ?j (- 1))" using e by (simp add: same_prefix_def)
  qed
  with m show thesis by (rule that)
qed

text \<open>The loop keeps the first of the longest matches seen so far.\<close>

definition better :: "Route option \<Rightarrow> Route \<Rightarrow> Route option" where
  "better best r = (case best of None \<Rightarrow> Some r
     | Some b \<Rightarrow> if rt_prefix_length r > rt_prefix_length b then Some r else best)"

lemma ro_best_match_fold:
  "list_all rt_wf routes \<Longrightarrow> ro_best_match dst routes best = Inr (foldl better best (filter (rt_matches dst) routes))"
proof (induction routes arbitrary: best)
  case (Cons r routes)
  have "unat (rt_prefix_length r) \<le> 32" using Cons.prems by (simp add: rt_wf_def)
  then obtain m where m: "ro_mask (rt_prefix_length r) = Some m"
    "and dst m = and (rt_route_prefix r) m \<longleftrightarrow> rt_matches dst r"
    using ro_mask_match unfolding rt_matches_def by metis
  show ?case using Cons.IH Cons.prems m(2) by (simp add: m(1) better_def[symmetric])
qed simp

lemma find_snoc: "find P (xs @ [x]) = (case find P xs of None \<Rightarrow> if P x then Some x else None | Some y \<Rightarrow> Some y)"
  by (induction xs) simp_all

lemma foldl_better:
  "ms \<noteq> [] \<Longrightarrow> foldl better None ms = find (\<lambda>r. rt_prefix_length r = Max (set (map rt_prefix_length ms))) ms \<and>
     foldl better None ms \<noteq> None"
proof (induction ms rule: rev_induct)
  case (snoc r ms)
  show ?case
  proof (cases "ms = []")
    case True
    then show ?thesis by (simp add: better_def)
  next
    case False
    let ?M = "Max (set (map rt_prefix_length ms))"
    obtain b where b: "foldl better None ms = Some b" "find (\<lambda>r. rt_prefix_length r = ?M) ms = Some b"
      using snoc.IH[OF False] by (metis option.exhaust)
    then have bM: "rt_prefix_length b = ?M" by (auto simp: find_Some_iff)
    have le: "rt_prefix_length x \<le> ?M" if "x \<in> set ms" for x using that by simp
    have M: "Max (set (map rt_prefix_length (ms @ [r]))) = max (rt_prefix_length r) ?M" using False by simp
    show ?thesis
    proof (cases "?M < rt_prefix_length r")
      case True
      have "rt_prefix_length x \<noteq> rt_prefix_length r" if "x \<in> set ms" for x
        using le[OF that] True by auto
      then have "find (\<lambda>x. rt_prefix_length x = rt_prefix_length r) ms = None"
        by (auto simp: find_None_iff)
      moreover have "max (rt_prefix_length r) ?M = rt_prefix_length r" using True by simp
      moreover have "better (Some b) r = Some r" using True bM by (simp add: better_def)
      ultimately show ?thesis unfolding M find_snoc foldl_append foldl.simps b(1) by simp
    next
      case not: False
      then have "max (rt_prefix_length r) ?M = ?M" by (intro max_absorb2) (simp add: not_less)
      moreover have "better (Some b) r = Some b" using not bM by (simp add: better_def)
      ultimately show ?thesis unfolding M find_snoc foldl_append foldl.simps b(1) using b(2) by simp
    qed
  qed
qed simp

lemma ro_best_match_longest:
  assumes "list_all rt_wf routes"
  shows "ro_best_match dst routes None = Inr (longest_match dst routes)"
  unfolding ro_best_match_fold[OF assms] longest_match_def Let_def using foldl_better by auto

section \<open>Forwarding\<close>

definition dg_hop :: "IPv4Datagram \<Rightarrow> IPv4Datagram" where
  "dg_hop d = d\<lparr>dg_header := (dg_header d)\<lparr>ip_ttl := ip_ttl (dg_header d) - 1\<rparr>\<rparr>"

definition hop_address :: "IPv4Datagram \<Rightarrow> Route \<Rightarrow> Address" where
  "hop_address d r = (case rt_next_hop r of Some a \<Rightarrow> a | None \<Rightarrow> ad_ipv4 0 (ip_dst (dg_header d)))"

lemma dg_valid_hop: "dg_valid (dg_hop d) = dg_valid d"
  by (simp add: dg_valid_def dg_hop_def ip_wf_def)

lemma ro_route_one_eq:
  assumes "list_all rt_wf (ro_routes ro)" "1 < ip_ttl (dg_header d)"
  shows "ro_route_one_datagram d ro =
    (case longest_match (ip_dst (dg_header d)) (ro_routes ro) of
       None \<Rightarrow> Inr ro
     | Some r \<Rightarrow> ro_send (rt_interface_num r) (dg_hop d) (hop_address d r) ro)"
  using assms(2)
  by (auto simp: ro_route_one_datagram_def ro_best_match_longest[OF assms(1)] hop_address_def dg_hop_def
      ad_from_ipv4 Let_def split: option.split)

text \<open>A router whose routes make sense and whose interfaces are in order.\<close>

definition ro_fine :: "Router \<Rightarrow> bool" where
  "ro_fine ro \<longleftrightarrow>
     (\<forall>r\<in>set (ro_routes ro). rt_wf r \<and> rt_interface_num r < length (ro_interfaces ro) \<and>
        (case rt_next_hop r of None \<Rightarrow> True | Some a \<Rightarrow> \<exists>ip. ad_ipv4_numeric a = Inr ip)) \<and>
     (\<forall>a\<in>set (ro_interfaces ro). ni_fine (an_interface a) \<and> (\<forall>d\<in>set (an_datagrams_out a). dg_valid d))"

lemma longest_match_in: "longest_match dst routes = Some r \<Longrightarrow> r \<in> set routes \<and> rt_matches dst r"
  by (auto simp: longest_match_def Let_def find_Some_iff split: if_splits) (metis mem_Collect_eq nth_mem set_filter)+

lemma dg_valid_serialize: "dg_valid d \<Longrightarrow> dg_serialize d \<noteq> None"
  using ipv4.roundtrip by blast

lemma ro_send_fine:
  assumes ro: "ro_fine ro" and k: "k < length (ro_interfaces ro)" and d: "dg_valid d"
    and hop: "ad_ipv4_numeric hop = Inr ip"
  obtains ro' where "ro_send k d hop ro = Inr ro'" "ro_fine ro'"
proof -
  let ?a = "ro_interfaces ro ! k"
  have a: "ni_fine (an_interface ?a)" "\<forall>d\<in>set (an_datagrams_out ?a). dg_valid d"
    using ro k by (auto simp: ro_fine_def)
  have op: "ni_op_fine (NiSend d hop)" using dg_valid_serialize[OF d] hop by simp
  have "ni_current_time (an_interface ?a) + ni_op_time (NiSend d hop) < two64"
    using a(1) by (simp add: ni_fine_def ni_ok_def)
  from ni_exec_fine[OF a(1) op this] obtain n where n: "ni_send_datagram d hop (an_interface ?a) = Inr n" "ni_fine n"
    by auto
  have "ro_fine (ro\<lparr>ro_interfaces := (ro_interfaces ro)[k := ?a\<lparr>an_interface := n\<rparr>]\<rparr>)"
    using ro n(2) a(2) set_update_subset_insert[of "ro_interfaces ro" k "?a\<lparr>an_interface := n\<rparr>"]
    by (fastforce simp: ro_fine_def)
  then show thesis using that n(1) k by (simp add: ro_send_def)
qed

lemma ro_route_one_fine:
  assumes ro: "ro_fine ro" and d: "dg_valid d"
  obtains ro' where "ro_route_one_datagram d ro = Inr ro'" "ro_fine ro'"
proof (cases "1 < ip_ttl (dg_header d)")
  case True
  have wf: "list_all rt_wf (ro_routes ro)" using ro by (auto simp: ro_fine_def list_all_iff)
  note eq = ro_route_one_eq[OF wf True]
  show thesis
  proof (cases "longest_match (ip_dst (dg_header d)) (ro_routes ro)")
    case None
    then show ?thesis using that eq ro by simp
  next
    case (Some r)
    then have r: "r \<in> set (ro_routes ro)" using longest_match_in by blast
    then have k: "rt_interface_num r < length (ro_interfaces ro)" using ro by (simp add: ro_fine_def)
    obtain ip where ip: "ad_ipv4_numeric (hop_address d r) = Inr ip"
      using ro r by (cases "rt_next_hop r") (fastforce simp: ro_fine_def hop_address_def)+
    have "dg_valid (dg_hop d)" using d by (simp add: dg_valid_hop)
    from ro_send_fine[OF ro k this ip] show ?thesis using that eq Some by (metis option.simps(5))
  qed
next
  case False
  then show thesis using that ro by (simp add: ro_route_one_datagram_def not_less)
qed

lemma set_tl: "set (tl xs) \<subseteq> set xs"
  by (cases xs) auto

lemma ro_fine_pop: "ro_fine ro \<Longrightarrow> i < length (ro_interfaces ro) \<Longrightarrow> ro_fine (ro_pop i ro)"
proof -
  assume ro: "ro_fine ro" and i: "i < length (ro_interfaces ro)"
  let ?a = "(ro_interfaces ro ! i)\<lparr>an_datagrams_out := tl (ro_queue i ro)\<rparr>"
  have "ni_fine (an_interface ?a) \<and> (\<forall>d\<in>set (an_datagrams_out ?a). dg_valid d)"
    using ro nth_mem[OF i] set_tl[of "ro_queue i ro"] by (auto simp: ro_fine_def ro_queue_def)
  then show ?thesis
    using ro set_update_subset_insert[of "ro_interfaces ro" i ?a] by (fastforce simp: ro_fine_def ro_pop_def)
qed

lemma ro_drain_fine:
  assumes "ro_fine ro" "i < length (ro_interfaces ro)"
  shows "\<exists>ro'. ro_drain i ro = Inr ro' \<and> ro_fine ro' \<and> ro_queue i ro' = [] \<and> ro_routes ro' = ro_routes ro \<and>
    length (ro_interfaces ro') = length (ro_interfaces ro) \<and> (\<forall>j<length (ro_interfaces ro). j \<noteq> i \<longrightarrow> ro_queue j ro' = ro_queue j ro)"
  using assms
proof (induction i ro rule: ro_drain.induct)
  case (1 i ro)
  show ?case
  proof (cases "ro_queue i ro = []")
    case True
    then show ?thesis using "1.prems" by (subst ro_drain.simps) simp
  next
    case False
    have "dg_valid (hd (ro_queue i ro))"
      using "1.prems"(1) nth_mem[OF "1.prems"(2)] hd_in_set[OF False] by (auto simp: ro_fine_def ro_queue_def)
    then obtain r1 where r1: "ro_route_one_datagram (hd (ro_queue i ro)) ro = Inr r1" "ro_fine r1"
      using ro_route_one_fine[OF "1.prems"(1)] by blast
    note k = ro_route_one_keeps[OF r1(1)]
    have q: "ro_queue j r1 = ro_queue j ro" if "j < length (ro_interfaces ro)" for j
      using that k by (simp add: ro_queue_eq)
    have i: "i < length (ro_interfaces r1)" using "1.prems"(2) k(1) by simp
    note pop = ro_queue_pop[OF i]
    obtain r2 where r2: "ro_drain i (ro_pop i r1) = Inr r2" "ro_fine r2" "ro_queue i r2 = []"
      "ro_routes r2 = ro_routes ro" "length (ro_interfaces r2) = length (ro_interfaces ro)"
      "\<forall>j<length (ro_interfaces ro). j \<noteq> i \<longrightarrow> ro_queue j r2 = ro_queue j r1"
      using "1.IH"[OF _ r1(1) ro_fine_pop[OF r1(2) i]] False "1.prems"(2) pop k by auto
    have "ro_drain i ro = Inr r2" using False "1.prems"(2) r1(1) r2(1) by (subst ro_drain.simps) simp
    then show ?thesis using r2(2-6) q by auto
  qed
qed

lemma ro_route_loop_fine:
  assumes "ro_fine ro" "\<forall>i\<in>set is. i < length (ro_interfaces ro)" "distinct is"
  shows "\<exists>ro'. ro_route_loop is ro = Inr ro' \<and> ro_fine ro' \<and> length (ro_interfaces ro') = length (ro_interfaces ro) \<and>
    (\<forall>i\<in>set is. ro_queue i ro' = []) \<and> (\<forall>j<length (ro_interfaces ro). j \<notin> set is \<longrightarrow> ro_queue j ro' = ro_queue j ro)"
  using assms
proof (induction "is" arbitrary: ro)
  case (Cons i "is")
  have "i < length (ro_interfaces ro)" using Cons.prems(2) by simp
  from ro_drain_fine[OF Cons.prems(1) this] obtain r1 where r1: "ro_drain i ro = Inr r1" "ro_fine r1" "ro_queue i r1 = []"
    "length (ro_interfaces r1) = length (ro_interfaces ro)"
    "\<forall>j<length (ro_interfaces ro). j \<noteq> i \<longrightarrow> ro_queue j r1 = ro_queue j ro" by blast
  obtain r2 where "ro_route_loop is r1 = Inr r2" "ro_fine r2" "length (ro_interfaces r2) = length (ro_interfaces r1)"
    "\<forall>i\<in>set is. ro_queue i r2 = []" "\<forall>j<length (ro_interfaces r1). j \<notin> set is \<longrightarrow> ro_queue j r2 = ro_queue j r1"
    using Cons.IH[OF r1(2)] Cons.prems(2,3) r1(4) by auto
  then show ?case using r1 Cons.prems(2,3) by auto
qed simp

section \<open>Properties\<close>

text \<open>C24: For prefixes of at most 32 bits the loop over the routes returns the reference answer: among
  the routes whose prefix agrees with the destination on its whole length, the first one with the
  largest length, and nothing if there is none.\<close>

theorem route_lookup_longest_prefix:
  assumes "list_all rt_wf routes"
  shows "ro_best_match dst routes None = Inr (longest_match dst routes)"
  by (rule ro_best_match_longest[OF assms])

theorem route_lookup_longest_prefix_witness:
  "ro_best_match 0x0A000105 [\<lparr>rt_route_prefix = 0x0A000000, rt_prefix_length = 8, rt_next_hop = None, rt_interface_num = 0\<rparr>,
      \<lparr>rt_route_prefix = 0x0A000100, rt_prefix_length = 24, rt_next_hop = None, rt_interface_num = 1\<rparr>] None
   = Inr (longest_match 0x0A000105 [\<lparr>rt_route_prefix = 0x0A000000, rt_prefix_length = 8, rt_next_hop = None, rt_interface_num = 0\<rparr>,
      \<lparr>rt_route_prefix = 0x0A000100, rt_prefix_length = 24, rt_next_hop = None, rt_interface_num = 1\<rparr>])"
  by (rule route_lookup_longest_prefix) (simp add: rt_wf_def)



text \<open>C26: \<open>route\<close> ends with the queue of every interface empty, for every router whose routes lead to
  existing interfaces and whose queued datagrams are valid, and leaves such a router behind.\<close>

theorem route_empties_queues:
  assumes "ro_fine ro"
  shows "\<exists>ro'. ro_route ro = Inr ro' \<and> ro_fine ro' \<and> length (ro_interfaces ro') = length (ro_interfaces ro) \<and>
    list_all (\<lambda>a. an_datagrams_out a = []) (ro_interfaces ro')"
proof -
  obtain ro' where r: "ro_route ro = Inr ro'" "ro_fine ro'" "length (ro_interfaces ro') = length (ro_interfaces ro)"
    "\<forall>i\<in>set [0 ..< length (ro_interfaces ro)]. ro_queue i ro' = []"
    using ro_route_loop_fine[OF assms, of "[0 ..< length (ro_interfaces ro)]"] by (auto simp: ro_route_def)
  then have "list_all (\<lambda>a. an_datagrams_out a = []) (ro_interfaces ro')"
    by (auto simp: list_all_length ro_queue_def)
  then show ?thesis using r(1-3) by blast
qed

theorem route_empties_queues_witness:
  "\<exists>ro'. ro_route \<lparr>ro_routes = [\<lparr>rt_route_prefix = 0, rt_prefix_length = 0, rt_next_hop = None, rt_interface_num = 0\<rparr>],
       ro_interfaces = [\<lparr>an_interface = ni_new (replicate 6 2) (ad_ipv4 0 1),
         an_datagrams_out = [dg_default\<lparr>dg_header := ip_default\<lparr>ip_len := 20\<rparr>\<rparr>]\<rparr>]\<rparr> = Inr ro' \<and>
     list_all (\<lambda>a. an_datagrams_out a = []) (ro_interfaces ro')"
proof -
  let ?ro = "\<lparr>ro_routes = [\<lparr>rt_route_prefix = 0, rt_prefix_length = 0, rt_next_hop = None, rt_interface_num = 0\<rparr>],
       ro_interfaces = [\<lparr>an_interface = ni_new (replicate 6 2) (ad_ipv4 0 1),
         an_datagrams_out = [dg_default\<lparr>dg_header := ip_default\<lparr>ip_len := 20\<rparr>\<rparr>]\<rparr>]\<rparr>"
  have "dg_valid (dg_default\<lparr>dg_header := ip_default\<lparr>ip_len := 20\<rparr>\<rparr>)"
    by (simp add: dg_valid_def ip_wf_def dg_default_def ip_default_def)
  moreover have "ni_fine (ni_new (replicate 6 2) (ad_ipv4 0 1))" by (rule ni_fine_new) simp_all
  ultimately have "ro_fine ?ro" by (simp add: ro_fine_def rt_wf_def)
  then show ?thesis using route_empties_queues[of ?ro] by blast
qed

end
