(* ===== verification/Network_Simulator.thy ===== *)
theory Network_Simulator
  imports Router
begin

text \<open>
  The network simulator (\<^verbatim>\<open>apps/network_simulator.cc\<close>): six hosts around one router, joined by links that
  carry Ethernet frames. The program's state is the network, the lines written to \<^verbatim>\<open>cerr\<close> and the random
  generator. The generator, \<^verbatim>\<open>getaddrinfo\<close> and \<^verbatim>\<open>getnameinfo\<close> are arguments. The
  iteration over the unordered map of hosts goes in the order in which the hosts were inserted; the
  order decides only which of several failures is reported. The coloured headings are left out.
\<close>

section \<open>Addresses and text\<close>

datatype sim_error = SimRuntime string | SimInterface ni_error | SimRouter router_error | SimAddress addr_error
  | SimBadDatagram | SimUndefined

fun random_bytes :: "nat \<Rightarrow> ('g \<Rightarrow> u32 \<times> 'g) \<Rightarrow> 'g \<Rightarrow> bytes \<times> 'g" where
  "random_bytes 0 rd g = ([], g)"
| "random_bytes (Suc n) rd g =
     (case rd g of (r, g1) \<Rightarrow> case random_bytes n rd g1 of (bytes, g2) \<Rightarrow> (ucast r # bytes, g2))"

definition random_host_ethernet_address :: "('g \<Rightarrow> u32 \<times> 'g) \<Rightarrow> 'g \<Rightarrow> EthernetAddress \<times> 'g" where
  "random_host_ethernet_address rd g =
     (case random_bytes 6 rd g of (addr, g') \<Rightarrow> (addr[0 := (addr ! 0 OR 0x02) AND 0xfe], g'))"

definition random_router_ethernet_address :: "('g \<Rightarrow> u32 \<times> 'g) \<Rightarrow> 'g \<Rightarrow> EthernetAddress \<times> 'g" where
  "random_router_ethernet_address rd g =
     (case random_bytes 6 rd g of (addr, g') \<Rightarrow> (addr[0 := 0x02, 1 := 0, 2 := 0], g'))"

definition sim_address :: "resolver \<Rightarrow> string \<Rightarrow> sim_error + Address" where
  "sim_address getaddrinfo str = (case ad_new_port getaddrinfo str 0 of Inl e \<Rightarrow> Inl (SimAddress e) | Inr a \<Rightarrow> Inr a)"

definition sim_ip :: "resolver \<Rightarrow> string \<Rightarrow> sim_error + u32" where
  "sim_ip getaddrinfo str =
     (case sim_address getaddrinfo str of
        Inl e \<Rightarrow> Inl e
      | Inr a \<Rightarrow> (case ad_ipv4_numeric a of Inl e \<Rightarrow> Inl (SimAddress e) | Inr n \<Rightarrow> Inr n))"

fun sim_clear :: "'a list \<Rightarrow> 'a list \<Rightarrow> 'a list option" where
  "sim_clear [] queue2 = Some queue2"
| "sim_clear (_ # queue1) queue2 = (case queue2 of [] \<Rightarrow> None | _ # rest \<Rightarrow> sim_clear queue1 rest)"

definition text_of_bytes :: "bytes \<Rightarrow> string" where
  "text_of_bytes = map (\<lambda>b. char_of (unat b))"

definition summary :: "EthernetFrame \<Rightarrow> string" where
  "summary frame =
     eh_to_string (ef_header frame) @
     (if eh_type (ef_header frame) = TYPE_IPv4 then
        (case dg_parse dg_default (concat (ef_payload frame)) of (dgram, result) \<Rightarrow>
           if result = NoError
           then '' '' @ ip_summary (dg_header dgram) @ '' payload=\"'' @ text_of_bytes (concat (dg_payload dgram)) @ ''\"''
           else '' (bad IPv4)'')
      else if eh_type (ef_header frame) = TYPE_ARP then
        (case arp_parse arp_default (concat (ef_payload frame)) of (arp, result) \<Rightarrow>
           if result = NoError then '' '' @ arp_to_string arp else '' (bad ARP)'')
      else [])"

section \<open>Hosts\<close>

record Host =
  ho_name :: string
  ho_my_address :: Address
  ho_interface :: AsyncNetworkInterface
  ho_next_hop :: Address
  ho_expecting_to_receive :: "IPv4Datagram list"

definition ho_new :: "('g \<Rightarrow> u32 \<times> 'g) \<Rightarrow> string \<Rightarrow> Address \<Rightarrow> Address \<Rightarrow> 'g \<Rightarrow> Host \<times> 'g" where
  "ho_new rd name my_address next_hop g =
     (case random_host_ethernet_address rd g of (ethernet_address, g') \<Rightarrow>
        (\<lparr>ho_name = name, ho_my_address = my_address, ho_interface = an_new (ni_new ethernet_address my_address),
          ho_next_hop = next_hop, ho_expecting_to_receive = []\<rparr>, g'))"

definition same_wire :: "IPv4Datagram \<Rightarrow> IPv4Datagram \<Rightarrow> sim_error + bool" where
  "same_wire x expected =
     (case (dg_serialize x, dg_serialize expected) of
        (Some a, Some b) \<Rightarrow> Inr (concat a = concat b)
      | _ \<Rightarrow> Inl SimBadDatagram)"

fun ho_expecting :: "IPv4Datagram \<Rightarrow> IPv4Datagram list \<Rightarrow> sim_error + bool" where
  "ho_expecting expected [] = Inr False"
| "ho_expecting expected (x # xs) =
     (case same_wire x expected of
        Inl e \<Rightarrow> Inl e
      | Inr b \<Rightarrow> if b then Inr True else ho_expecting expected xs)"

fun ho_remove_expectation :: "IPv4Datagram \<Rightarrow> IPv4Datagram list \<Rightarrow> sim_error + IPv4Datagram list" where
  "ho_remove_expectation expected [] = Inr []"
| "ho_remove_expectation expected (x # xs) =
     (case same_wire x expected of
        Inl e \<Rightarrow> Inl e
      | Inr b \<Rightarrow>
          if b then Inr xs
          else (case ho_remove_expectation expected xs of Inl e \<Rightarrow> Inl e | Inr ys \<Rightarrow> Inr (x # ys)))"

definition ho_expect :: "IPv4Datagram \<Rightarrow> Host \<Rightarrow> Host" where
  "ho_expect expected h = h\<lparr>ho_expecting_to_receive := ho_expecting_to_receive h @ [expected]\<rparr>"

definition describe :: "IPv4Datagram \<Rightarrow> string" where
  "describe dgram = ip_summary (dg_header dgram) @ '' payload=\"'' @ text_of_bytes (concat (dg_payload dgram)) @ ''\"''"

text \<open>The queue of received datagrams, one after the other.\<close>

fun ho_check_loop :: "string \<Rightarrow> IPv4Datagram list \<Rightarrow> IPv4Datagram list \<Rightarrow> sim_error + IPv4Datagram list" where
  "ho_check_loop name [] expectations = Inr expectations"
| "ho_check_loop name (dgram_received # datagrams) expectations =
     (case ho_expecting dgram_received expectations of
        Inl e \<Rightarrow> Inl e
      | Inr False \<Rightarrow>
          Inl (SimRuntime (''Host '' @ name @ '' received unexpected Internet datagram: '' @ describe dgram_received))
      | Inr True \<Rightarrow>
          (case ho_remove_expectation dgram_received expectations of
             Inl e \<Rightarrow> Inl e
           | Inr expectations' \<Rightarrow> ho_check_loop name datagrams expectations'))"

definition ho_check :: "Host \<Rightarrow> sim_error + Host" where
  "ho_check h =
     (case ho_check_loop (ho_name h) (an_datagrams_out (ho_interface h)) (ho_expecting_to_receive h) of
        Inl e \<Rightarrow> Inl e
      | Inr [] \<Rightarrow>
          Inr (h\<lparr>ho_interface := (ho_interface h)\<lparr>an_datagrams_out := []\<rparr>, ho_expecting_to_receive := []\<rparr>)
      | Inr (expected # _) \<Rightarrow>
          Inl (SimRuntime (''Host '' @ ho_name h @ '' did NOT receive an expected Internet datagram: '' @ describe expected)))"

definition bytes_of_text :: "string \<Rightarrow> bytes" where
  "bytes_of_text = map (\<lambda>c. of_nat (of_char c))"

definition ho_datagram :: "u32 \<Rightarrow> u32 \<Rightarrow> u32 \<Rightarrow> u8 \<Rightarrow> IPv4Datagram" where
  "ho_datagram src dst number ttl =
     (let payload = bytes_of_text (''random payload: {'' @ show_dec (unat number) @ ''}'')
      in \<lparr>dg_header = ip_default\<lparr>ip_src := src, ip_dst := dst,
            ip_len := ucast (ip_hlen ip_default) * 4 + of_nat (length payload), ip_ttl := ttl\<rparr>,
          dg_payload = [payload]\<rparr>)"

definition ho_send_to :: "('g \<Rightarrow> u32 \<times> 'g) \<Rightarrow> reverse_lookup \<Rightarrow> Address \<Rightarrow> u8 \<Rightarrow> Host \<Rightarrow> 'g \<Rightarrow>
    sim_error + (IPv4Datagram \<times> string) \<times> Host \<times> 'g" where
  "ho_send_to rd getnameinfo destination ttl h g =
     (case ad_ipv4_numeric (ho_my_address h) of
        Inl e \<Rightarrow> Inl (SimAddress e)
      | Inr src \<Rightarrow>
     (case ad_ipv4_numeric destination of
        Inl e \<Rightarrow> Inl (SimAddress e)
      | Inr dst \<Rightarrow>
     (case rd g of (number, g') \<Rightarrow>
        let dgram = ho_datagram src dst number ttl
        in case ni_send_datagram dgram (ho_next_hop h) (an_interface (ho_interface h)) of
             Inl e \<Rightarrow> Inl (SimInterface e)
           | Inr n \<Rightarrow>
               (case ad_ip_port getnameinfo (ho_next_hop h) of
                  Inl e \<Rightarrow> Inl (SimAddress e)
                | Inr (ip, _) \<Rightarrow>
                    Inr ((dgram, ''Host '' @ ho_name h @ '' trying to send datagram (with next hop = '' @ ip @ ''): '' @ describe dgram),
                         h\<lparr>ho_interface := (ho_interface h)\<lparr>an_interface := n\<rparr>\<rparr>, g')))))"

section \<open>Links\<close>

fun deliver :: "string \<Rightarrow> EthernetFrame list \<Rightarrow> string \<Rightarrow> AsyncNetworkInterface \<times> string list \<Rightarrow>
    sim_error + AsyncNetworkInterface \<times> string list" where
  "deliver src_name [] dst_name (dst, cerr) = Inr (dst, cerr)"
| "deliver src_name (front # to_send) dst_name (dst, cerr) =
     (let front = front\<lparr>ef_payload := [concat (ef_payload front)]\<rparr>;
          cerr = cerr @ [''Transferring frame from '' @ src_name @ '' to '' @ dst_name @ '': '' @ summary front]
      in case an_recv_frame front dst of
           Inl e \<Rightarrow> Inl (SimInterface e)
         | Inr dst' \<Rightarrow> deliver src_name to_send dst_name (dst', cerr))"

definition frames_out :: "AsyncNetworkInterface \<Rightarrow> EthernetFrame list" where
  "frames_out x = ni_frames_out (an_interface x)"

definition clear_frames :: "EthernetFrame list \<Rightarrow> AsyncNetworkInterface \<Rightarrow> sim_error + AsyncNetworkInterface" where
  "clear_frames frames x =
     (case sim_clear frames (frames_out x) of
        None \<Rightarrow> Inl SimUndefined
      | Some q \<Rightarrow> Inr (x\<lparr>an_interface := (an_interface x)\<lparr>ni_frames_out := q\<rparr>\<rparr>))"

definition exchange_frames :: "string \<Rightarrow> AsyncNetworkInterface \<Rightarrow> string \<Rightarrow> AsyncNetworkInterface \<Rightarrow> string list \<Rightarrow>
    sim_error + AsyncNetworkInterface \<times> AsyncNetworkInterface \<times> string list" where
  "exchange_frames x_name x y_name y cerr =
     (let x_frames = frames_out x; y_frames = frames_out y
      in case deliver x_name x_frames y_name (y, cerr) of Inl e \<Rightarrow> Inl e | Inr (y, cerr) \<Rightarrow>
         (case deliver y_name y_frames x_name (x, cerr) of Inl e \<Rightarrow> Inl e | Inr (x, cerr) \<Rightarrow>
         (case clear_frames x_frames x of Inl e \<Rightarrow> Inl e | Inr x \<Rightarrow>
         (case clear_frames y_frames y of Inl e \<Rightarrow> Inl e | Inr y \<Rightarrow> Inr (x, y, cerr)))))"

definition exchange_frames3 :: "string \<Rightarrow> AsyncNetworkInterface \<Rightarrow> string \<Rightarrow> AsyncNetworkInterface \<Rightarrow>
    string \<Rightarrow> AsyncNetworkInterface \<Rightarrow> string list \<Rightarrow>
    sim_error + AsyncNetworkInterface \<times> AsyncNetworkInterface \<times> AsyncNetworkInterface \<times> string list" where
  "exchange_frames3 x_name x y_name y z_name z cerr =
     (let x_frames = frames_out x; y_frames = frames_out y; z_frames = frames_out z
      in case deliver x_name x_frames y_name (y, cerr) of Inl e \<Rightarrow> Inl e | Inr (y, cerr) \<Rightarrow>
         (case deliver x_name x_frames z_name (z, cerr) of Inl e \<Rightarrow> Inl e | Inr (z, cerr) \<Rightarrow>
         (case deliver y_name y_frames x_name (x, cerr) of Inl e \<Rightarrow> Inl e | Inr (x, cerr) \<Rightarrow>
         (case deliver y_name y_frames z_name (z, cerr) of Inl e \<Rightarrow> Inl e | Inr (z, cerr) \<Rightarrow>
         (case deliver z_name z_frames x_name (x, cerr) of Inl e \<Rightarrow> Inl e | Inr (x, cerr) \<Rightarrow>
         (case deliver z_name z_frames y_name (y, cerr) of Inl e \<Rightarrow> Inl e | Inr (y, cerr) \<Rightarrow>
         (case clear_frames x_frames x of Inl e \<Rightarrow> Inl e | Inr x \<Rightarrow>
         (case clear_frames y_frames y of Inl e \<Rightarrow> Inl e | Inr y \<Rightarrow>
         (case clear_frames z_frames z of Inl e \<Rightarrow> Inl e | Inr z \<Rightarrow> Inr (x, y, z, cerr))))))))))"

section \<open>The network\<close>

record Network =
  nw_router :: Router
  nw_default_id :: nat
  nw_eth0_id :: nat
  nw_eth1_id :: nat
  nw_eth2_id :: nat
  nw_uun3_id :: nat
  nw_hs4_id :: nat
  nw_mit5_id :: nat
  nw_hosts :: "(string \<times> Host) list"

text \<open>\<open>host\<close> gives a reference: looking a host up and storing it back.\<close>

definition nw_host :: "string \<Rightarrow> Network \<Rightarrow> sim_error + Host" where
  "nw_host name nw =
     (case map_of (nw_hosts nw) name of
        None \<Rightarrow> Inl (SimRuntime (''unknown host: '' @ name))
      | Some h \<Rightarrow> if ho_name h \<noteq> name then Inl (SimRuntime (''invalid host: '' @ name)) else Inr h)"

definition nw_set_host :: "string \<Rightarrow> Host \<Rightarrow> Network \<Rightarrow> Network" where
  "nw_set_host name h nw = nw\<lparr>nw_hosts := map (\<lambda>(k, v). (k, if k = name then h else v)) (nw_hosts nw)\<rparr>"

definition nw_interface :: "nat \<Rightarrow> Network \<Rightarrow> sim_error + AsyncNetworkInterface" where
  "nw_interface i nw = (case ro_interface i (nw_router nw) of Inl e \<Rightarrow> Inl (SimRouter e) | Inr a \<Rightarrow> Inr a)"

definition nw_set_interface :: "nat \<Rightarrow> AsyncNetworkInterface \<Rightarrow> Network \<Rightarrow> Network" where
  "nw_set_interface i a nw = nw\<lparr>nw_router := (nw_router nw)\<lparr>ro_interfaces := (ro_interfaces (nw_router nw))[i := a]\<rparr>\<rparr>"

definition ho_set_interface :: "AsyncNetworkInterface \<Rightarrow> Host \<Rightarrow> Host" where
  "ho_set_interface a h = h\<lparr>ho_interface := a\<rparr>"

text \<open>The constructor: seven interfaces, six hosts, nine routes.\<close>

definition sim_add_interface :: "('g \<Rightarrow> u32 \<times> 'g) \<Rightarrow> resolver \<Rightarrow> string \<Rightarrow> Router \<times> 'g \<Rightarrow> sim_error + nat \<times> Router \<times> 'g" where
  "sim_add_interface rd getaddrinfo str st =
     (case st of (router, g) \<Rightarrow>
        case random_router_ethernet_address rd g of (ethernet_address, g') \<Rightarrow>
          (case sim_address getaddrinfo str of
             Inl e \<Rightarrow> Inl e
           | Inr a \<Rightarrow>
               (case ro_add_interface (an_new (ni_new ethernet_address a)) router of (router', i) \<Rightarrow> Inr (i, router', g'))))"

definition sim_add_host :: "('g \<Rightarrow> u32 \<times> 'g) \<Rightarrow> resolver \<Rightarrow> string \<Rightarrow> string \<Rightarrow> string \<Rightarrow> (string \<times> Host) list \<times> 'g \<Rightarrow>
    sim_error + (string \<times> Host) list \<times> 'g" where
  "sim_add_host rd getaddrinfo name my_address next_hop st =
     (case st of (hosts, g) \<Rightarrow>
        (case sim_address getaddrinfo my_address of
           Inl e \<Rightarrow> Inl e
         | Inr a \<Rightarrow>
             (case sim_address getaddrinfo next_hop of
                Inl e \<Rightarrow> Inl e
              | Inr b \<Rightarrow>
                  (case ho_new rd name a b g of (h, g') \<Rightarrow>
                     Inr (if map_of hosts name = None then hosts @ [(name, h)] else hosts, g')))))"

definition sim_add_route :: "resolver \<Rightarrow> string \<Rightarrow> u8 \<Rightarrow> (Network \<Rightarrow> sim_error + Address option) \<Rightarrow> (Network \<Rightarrow> nat) \<Rightarrow>
    Network \<Rightarrow> sim_error + Network" where
  "sim_add_route getaddrinfo prefix prefix_length next_hop interface_num nw =
     (case sim_ip getaddrinfo prefix of
        Inl e \<Rightarrow> Inl e
      | Inr route_prefix \<Rightarrow>
          (case next_hop nw of
             Inl e \<Rightarrow> Inl e
           | Inr hop \<Rightarrow>
               Inr (nw\<lparr>nw_router := ro_add_route route_prefix prefix_length hop (interface_num nw) (nw_router nw)\<rparr>)))"

definition via_host :: "string \<Rightarrow> Network \<Rightarrow> sim_error + Address option" where
  "via_host name nw = (case nw_host name nw of Inl e \<Rightarrow> Inl e | Inr h \<Rightarrow> Inr (Some (ho_my_address h)))"

definition via_address :: "resolver \<Rightarrow> string \<Rightarrow> Network \<Rightarrow> sim_error + Address option" where
  "via_address getaddrinfo str nw = (case sim_address getaddrinfo str of Inl e \<Rightarrow> Inl e | Inr a \<Rightarrow> Inr (Some a))"

definition attached :: "Network \<Rightarrow> sim_error + Address option" where
  "attached nw = Inr None"

definition sum_bind :: "'e + 'a \<Rightarrow> ('a \<Rightarrow> 'e + 'b) \<Rightarrow> 'e + 'b" where
  "sum_bind r f = (case r of Inl e \<Rightarrow> Inl e | Inr a \<Rightarrow> f a)"

definition nw_interfaces :: "('g \<Rightarrow> u32 \<times> 'g) \<Rightarrow> resolver \<Rightarrow> 'g \<Rightarrow> sim_error + Network \<times> 'g" where
  "nw_interfaces rd getaddrinfo g =
     sum_bind (sim_add_interface rd getaddrinfo ''171.67.76.46'' (ro_new, g)) (\<lambda>(default_id, st).
     sum_bind (sim_add_interface rd getaddrinfo ''10.0.0.1'' st) (\<lambda>(eth0_id, st).
     sum_bind (sim_add_interface rd getaddrinfo ''172.16.0.1'' st) (\<lambda>(eth1_id, st).
     sum_bind (sim_add_interface rd getaddrinfo ''192.168.0.1'' st) (\<lambda>(eth2_id, st).
     sum_bind (sim_add_interface rd getaddrinfo ''198.178.229.1'' st) (\<lambda>(uun3_id, st).
     sum_bind (sim_add_interface rd getaddrinfo ''143.195.0.2'' st) (\<lambda>(hs4_id, st).
     sum_bind (sim_add_interface rd getaddrinfo ''128.30.76.255'' st) (\<lambda>(mit5_id, router, g).
       Inr (\<lparr>nw_router = router, nw_default_id = default_id, nw_eth0_id = eth0_id, nw_eth1_id = eth1_id,
              nw_eth2_id = eth2_id, nw_uun3_id = uun3_id, nw_hs4_id = hs4_id, nw_mit5_id = mit5_id, nw_hosts = []\<rparr>, g))))))))"

definition nw_add_hosts :: "('g \<Rightarrow> u32 \<times> 'g) \<Rightarrow> resolver \<Rightarrow> 'g \<Rightarrow> sim_error + (string \<times> Host) list \<times> 'g" where
  "nw_add_hosts rd getaddrinfo g =
     sum_bind (sim_add_host rd getaddrinfo ''applesauce'' ''10.0.0.2'' ''10.0.0.1'' ([], g)) (\<lambda>st.
     sum_bind (sim_add_host rd getaddrinfo ''default_router'' ''171.67.76.1'' ''0'' st) (\<lambda>st.
     sum_bind (sim_add_host rd getaddrinfo ''cherrypie'' ''192.168.0.2'' ''192.168.0.1'' st) (\<lambda>st.
     sum_bind (sim_add_host rd getaddrinfo ''hs_router'' ''143.195.0.1'' ''0'' st) (\<lambda>st.
     sum_bind (sim_add_host rd getaddrinfo ''dm42'' ''198.178.229.42'' ''198.178.229.1'' st) (\<lambda>st.
     sim_add_host rd getaddrinfo ''dm43'' ''198.178.229.43'' ''198.178.229.1'' st)))))"

definition nw_add_routes :: "resolver \<Rightarrow> Network \<Rightarrow> sim_error + Network" where
  "nw_add_routes getaddrinfo nw =
     sum_bind (sim_add_route getaddrinfo ''0.0.0.0'' 0 (via_host ''default_router'') nw_default_id nw) (\<lambda>nw.
     sum_bind (sim_add_route getaddrinfo ''10.0.0.0'' 8 attached nw_eth0_id nw) (\<lambda>nw.
     sum_bind (sim_add_route getaddrinfo ''172.16.0.0'' 16 attached nw_eth1_id nw) (\<lambda>nw.
     sum_bind (sim_add_route getaddrinfo ''192.168.0.0'' 24 attached nw_eth2_id nw) (\<lambda>nw.
     sum_bind (sim_add_route getaddrinfo ''198.178.229.0'' 24 attached nw_uun3_id nw) (\<lambda>nw.
     sum_bind (sim_add_route getaddrinfo ''143.195.0.0'' 17 (via_host ''hs_router'') nw_hs4_id nw) (\<lambda>nw.
     sum_bind (sim_add_route getaddrinfo ''143.195.128.0'' 18 (via_host ''hs_router'') nw_hs4_id nw) (\<lambda>nw.
     sum_bind (sim_add_route getaddrinfo ''143.195.192.0'' 19 (via_host ''hs_router'') nw_hs4_id nw) (\<lambda>nw.
     sim_add_route getaddrinfo ''128.30.76.255'' 16 (via_address getaddrinfo ''128.30.0.1'') nw_mit5_id nw))))))))"

definition nw_new :: "('g \<Rightarrow> u32 \<times> 'g) \<Rightarrow> resolver \<Rightarrow> 'g \<Rightarrow> sim_error + Network \<times> 'g" where
  "nw_new rd getaddrinfo g =
     sum_bind (nw_interfaces rd getaddrinfo g) (\<lambda>(nw, g).
     sum_bind (nw_add_hosts rd getaddrinfo g) (\<lambda>(hosts, g).
     sum_bind (nw_add_routes getaddrinfo (nw\<lparr>nw_hosts := hosts\<rparr>)) (\<lambda>nw. Inr (nw, g))))"

text \<open>One link between an interface of the router and a host.\<close>

definition nw_exchange :: "string \<Rightarrow> nat \<Rightarrow> string \<Rightarrow> Network \<times> string list \<Rightarrow> sim_error + Network \<times> string list" where
  "nw_exchange x_name i y_name st =
     (case st of (nw, cerr) \<Rightarrow>
     sum_bind (nw_interface i nw) (\<lambda>x.
     sum_bind (nw_host y_name nw) (\<lambda>h.
     sum_bind (exchange_frames x_name x y_name (ho_interface h) cerr) (\<lambda>(x, y, cerr).
       Inr (nw_set_host y_name (ho_set_interface y h) (nw_set_interface i x nw), cerr)))))"

definition nw_exchange3 :: "string \<Rightarrow> nat \<Rightarrow> string \<Rightarrow> string \<Rightarrow> Network \<times> string list \<Rightarrow> sim_error + Network \<times> string list" where
  "nw_exchange3 x_name i y_name z_name st =
     (case st of (nw, cerr) \<Rightarrow>
     sum_bind (nw_interface i nw) (\<lambda>x.
     sum_bind (nw_host y_name nw) (\<lambda>h.
     sum_bind (nw_host z_name nw) (\<lambda>k.
     sum_bind (exchange_frames3 x_name x y_name (ho_interface h) z_name (ho_interface k) cerr) (\<lambda>(x, y, z, cerr).
       Inr (nw_set_host z_name (ho_set_interface z k) (nw_set_host y_name (ho_set_interface y h) (nw_set_interface i x nw)), cerr))))))"

definition simulate_physical_connections :: "Network \<times> string list \<Rightarrow> sim_error + Network \<times> string list" where
  "simulate_physical_connections st =
     sum_bind (nw_exchange ''router.default'' (nw_default_id (fst st)) ''default_router'' st) (\<lambda>st.
     sum_bind (nw_exchange ''router.eth0'' (nw_eth0_id (fst st)) ''applesauce'' st) (\<lambda>st.
     sum_bind (nw_exchange ''router.eth2'' (nw_eth2_id (fst st)) ''cherrypie'' st) (\<lambda>st.
     sum_bind (nw_exchange ''router.hs4'' (nw_hs4_id (fst st)) ''hs_router'' st) (\<lambda>st.
       nw_exchange3 ''router.uun3'' (nw_uun3_id (fst st)) ''dm42'' ''dm43'' st))))"

fun simulate_loop :: "nat \<Rightarrow> Network \<times> string list \<Rightarrow> sim_error + Network \<times> string list" where
  "simulate_loop 0 st = Inr st"
| "simulate_loop (Suc n) (nw, cerr) =
     (case ro_route (nw_router nw) of
        Inl e \<Rightarrow> Inl (SimRouter e)
      | Inr router \<Rightarrow> sum_bind (simulate_physical_connections (nw\<lparr>nw_router := router\<rparr>, cerr)) (simulate_loop n))"

fun check_hosts :: "(string \<times> Host) list \<Rightarrow> sim_error + (string \<times> Host) list" where
  "check_hosts [] = Inr []"
| "check_hosts ((name, h) # hosts) =
     sum_bind (ho_check h) (\<lambda>h. sum_bind (check_hosts hosts) (\<lambda>hosts. Inr ((name, h) # hosts)))"

definition nw_simulate :: "Network \<times> string list \<Rightarrow> sim_error + Network \<times> string list" where
  "nw_simulate st =
     sum_bind (simulate_loop 256 st) (\<lambda>(nw, cerr).
     sum_bind (check_hosts (nw_hosts nw)) (\<lambda>hosts. Inr (nw\<lparr>nw_hosts := hosts\<rparr>, cerr)))"

section \<open>The program\<close>

definition sim_send :: "('g \<Rightarrow> u32 \<times> 'g) \<Rightarrow> reverse_lookup \<Rightarrow> string \<Rightarrow> (Network \<Rightarrow> sim_error + Address) \<Rightarrow> u8 \<Rightarrow>
    Network \<times> string list \<times> 'g \<Rightarrow> sim_error + IPv4Datagram \<times> Network \<times> string list \<times> 'g" where
  "sim_send rd getnameinfo from destination ttl st =
     (case st of (nw, cerr, g) \<Rightarrow>
     sum_bind (nw_host from nw) (\<lambda>h.
     sum_bind (destination nw) (\<lambda>a.
     sum_bind (ho_send_to rd getnameinfo a ttl h g) (\<lambda>((dgram, line), h', g').
       Inr (dgram, nw_set_host from h' nw, cerr @ [line], g')))))"

text \<open>One test: \<open>from\<close> sends to the destination, and the datagram is expected one hop later at \<open>to\<close>, or
  nowhere.\<close>

definition sim_forward :: "('g \<Rightarrow> u32 \<times> 'g) \<Rightarrow> reverse_lookup \<Rightarrow> string \<Rightarrow> (Network \<Rightarrow> sim_error + Address) \<Rightarrow> string \<Rightarrow>
    Network \<times> string list \<times> 'g \<Rightarrow> sim_error + Network \<times> string list \<times> 'g" where
  "sim_forward rd getnameinfo from destination to st =
     sum_bind (sim_send rd getnameinfo from destination 64 st) (\<lambda>(dgram_sent, nw, cerr, g).
     sum_bind (nw_host to nw) (\<lambda>h.
     sum_bind (nw_simulate (nw_set_host to (ho_expect (dg_hop dgram_sent) h) nw, cerr)) (\<lambda>(nw, cerr). Inr (nw, cerr, g))))"

definition sim_expire :: "('g \<Rightarrow> u32 \<times> 'g) \<Rightarrow> reverse_lookup \<Rightarrow> string \<Rightarrow> (Network \<Rightarrow> sim_error + Address) \<Rightarrow> u8 \<Rightarrow>
    Network \<times> string list \<times> 'g \<Rightarrow> sim_error + Network \<times> string list \<times> 'g" where
  "sim_expire rd getnameinfo from destination ttl st =
     sum_bind (sim_send rd getnameinfo from destination ttl st) (\<lambda>(dgram_sent, nw, cerr, g).
     sum_bind (nw_simulate (nw, cerr)) (\<lambda>(nw, cerr). Inr (nw, cerr, g)))"

definition to_host :: "string \<Rightarrow> Network \<Rightarrow> sim_error + Address" where
  "to_host name nw = sum_bind (nw_host name nw) (\<lambda>h. Inr (ho_my_address h))"

definition to_address :: "resolver \<Rightarrow> string \<Rightarrow> Network \<Rightarrow> sim_error + Address" where
  "to_address getaddrinfo str nw = sim_address getaddrinfo str"

definition network_simulator :: "('g \<Rightarrow> u32 \<times> 'g) \<Rightarrow> resolver \<Rightarrow> reverse_lookup \<Rightarrow> 'g \<Rightarrow> sim_error + Network \<times> string list \<times> 'g" where
  "network_simulator rd getaddrinfo getnameinfo g =
     sum_bind (nw_new rd getaddrinfo g) (\<lambda>(nw, g).
     sum_bind (sim_forward rd getnameinfo ''applesauce'' (to_host ''cherrypie'') ''cherrypie'' (nw, [], g)) (\<lambda>st.
     sum_bind (sim_forward rd getnameinfo ''cherrypie'' (to_host ''applesauce'') ''applesauce'' st) (\<lambda>st.
     sum_bind (sim_forward rd getnameinfo ''applesauce'' (to_address getaddrinfo ''1.2.3.4'') ''default_router'' st) (\<lambda>st.
     sum_bind (sim_forward rd getnameinfo ''applesauce'' (to_address getaddrinfo ''143.195.131.17'') ''hs_router'' st) (\<lambda>st.
     sum_bind (sim_forward rd getnameinfo ''cherrypie'' (to_address getaddrinfo ''143.195.193.52'') ''hs_router'' st) (\<lambda>st.
     sum_bind (sim_forward rd getnameinfo ''cherrypie'' (to_address getaddrinfo ''143.195.223.255'') ''hs_router'' st) (\<lambda>st.
     sum_bind (sim_forward rd getnameinfo ''cherrypie'' (to_address getaddrinfo ''143.195.224.0'') ''default_router'' st) (\<lambda>st.
     sum_bind (sim_forward rd getnameinfo ''dm42'' (to_host ''dm43'') ''dm43'' st) (\<lambda>st.
     sum_bind (sim_expire rd getnameinfo ''applesauce'' (to_address getaddrinfo ''1.2.3.4'') 1 st) (\<lambda>st.
     sim_expire rd getnameinfo ''applesauce'' (to_address getaddrinfo ''1.2.3.4'') 0 st))))))))))"

definition sim_main :: "('g \<Rightarrow> u32 \<times> 'g) \<Rightarrow> resolver \<Rightarrow> reverse_lookup \<Rightarrow> 'g \<Rightarrow> int" where
  "sim_main rd getaddrinfo getnameinfo g =
     (case network_simulator rd getaddrinfo getnameinfo g of Inl e \<Rightarrow> 1 | Inr _ \<Rightarrow> 0)"

end
