(* ===== verification/Link_Transfer.thy ===== *)
theory Link_Transfer
  imports Network_Simulator
begin

text \<open>
  A datagram crosses a link. The stations of a link are a list of interfaces; one round carries the
  frames that are ready to the other stations. A datagram that one station sends to another arrives
  after at most three rounds (request, reply, datagram), and the link is at rest again.
\<close>

section \<open>One interface on a link\<close>

text \<open>\<open>A\<close> gives the Ethernet address of every station of a link. An interface is truthful when its cache
  agrees with \<open>A\<close>, and at rest when no datagram waits in it.\<close>

definition truthful :: "(u32 \<Rightarrow> EthernetAddress option) \<Rightarrow> NetworkInterface \<Rightarrow> bool" where
  "truthful A n \<longleftrightarrow> (\<forall>ip m t. om_find ip (ni_arp_cache n) = Some (m, t) \<longrightarrow> A ip = Some m)"

definition station :: "(u32 \<Rightarrow> EthernetAddress option) \<Rightarrow> u32 \<Rightarrow> NetworkInterface \<Rightarrow> bool" where
  "station A ip n \<longleftrightarrow> ni_ok n \<and> truthful A n \<and> A ip = Some (ni_ethernet_address n) \<and> ni_ip_address n = ad_ipv4 0 ip"

definition at_rest :: "(u32 \<Rightarrow> EthernetAddress option) \<Rightarrow> u32 \<Rightarrow> NetworkInterface \<Rightarrow> bool" where
  "at_rest A ip n \<longleftrightarrow> station A ip n \<and> ni_pending_datagrams n = [] \<and> ni_arp_request_timeouts n = []"

definition asking :: "(u32 \<Rightarrow> EthernetAddress option) \<Rightarrow> u32 \<Rightarrow> u32 \<Rightarrow> IPv4Datagram \<Rightarrow> NetworkInterface \<Rightarrow> bool" where
  "asking A ip hop d n \<longleftrightarrow> station A ip n \<and> ni_pending_datagrams n = [(hop, d)] \<and>
     (\<exists>t. ni_arp_request_timeouts n = [(hop, t)])"

definition flat :: "EthernetFrame \<Rightarrow> EthernetFrame" where
  "flat f = f\<lparr>ef_payload := [concat (ef_payload f)]\<rparr>"

lemma stationD:
  assumes "station A ip n"
  shows "ni_ok n" "truthful A n" "A ip = Some (ni_ethernet_address n)" "ni_ip_address n = ad_ipv4 0 ip"
    "length (ni_ethernet_address n) = 6" "ad_ipv4_numeric (ni_ip_address n) = Inr ip"
  using assms by (auto simp: station_def ni_ok_def)

lemma send_at_rest:
  assumes "at_rest A ip n" "A hop = Some mac" "dg_serialize d = Some p"
  obtains (warm) n' where "ni_send_datagram d (ad_ipv4 0 hop) n = Inr n'" "at_rest A ip n'"
      "ni_frames_out n' = ni_frames_out n @ [ni_make_frame n mac TYPE_IPv4 p]"
  | (cold) n' where "ni_send_datagram d (ad_ipv4 0 hop) n = Inr n'" "asking A ip hop d n'"
      "ni_frames_out n' = ni_frames_out n @ [ni_request_frame n ip hop]" "ni_ethernet_address n' = ni_ethernet_address n"
proof -
  have st: "station A ip n" "ni_pending_datagrams n = []" "ni_arp_request_timeouts n = []" using assms(1) by (auto simp: at_rest_def)
  note S = stationD[OF st(1)]
  show ?thesis
  proof (cases "om_find hop (ni_arp_cache n)")
    case (Some e)
    obtain m t where e: "e = (m, t)" by fastforce
    then have "m = mac" using Some S(2) assms(2) by (auto simp: truthful_def)
    then have s: "ni_send_datagram d (ad_ipv4 0 hop) n = Inr (n\<lparr>ni_frames_out := ni_frames_out n @ [ni_make_frame n mac TYPE_IPv4 p]\<rparr>)"
      using Some e assms(3) by (simp add: ni_send_datagram_def)
    have "at_rest A ip (n\<lparr>ni_frames_out := ni_frames_out n @ [ni_make_frame n mac TYPE_IPv4 p]\<rparr>)"
      using assms(1) by (simp add: at_rest_def station_def truthful_def ni_ok_frames)
    from warm[OF s this] show ?thesis by simp
  next
    case None
    have due: "ni_request_due n hop" using st(3) by (simp add: ni_request_due_def om_find_def)
    let ?n = "n\<lparr>ni_frames_out := ni_frames_out n @ [ni_request_frame n ip hop], ni_arp_request_timeouts := om_update hop (ni_current_time n) []\<rparr>"
    have r: "ni_request hop n = Inr ?n" using ni_request_eq[OF S(1,6), of hop] due st(3) by simp
    then have s: "ni_send_datagram d (ad_ipv4 0 hop) n = Inr (?n\<lparr>ni_pending_datagrams := [(hop, d)]\<rparr>)"
      using None st(2) by (simp add: ni_send_datagram_def)
    have "ni_ok (?n\<lparr>ni_pending_datagrams := [(hop, d)]\<rparr>)" by (rule ni_ok_send[OF S(1) s])
    then have "asking A ip hop d (?n\<lparr>ni_pending_datagrams := [(hop, d)]\<rparr>)"
      using S by (simp add: asking_def station_def truthful_def)
    from cold[OF s this] show ?thesis by simp
  qed
qed

text \<open>The arrival of a true ARP message.\<close>

lemma station_learn:
  assumes st: "station A ip n" and m: "A (arp_sender_ip_address m) = Some (arp_sender_ethernet_address m)"
    "length (arp_sender_ethernet_address m) = 6"
  shows "station A ip ((ni_flushed m n)\<lparr>ni_frames_out := fs\<rparr>)"
proof -
  note S = stationD[OF st]
  have "truthful A (ni_flushed m n)"
    using S(2) m(1) ni_learn_cache(3)[OF S(1), of _ m] by (auto simp: truthful_def ni_flushed_def split: if_splits)
  then show ?thesis
    using S ni_ok_flushed[OF S(1) m(2)] by (simp add: station_def ni_ok_frames truthful_def) (simp add: ni_flushed_def)
qed

lemma recv_request:
  assumes r: "at_rest A ip n" and a: "A own = Some mac" "length mac = 6" "ni_ethernet_address x = mac"
  shows "\<exists>n'. ni_recv_frame (ni_request_frame x own target) n = Inr (n', None) \<and> at_rest A ip n' \<and>
    ni_ethernet_address n' = ni_ethernet_address n \<and>
    ni_frames_out n' = ni_frames_out n @
      (if target = ip then [ni_make_frame n mac TYPE_ARP [the (arp_serialize (ni_arp_reply n ip mac own))]] else [])"
proof -
  have st: "station A ip n" "ni_pending_datagrams n = []" "ni_arp_request_timeouts n = []" using r by (auto simp: at_rest_def)
  note S = stationD[OF st(1)]
  let ?m = "ni_arp_request x own target"
  have m: "arp_parse arp_default (the (arp_serialize ?m)) = (?m, NoError)" using a(2,3) by (simp add: arp_message_wire)
  let ?fs = "ni_frames_out n @ (if target = ip then [ni_make_frame n mac TYPE_ARP [the (arp_serialize (ni_arp_reply n ip mac own))]] else [])"
  let ?n = "(ni_flushed ?m n)\<lparr>ni_frames_out := ?fs\<rparr>"
  have "ni_frames_out (ni_flushed ?m n) = ni_frames_out n" using st(2) by (simp add: ni_flushed_def)
  then have e: "ni_recv_frame (ni_request_frame x own target) n = Inr (?n, None)"
    using recv_arp_eq[OF S(1,6) _ _ _ m, of "ni_request_frame x own target"] st(2) a(3)
    by (simp add: ni_request_frame_def ni_make_frame_def arp_message_fields)
  have "station A ip ?n" by (rule station_learn[OF st(1)]) (use a in \<open>simp_all add: arp_message_fields\<close>)
  then have "at_rest A ip ?n" using st(2,3) by (simp add: at_rest_def ni_flushed_def ni_learn_def om_find_def Let_def)
  then show ?thesis using e by (intro exI[of _ ?n]) (simp add: ni_flushed_def)
qed

lemma recv_reply:
  assumes q: "asking A ip hop d n" and a: "A hop = Some mac" "length mac = 6" "ni_ethernet_address y = mac"
    and d: "dg_serialize d = Some p"
  shows "\<exists>n'. ni_recv_frame (ni_make_frame y (ni_ethernet_address n) TYPE_ARP
        [the (arp_serialize (ni_arp_reply y hop (ni_ethernet_address n) ip))]) n = Inr (n', None) \<and> at_rest A ip n' \<and>
    ni_ethernet_address n' = ni_ethernet_address n \<and> ni_frames_out n' = ni_frames_out n @ [ni_make_frame n mac TYPE_IPv4 p]"
proof -
  obtain t where st: "station A ip n" "ni_pending_datagrams n = [(hop, d)]" "ni_arp_request_timeouts n = [(hop, t)]"
    using q by (auto simp: asking_def)
  note S = stationD[OF st(1)]
  let ?m = "ni_arp_reply y hop (ni_ethernet_address n) ip"
  have m: "arp_parse arp_default (the (arp_serialize ?m)) = (?m, NoError)" using a(2,3) S(5) by (simp add: arp_message_wire)
  have f: "ni_frames_out (ni_flushed ?m n) = ni_frames_out n @ [ni_make_frame n mac TYPE_IPv4 p]"
    using st(2) d a(3) by (simp add: ni_flushed_def arp_message_fields)
  have e: "ni_recv_frame (ni_make_frame y (ni_ethernet_address n) TYPE_ARP [the (arp_serialize ?m)]) n = Inr (ni_flushed ?m n, None)"
    using recv_arp_eq[OF S(1,6) _ _ _ m, of "ni_make_frame y (ni_ethernet_address n) TYPE_ARP [the (arp_serialize ?m)]"] st(2) d
    by (simp add: ni_make_frame_def arp_message_fields)
  have "station A ip ((ni_flushed ?m n)\<lparr>ni_frames_out := ni_frames_out (ni_flushed ?m n)\<rparr>)"
    by (rule station_learn[OF st(1)]) (use a in \<open>simp_all add: arp_message_fields\<close>)
  then have "at_rest A ip (ni_flushed ?m n)"
    using st(2,3) by (simp add: at_rest_def ni_flushed_def ni_learn_def om_find_def om_erase_def Let_def arp_message_fields)
  then show ?thesis using e f by (intro exI[of _ "ni_flushed ?m n"]) (simp add: ni_flushed_def)
qed

lemma recv_datagram:
  assumes "dg_valid d" "dg_serialize d = Some p"
  shows "\<exists>d'. dg_same d d' \<and> ni_recv_frame (flat (ni_make_frame x (ni_ethernet_address n) TYPE_IPv4 p)) n = Inr (n, Some d')"
proof -
  obtain d' where "dg_parse dg_default (concat p) = (d', NoError)" "dg_same d d'"
    using ipv4.roundtrip[OF assms(1), of dg_default] assms(2) by auto
  then show ?thesis by (auto simp: ni_recv_frame_def flat_def ni_make_frame_def single_buffer_def)
qed

lemma recv_other:
  assumes "mac \<noteq> ni_ethernet_address n" "mac \<noteq> ETHERNET_BROADCAST"
  shows "ni_recv_frame (flat (ni_make_frame x mac type p)) n = Inr (n, None)"
  using assms by (simp add: ni_recv_frame_def flat_def ni_make_frame_def Let_def)

lemma flat_single: "flat (ni_make_frame x mac type [p]) = ni_make_frame x mac type [p]"
  by (simp add: flat_def ni_make_frame_def)

lemma flat_request: "flat (ni_request_frame x own target) = ni_request_frame x own target"
  by (simp add: ni_request_frame_def flat_single)

section \<open>A link\<close>

text \<open>The interfaces on a link as a list. One round carries the frame of the only interface that has one to
  all the others.\<close>

definition without_frames :: "AsyncNetworkInterface \<Rightarrow> AsyncNetworkInterface" where
  "without_frames a = a\<lparr>an_interface := (an_interface a)\<lparr>ni_frames_out := []\<rparr>\<rparr>"

definition link_step :: "AsyncNetworkInterface list \<Rightarrow> AsyncNetworkInterface list \<Rightarrow> bool" where
  "link_step xs ys \<longleftrightarrow> length ys = length xs \<and>
     (\<exists>j f. j < length xs \<and> frames_out (xs ! j) = [f] \<and> ys ! j = without_frames (xs ! j) \<and>
        (\<forall>k<length xs. k \<noteq> j \<longrightarrow> frames_out (xs ! k) = [] \<and> an_recv_frame (flat f) (xs ! k) = Inr (ys ! k)))"

lemma link_stepI:
  assumes "j < length xs" "frames_out (xs ! j) = [f]" "\<And>k. k < length xs \<Longrightarrow> k \<noteq> j \<Longrightarrow> frames_out (xs ! k) = []"
    and "\<And>k. k < length xs \<Longrightarrow> k \<noteq> j \<Longrightarrow> \<exists>n' r. ni_recv_frame (flat f) (an_interface (xs ! k)) = Inr (n', r) \<and> Q k n' r"
  obtains ys where "link_step xs ys" "length ys = length xs" "ys ! j = without_frames (xs ! j)"
    "\<And>k. k < length xs \<Longrightarrow> k \<noteq> j \<Longrightarrow> \<exists>r. Q k (an_interface (ys ! k)) r \<and>
       an_datagrams_out (ys ! k) = an_datagrams_out (xs ! k) @ (case r of None \<Rightarrow> [] | Some d \<Rightarrow> [d])"
proof -
  have "\<exists>y. k < length xs \<and> k \<noteq> j \<longrightarrow> an_recv_frame (flat f) (xs ! k) = Inr y \<and> (\<exists>r. Q k (an_interface y) r \<and>
       an_datagrams_out y = an_datagrams_out (xs ! k) @ (case r of None \<Rightarrow> [] | Some d \<Rightarrow> [d]))" for k
  proof (cases "k < length xs \<and> k \<noteq> j")
    case True
    then obtain n' r where r: "ni_recv_frame (flat f) (an_interface (xs ! k)) = Inr (n', r)" "Q k n' r" using assms(4)[of k] by blast
    then show ?thesis by (cases r) (auto simp: an_recv_frame_def)
  qed blast
  then obtain y where y: "\<And>k. k < length xs \<Longrightarrow> k \<noteq> j \<Longrightarrow> an_recv_frame (flat f) (xs ! k) = Inr (y k) \<and> (\<exists>r. Q k (an_interface (y k)) r \<and>
       an_datagrams_out (y k) = an_datagrams_out (xs ! k) @ (case r of None \<Rightarrow> [] | Some d \<Rightarrow> [d]))" by metis
  define ys where "ys = map (\<lambda>k. if k = j then without_frames (xs ! j) else y k) [0..<length xs]"
  have "link_step xs ys" using assms(1-3) y unfolding link_step_def ys_def by auto
  then show ?thesis using y assms(1) by (intro that[of ys]) (auto simp: ys_def)
qed

definition link_at_rest :: "(u32 \<Rightarrow> EthernetAddress option) \<Rightarrow> u32 list \<Rightarrow> AsyncNetworkInterface list \<Rightarrow> bool" where
  "link_at_rest A ips xs \<longleftrightarrow> length xs = length ips \<and>
     (\<forall>k<length ips. at_rest A (ips ! k) (an_interface (xs ! k)) \<and> frames_out (xs ! k) = [])"

text \<open>The other stations do not take the frames that the stations \<open>j\<close> and \<open>k\<close> send to each other.\<close>

definition private_pair :: "(u32 \<Rightarrow> EthernetAddress option) \<Rightarrow> u32 list \<Rightarrow> nat \<Rightarrow> nat \<Rightarrow> bool" where
  "private_pair A ips j k \<longleftrightarrow> j < length ips \<and> k < length ips \<and> j \<noteq> k \<and> ips ! j \<noteq> ips ! k \<and>
     (\<forall>m<length ips. m \<noteq> j \<longrightarrow> m \<noteq> k \<longrightarrow> ips ! m \<noteq> ips ! k \<and> A (ips ! m) \<noteq> A (ips ! j) \<and> A (ips ! m) \<noteq> A (ips ! k)) \<and>
     A (ips ! j) \<noteq> Some ETHERNET_BROADCAST \<and> A (ips ! k) \<noteq> Some ETHERNET_BROADCAST"

text \<open>The three moments of a transfer from station \<open>j\<close> to station \<open>k\<close>: the datagram is on its way, the
  request is on its way, the reply is on its way.\<close>

definition sending :: "(u32 \<Rightarrow> EthernetAddress option) \<Rightarrow> u32 list \<Rightarrow> nat \<Rightarrow> nat \<Rightarrow> bytes list \<Rightarrow> AsyncNetworkInterface list \<Rightarrow> bool" where
  "sending A ips j k p xs \<longleftrightarrow> length xs = length ips \<and> (\<forall>m<length ips. at_rest A (ips ! m) (an_interface (xs ! m))) \<and>
     (\<exists>x mac. frames_out (xs ! j) = [ni_make_frame x mac TYPE_IPv4 p] \<and> A (ips ! k) = Some mac) \<and>
     (\<forall>m<length ips. m \<noteq> j \<longrightarrow> frames_out (xs ! m) = [])"

definition requesting :: "(u32 \<Rightarrow> EthernetAddress option) \<Rightarrow> u32 list \<Rightarrow> nat \<Rightarrow> nat \<Rightarrow> IPv4Datagram \<Rightarrow> AsyncNetworkInterface list \<Rightarrow> bool" where
  "requesting A ips j k d xs \<longleftrightarrow> length xs = length ips \<and> asking A (ips ! j) (ips ! k) d (an_interface (xs ! j)) \<and>
     (\<exists>x. frames_out (xs ! j) = [ni_request_frame x (ips ! j) (ips ! k)] \<and> A (ips ! j) = Some (ni_ethernet_address x)) \<and>
     (\<forall>m<length ips. m \<noteq> j \<longrightarrow> at_rest A (ips ! m) (an_interface (xs ! m)) \<and> frames_out (xs ! m) = [])"

definition replying :: "(u32 \<Rightarrow> EthernetAddress option) \<Rightarrow> u32 list \<Rightarrow> nat \<Rightarrow> nat \<Rightarrow> IPv4Datagram \<Rightarrow> AsyncNetworkInterface list \<Rightarrow> bool" where
  "replying A ips j k d xs \<longleftrightarrow> length xs = length ips \<and> asking A (ips ! j) (ips ! k) d (an_interface (xs ! j)) \<and>
     (\<exists>y. frames_out (xs ! k) = [ni_make_frame y (ni_ethernet_address (an_interface (xs ! j))) TYPE_ARP
          [the (arp_serialize (ni_arp_reply y (ips ! k) (ni_ethernet_address (an_interface (xs ! j))) (ips ! j)))]] \<and>
        A (ips ! k) = Some (ni_ethernet_address y) \<and> length (ni_ethernet_address y) = 6) \<and>
     (\<forall>m<length ips. (m \<noteq> j \<longrightarrow> at_rest A (ips ! m) (an_interface (xs ! m))) \<and> (m \<noteq> k \<longrightarrow> frames_out (xs ! m) = []))"

lemma at_rest_without_frames:
  "at_rest A ip (an_interface (without_frames a)) = at_rest A ip (an_interface a)"
  "asking A ip hop d (an_interface (without_frames a)) = asking A ip hop d (an_interface a)"
  "frames_out (without_frames a) = []" "an_datagrams_out (without_frames a) = an_datagrams_out a"
  "ni_ethernet_address (an_interface (without_frames a)) = ni_ethernet_address (an_interface a)"
  by (simp_all add: at_rest_def asking_def station_def truthful_def without_frames_def frames_out_def ni_ok_frames)

lemma at_rest_mac: "at_rest A ip n \<Longrightarrow> A ip = Some (ni_ethernet_address n) \<and> length (ni_ethernet_address n) = 6"
  using stationD by (auto simp: at_rest_def)

lemma outs_eqI:
  "length ys = length xs \<Longrightarrow> (\<And>m. m < length xs \<Longrightarrow> an_datagrams_out (ys ! m) = f m) \<Longrightarrow>
   map an_datagrams_out ys = map f [0..<length xs]"
  by (auto intro: nth_equalityI)

lemma sending_step:
  assumes "sending A ips j k p xs" "private_pair A ips j k" "dg_valid d" "dg_serialize d = Some p"
  obtains ys d' where "link_step xs ys" "link_at_rest A ips ys" "dg_same d d'"
    "map an_datagrams_out ys = (map an_datagrams_out xs)[k := an_datagrams_out (xs ! k) @ [d']]"
proof -
  obtain x mac where f: "frames_out (xs ! j) = [ni_make_frame x mac TYPE_IPv4 p]" and mac: "A (ips ! k) = Some mac"
    using assms(1) by (auto simp: sending_def)
  have len: "length xs = length ips" and rest: "\<And>m. m < length ips \<Longrightarrow> at_rest A (ips ! m) (an_interface (xs ! m))"
    using assms(1) by (auto simp: sending_def)
  have jk: "j < length xs" "k < length xs" "k \<noteq> j" using assms(2) len by (auto simp: private_pair_def)
  have mk: "ni_ethernet_address (an_interface (xs ! k)) = mac" using at_rest_mac[OF rest] jk mac len by fastforce
  obtain d' where d': "dg_same d d'"
    "ni_recv_frame (flat (ni_make_frame x mac TYPE_IPv4 p)) (an_interface (xs ! k)) = Inr (an_interface (xs ! k), Some d')"
    using recv_datagram[OF assms(3,4), of x "an_interface (xs ! k)"] mk by auto
  have other: "ni_recv_frame (flat (ni_make_frame x mac TYPE_IPv4 p)) (an_interface (xs ! m)) = Inr (an_interface (xs ! m), None)"
    if "m < length xs" "m \<noteq> j" "m \<noteq> k" for m
    by (rule recv_other) (use at_rest_mac[OF rest, of m] assms(2) that mac len in \<open>auto simp: private_pair_def\<close>)
  let ?Q = "\<lambda>m n' r. n' = an_interface (xs ! m) \<and> r = (if m = k then Some d' else None)"
  obtain ys where ys: "link_step xs ys" "length ys = length xs" "ys ! j = without_frames (xs ! j)"
    "\<And>m. m < length xs \<Longrightarrow> m \<noteq> j \<Longrightarrow> \<exists>r. ?Q m (an_interface (ys ! m)) r \<and>
       an_datagrams_out (ys ! m) = an_datagrams_out (xs ! m) @ (case r of None \<Rightarrow> [] | Some d \<Rightarrow> [d])"
    by (rule link_stepI[OF jk(1) f, where Q = ?Q]) (use assms(1) len d' other in \<open>auto simp: sending_def\<close>)
  have same: "an_interface (ys ! m) = an_interface (xs ! m)"
    "an_datagrams_out (ys ! m) = an_datagrams_out (xs ! m) @ (if m = k then [d'] else [])" if "m < length xs" "m \<noteq> j" for m
    using ys(4)[OF that] by auto
  have "link_at_rest A ips ys"
    unfolding link_at_rest_def
  proof (intro conjI allI impI)
    fix m assume m: "m < length ips"
    show "at_rest A (ips ! m) (an_interface (ys ! m))"
      using rest[OF m] same(1)[of m] ys(3) m len by (cases "m = j") (simp_all add: at_rest_without_frames)
    have "m \<noteq> j \<Longrightarrow> frames_out (xs ! m) = []" using assms(1) m by (simp add: sending_def)
    then show "frames_out (ys ! m) = []"
      using same(1)[of m] ys(3) m len by (cases "m = j") (simp_all add: without_frames_def frames_out_def)
  qed (use ys(2) len in simp)
  moreover have "map an_datagrams_out ys = (map an_datagrams_out xs)[k := an_datagrams_out (xs ! k) @ [d']]"
  proof (rule nth_equalityI)
    fix m assume "m < length (map an_datagrams_out ys)"
    then show "map an_datagrams_out ys ! m = (map an_datagrams_out xs)[k := an_datagrams_out (xs ! k) @ [d']] ! m"
      using same(2)[of m] ys(2,3) jk by (cases "m = j") (simp_all add: nth_list_update at_rest_without_frames)
  qed (use ys(2) in simp)
  ultimately show ?thesis using that ys(1) d'(1) by blast
qed

lemma requesting_step:
  assumes "requesting A ips j k d xs" "private_pair A ips j k"
  obtains ys where "link_step xs ys" "replying A ips j k d ys" "map an_datagrams_out ys = map an_datagrams_out xs"
proof -
  obtain x where f: "frames_out (xs ! j) = [ni_request_frame x (ips ! j) (ips ! k)]" and mac: "A (ips ! j) = Some (ni_ethernet_address x)"
    using assms(1) by (auto simp: requesting_def)
  have len: "length xs = length ips" and rest: "\<And>m. m < length ips \<Longrightarrow> m \<noteq> j \<Longrightarrow> at_rest A (ips ! m) (an_interface (xs ! m))"
    and ask: "asking A (ips ! j) (ips ! k) d (an_interface (xs ! j))" and empty: "\<And>m. m < length ips \<Longrightarrow> m \<noteq> j \<Longrightarrow> frames_out (xs ! m) = []"
    using assms(1) by (auto simp: requesting_def)
  have jk: "j < length xs" "k < length xs" "k \<noteq> j" using assms(2) len by (auto simp: private_pair_def)
  have others: "ips ! m = ips ! k \<Longrightarrow> m < length xs \<Longrightarrow> m \<noteq> j \<Longrightarrow> m = k" for m using assms(2) len by (auto simp: private_pair_def)
  have macj: "ni_ethernet_address (an_interface (xs ! j)) = ni_ethernet_address x" "length (ni_ethernet_address x) = 6"
    using ask mac stationD[of A "ips ! j" "an_interface (xs ! j)"] by (auto simp: asking_def)
  let ?f = "\<lambda>m. ni_make_frame (an_interface (xs ! m)) (ni_ethernet_address x) TYPE_ARP
    [the (arp_serialize (ni_arp_reply (an_interface (xs ! m)) (ips ! m) (ni_ethernet_address x) (ips ! j)))]"
  let ?Q = "\<lambda>m n' r. at_rest A (ips ! m) n' \<and> ni_frames_out n' = (if m = k then [?f m] else []) \<and> r = (None :: IPv4Datagram option)"
  have recv: "\<exists>n' r. ni_recv_frame (flat (ni_request_frame x (ips ! j) (ips ! k))) (an_interface (xs ! m)) = Inr (n', r) \<and> ?Q m n' r"
    if "m < length xs" "m \<noteq> j" for m
  proof -
    have "ni_frames_out (an_interface (xs ! m)) = []" using empty that len by (simp add: frames_out_def)
    moreover have "(ips ! k = ips ! m) = (m = k)" using others[of m] that by metis
    ultimately show ?thesis
      unfolding flat_request using recv_request[OF rest mac macj(2) refl, of m "ips ! k"] that len by auto
  qed
  obtain ys where ys: "link_step xs ys" "length ys = length xs" "ys ! j = without_frames (xs ! j)"
    "\<And>m. m < length xs \<Longrightarrow> m \<noteq> j \<Longrightarrow> \<exists>r. ?Q m (an_interface (ys ! m)) r \<and>
       an_datagrams_out (ys ! m) = an_datagrams_out (xs ! m) @ (case r of None \<Rightarrow> [] | Some d \<Rightarrow> [d])"
    by (rule link_stepI[OF jk(1) f, where Q = ?Q]) (use empty len recv in auto)
  have same: "at_rest A (ips ! m) (an_interface (ys ! m))" "frames_out (ys ! m) = (if m = k then [?f m] else [])"
    "an_datagrams_out (ys ! m) = an_datagrams_out (xs ! m)" if "m < length xs" "m \<noteq> j" for m
    using ys(4)[OF that] by (auto simp: frames_out_def)
  have mk: "A (ips ! k) = Some (ni_ethernet_address (an_interface (xs ! k)))" "length (ni_ethernet_address (an_interface (xs ! k))) = 6"
    using at_rest_mac[OF rest] jk len by auto
  have none: "frames_out (ys ! m) = []" if "m < length ips" "m \<noteq> k" for m
    using same(2)[of m] ys(3) that len by (cases "m = j") (simp_all add: at_rest_without_frames)
  have "replying A ips j k d ys"
    unfolding replying_def using ys(2,3) ask same(1,2) jk len mk macj(1) none
    by (auto simp: at_rest_without_frames intro!: exI[of _ "an_interface (xs ! k)"])
  moreover have "map an_datagrams_out ys = map an_datagrams_out xs"
  proof (rule nth_equalityI)
    fix m assume "m < length (map an_datagrams_out ys)"
    then show "map an_datagrams_out ys ! m = map an_datagrams_out xs ! m"
      using same(3)[of m] ys(2,3) by (cases "m = j") (simp_all add: at_rest_without_frames)
  qed (use ys(2) in simp)
  ultimately show ?thesis using that ys(1) by blast
qed

lemma replying_step:
  assumes "replying A ips j k d xs" "private_pair A ips j k" "dg_serialize d = Some p"
  obtains ys where "link_step xs ys" "sending A ips j k p ys" "map an_datagrams_out ys = map an_datagrams_out xs"
proof -
  let ?mac = "ni_ethernet_address (an_interface (xs ! j))"
  obtain y where f: "frames_out (xs ! k) = [ni_make_frame y ?mac TYPE_ARP [the (arp_serialize (ni_arp_reply y (ips ! k) ?mac (ips ! j)))]]"
    and mac: "A (ips ! k) = Some (ni_ethernet_address y)" "length (ni_ethernet_address y) = 6"
    using assms(1) by (auto simp: replying_def)
  have len: "length xs = length ips" and rest: "\<And>m. m < length ips \<Longrightarrow> m \<noteq> j \<Longrightarrow> at_rest A (ips ! m) (an_interface (xs ! m))"
    and ask: "asking A (ips ! j) (ips ! k) d (an_interface (xs ! j))"
    and none: "\<And>m. m < length ips \<Longrightarrow> m \<noteq> k \<Longrightarrow> frames_out (xs ! m) = []"
    using assms(1) by (auto simp: replying_def)
  have jk: "j < length xs" "k < length xs" "j \<noteq> k" using assms(2) len by (auto simp: private_pair_def)
  have empty: "\<And>m. m < length ips \<Longrightarrow> m \<noteq> j \<Longrightarrow> m \<noteq> k \<Longrightarrow> frames_out (xs ! m) = []" "frames_out (xs ! j) = []"
    using none jk len by auto
  have macj: "A (ips ! j) = Some ?mac" using ask stationD[of A "ips ! j" "an_interface (xs ! j)"] by (auto simp: asking_def)
  let ?f = "ni_make_frame (an_interface (xs ! j)) (ni_ethernet_address y) TYPE_IPv4 p"
  let ?Q = "\<lambda>m n' r. at_rest A (ips ! m) n' \<and> ni_frames_out n' = (if m = j then [?f] else []) \<and> r = (None :: IPv4Datagram option)"
  have recv: "\<exists>n' r. ni_recv_frame (flat (ni_make_frame y ?mac TYPE_ARP [the (arp_serialize (ni_arp_reply y (ips ! k) ?mac (ips ! j)))]))
      (an_interface (xs ! m)) = Inr (n', r) \<and> ?Q m n' r" if "m < length xs" "m \<noteq> k" for m
  proof (cases "m = j")
    case True
    then show ?thesis unfolding flat_single
      using recv_reply[OF ask mac(1,2) refl assms(3)] empty(2) by (auto simp: frames_out_def)
  next
    case False
    have "?mac \<noteq> ni_ethernet_address (an_interface (xs ! m))" "?mac \<noteq> ETHERNET_BROADCAST"
      using at_rest_mac[OF rest, of m] False that macj assms(2) len by (auto simp: private_pair_def)
    from recv_other[OF this] show ?thesis using rest[of m] empty(1)[of m] False that len by (simp add: frames_out_def)
  qed
  obtain ys where ys: "link_step xs ys" "length ys = length xs" "ys ! k = without_frames (xs ! k)"
    "\<And>m. m < length xs \<Longrightarrow> m \<noteq> k \<Longrightarrow> \<exists>r. ?Q m (an_interface (ys ! m)) r \<and>
       an_datagrams_out (ys ! m) = an_datagrams_out (xs ! m) @ (case r of None \<Rightarrow> [] | Some d \<Rightarrow> [d])"
  proof (rule link_stepI[OF jk(2) f, where Q = ?Q])
    fix m assume "m < length xs" "m \<noteq> k"
    then show "frames_out (xs ! m) = []" using empty len by (cases "m = j") simp_all
  qed (use recv in auto)
  have same: "at_rest A (ips ! m) (an_interface (ys ! m))" "frames_out (ys ! m) = (if m = j then [?f] else [])"
    "an_datagrams_out (ys ! m) = an_datagrams_out (xs ! m)" if "m < length xs" "m \<noteq> k" for m
    using ys(4)[OF that] by (auto simp: frames_out_def)
  have "sending A ips j k p ys"
    unfolding sending_def
  proof (intro conjI allI impI)
    fix m assume m: "m < length ips"
    show "at_rest A (ips ! m) (an_interface (ys ! m))"
      using same(1)[of m] rest[of k] ys(3) m jk len by (cases "m = k") (simp_all add: at_rest_without_frames)
    show "frames_out (ys ! m) = []" if "m \<noteq> j"
      using same(2)[of m] ys(3) m that len by (cases "m = k") (simp_all add: at_rest_without_frames)
  next
    show "\<exists>x mac. frames_out (ys ! j) = [ni_make_frame x mac TYPE_IPv4 p] \<and> A (ips ! k) = Some mac"
      using same(2)[of j] jk mac(1) by auto
  qed (use ys(2) len in simp)
  moreover have "map an_datagrams_out ys = map an_datagrams_out xs"
  proof (rule nth_equalityI)
    fix m assume "m < length (map an_datagrams_out ys)"
    then show "map an_datagrams_out ys ! m = map an_datagrams_out xs ! m"
      using same(3)[of m] ys(2,3) by (cases "m = k") (simp_all add: at_rest_without_frames)
  qed (use ys(2) in simp)
  ultimately show ?thesis using that ys(1) by blast
qed

text \<open>A transfer: at most two rounds in which no datagram arrives, and one in which it arrives.\<close>

definition silent_step :: "AsyncNetworkInterface list \<Rightarrow> AsyncNetworkInterface list \<Rightarrow> bool" where
  "silent_step xs ys \<longleftrightarrow> link_step xs ys \<and> map an_datagrams_out ys = map an_datagrams_out xs"

definition sent :: "IPv4Datagram \<Rightarrow> u32 \<Rightarrow> AsyncNetworkInterface \<Rightarrow> AsyncNetworkInterface \<Rightarrow> bool" where
  "sent d hop x x' \<longleftrightarrow> (\<exists>n'. ni_send_datagram d (ad_ipv4 0 hop) (an_interface x) = Inr n' \<and> x' = x\<lparr>an_interface := n'\<rparr>)"

lemma transfer:
  assumes "link_at_rest A ips xs" "private_pair A ips j k" "dg_valid d"
  obtains x n zs ys d' where "sent d (ips ! k) (xs ! j) x" "n \<le> 2" "(silent_step ^^ n) (xs[j := x]) zs" "link_step zs ys"
    "link_at_rest A ips ys" "dg_same d d'" "map an_datagrams_out ys = (map an_datagrams_out xs)[k := an_datagrams_out (xs ! k) @ [d']]"
proof -
  have len: "length xs = length ips" and rest: "\<And>m. m < length ips \<Longrightarrow> at_rest A (ips ! m) (an_interface (xs ! m)) \<and> frames_out (xs ! m) = []"
    using assms(1) by (auto simp: link_at_rest_def)
  have jk: "j < length xs" "k < length xs" "k \<noteq> j" using assms(2) len by (auto simp: private_pair_def)
  obtain p where p: "dg_serialize d = Some p" using assms(3) dg_valid_serialize by blast
  obtain mac where mac: "A (ips ! k) = Some mac" using at_rest_mac rest[of k] jk len by auto
  have restj: "at_rest A (ips ! j) (an_interface (xs ! j))" "ni_frames_out (an_interface (xs ! j)) = []"
    using rest[of j] jk len by (auto simp: frames_out_def)
  have outs: "map an_datagrams_out (xs[j := (xs ! j)\<lparr>an_interface := n'\<rparr>]) = map an_datagrams_out xs" for n'
    using jk by (metis (no_types, lifting) AsyncNetworkInterface.select_convs(2) AsyncNetworkInterface.surjective
        AsyncNetworkInterface.update_convs(1) list_update_id map_update)
  show ?thesis
    using restj(1) mac p
  proof (cases rule: send_at_rest)
    case (warm n')
    let ?x = "(xs ! j)\<lparr>an_interface := n'\<rparr>"
    have "sending A ips j k p (xs[j := ?x])"
      using warm restj rest mac jk len unfolding sending_def by (auto simp: nth_list_update frames_out_def)
    then obtain ys d' where "link_step (xs[j := ?x]) ys" "link_at_rest A ips ys" "dg_same d d'"
        "map an_datagrams_out ys = (map an_datagrams_out xs)[k := an_datagrams_out (xs ! k) @ [d']]"
      using sending_step[OF _ assms(2,3) p] outs jk by (metis nth_list_update_neq)
    then show ?thesis using that[of ?x 0 "xs[j := ?x]"] warm(1) by (auto simp: sent_def)
  next
    case (cold n')
    let ?x = "(xs ! j)\<lparr>an_interface := n'\<rparr>"
    have "A (ips ! j) = Some (ni_ethernet_address (an_interface (xs ! j)))" using at_rest_mac restj(1) by blast
    then have "requesting A ips j k d (xs[j := ?x])"
      using cold restj rest jk len unfolding requesting_def by (auto simp: nth_list_update frames_out_def)
    then obtain x1 where 1: "silent_step (xs[j := ?x]) x1" "replying A ips j k d x1" "map an_datagrams_out x1 = map an_datagrams_out xs"
      using requesting_step[OF _ assms(2)] outs unfolding silent_step_def by metis
    then obtain x2 where 2: "silent_step x1 x2" "sending A ips j k p x2" "map an_datagrams_out x2 = map an_datagrams_out xs"
      using replying_step[OF _ assms(2) p] unfolding silent_step_def by metis
    have "an_datagrams_out (x2 ! k) = an_datagrams_out (xs ! k)" using 2(2,3) jk len by (metis length_map nth_map sending_def)
    then obtain ys d' where 3: "link_step x2 ys" "link_at_rest A ips ys" "dg_same d d'"
        "map an_datagrams_out ys = (map an_datagrams_out xs)[k := an_datagrams_out (xs ! k) @ [d']]"
      using sending_step[OF 2(2) assms(2,3) p] 2(3) by metis
    have "(silent_step ^^ 2) (xs[j := ?x]) x2" using 1(1) 2(1) by (auto simp: numeral_2_eq_2)
    then show ?thesis using that[of ?x 2 x2 ys d'] cold(1) 3 by (auto simp: sent_def)
  qed
qed

end
