(* ===== verification/Simulator_Rounds.thy ===== *)
theory Simulator_Rounds
  imports Link_Transfer
begin

text \<open>
  Rounds of the network simulator. The network is a function of the state of its interfaces; a round
  of \<open>simulate\<close> is a step of the one link that is active, after the router has forwarded what it
  received. A datagram that a host sends travels over its link, through the router and over a
  second link within six rounds, or is dropped by the router when its time to live runs out.
\<close>

section \<open>A round of the simulation\<close>

lemma deliver_one:
  "an_recv_frame (flat f) y = Inr y' \<Longrightarrow> \<exists>line. deliver x_name [f] y_name (y, cerr) = Inr (y', cerr @ [line])"
  by (simp add: flat_def Let_def)

lemma clear_none: "clear_frames [] x = Inr x"
  by (simp add: clear_frames_def frames_out_def)

lemma clear_one: "frames_out x = [f] \<Longrightarrow> clear_frames [f] x = Inr (without_frames x)"
  by (simp add: clear_frames_def without_frames_def)

lemma exchange_idle:
  "frames_out x = [] \<Longrightarrow> frames_out y = [] \<Longrightarrow> exchange_frames x_name x y_name y cerr = Inr (x, y, cerr)"
  "frames_out x = [] \<Longrightarrow> frames_out y = [] \<Longrightarrow> frames_out z = [] \<Longrightarrow>
     exchange_frames3 x_name x y_name y z_name z cerr = Inr (x, y, z, cerr)"
  by (simp_all add: exchange_frames_def exchange_frames3_def clear_none)

lemma link_step_cases:
  assumes "link_step xs ys"
  obtains j f where "j < length xs" "length ys = length xs" "frames_out (xs ! j) = [f]" "ys ! j = without_frames (xs ! j)"
    "\<And>k. k < length xs \<Longrightarrow> k \<noteq> j \<Longrightarrow> frames_out (xs ! k) = [] \<and> an_recv_frame (flat f) (xs ! k) = Inr (ys ! k)"
  using assms by (auto simp: link_step_def)

lemma exchange_step:
  assumes "link_step [x, y] ys"
  shows "\<exists>cerr'. exchange_frames x_name x y_name y cerr = Inr (ys ! 0, ys ! 1, cerr')"
proof -
  obtain j f where j: "j < 2" "frames_out ([x, y] ! j) = [f]" "ys ! j = without_frames ([x, y] ! j)"
    and o: "\<And>k. k < 2 \<Longrightarrow> k \<noteq> j \<Longrightarrow> frames_out ([x, y] ! k) = [] \<and> an_recv_frame (flat f) ([x, y] ! k) = Inr (ys ! k)"
    using assms by (rule link_step_cases) (simp add: numeral_2_eq_2)
  consider "j = 0" | "j = 1" using j(1) by linarith
  then show ?thesis
  proof cases
    case 1
    then have x: "frames_out x = [f]" "ys ! 0 = without_frames x" "frames_out y = []" "an_recv_frame (flat f) y = Inr (ys ! 1)"
      using j(2,3) o[of 1] by simp_all
    obtain l where "deliver x_name [f] y_name (y, cerr) = Inr (ys ! 1, cerr @ [l])" using deliver_one[OF x(4)] by blast
    then show ?thesis using x by (simp add: exchange_frames_def clear_none clear_one del: deliver.simps(2))
  next
    case 2
    then have x: "frames_out y = [f]" "ys ! 1 = without_frames y" "frames_out x = []" "an_recv_frame (flat f) x = Inr (ys ! 0)"
      using j(2,3) o[of 0] by simp_all
    obtain l where "deliver y_name [f] x_name (x, cerr) = Inr (ys ! 0, cerr @ [l])" using deliver_one[OF x(4)] by blast
    then show ?thesis using x by (simp add: exchange_frames_def clear_none clear_one del: deliver.simps(2))
  qed
qed

lemma exchange_step3:
  assumes "link_step [x, y, z] ys"
  shows "\<exists>cerr'. exchange_frames3 x_name x y_name y z_name z cerr = Inr (ys ! 0, ys ! 1, ys ! 2, cerr')"
proof -
  obtain j f where j: "j < 3" "frames_out ([x, y, z] ! j) = [f]" "ys ! j = without_frames ([x, y, z] ! j)"
    and o: "\<And>k. k < 3 \<Longrightarrow> k \<noteq> j \<Longrightarrow> frames_out ([x, y, z] ! k) = [] \<and> an_recv_frame (flat f) ([x, y, z] ! k) = Inr (ys ! k)"
    using assms by (rule link_step_cases) (simp add: numeral_3_eq_3)
  have dl: "\<exists>l. deliver a [f] b (u, c) = Inr (u', c @ [l])" if "an_recv_frame (flat f) u = Inr u'" for a b u u' c
    using deliver_one[OF that] .
  consider "j = 0" | "j = 1" | "j = 2" using j(1) by linarith
  then show ?thesis
  proof cases
    case 1
    then have x: "frames_out x = [f]" "ys ! 0 = without_frames x" "frames_out y = []" "an_recv_frame (flat f) y = Inr (ys ! 1)"
        "frames_out z = []" "an_recv_frame (flat f) z = Inr (ys ! 2)"
      using j(2,3) o[of 1] o[of 2] by simp_all
    obtain l where 1: "deliver x_name [f] y_name (y, cerr) = Inr (ys ! 1, cerr @ [l])" using dl[OF x(4)] by blast
    obtain m where 2: "deliver x_name [f] z_name (z, cerr @ [l]) = Inr (ys ! 2, (cerr @ [l]) @ [m])" using dl[OF x(6)] by blast
    show ?thesis using x 1 2 by (simp add: exchange_frames3_def clear_none clear_one del: deliver.simps(2))
  next
    case 2
    then have x: "frames_out y = [f]" "ys ! 1 = without_frames y" "frames_out x = []" "an_recv_frame (flat f) x = Inr (ys ! 0)"
        "frames_out z = []" "an_recv_frame (flat f) z = Inr (ys ! 2)"
      using j(2,3) o[of 0] o[of 2] by simp_all
    obtain l where 1: "deliver y_name [f] x_name (x, cerr) = Inr (ys ! 0, cerr @ [l])" using dl[OF x(4)] by blast
    obtain m where 2: "deliver y_name [f] z_name (z, cerr @ [l]) = Inr (ys ! 2, (cerr @ [l]) @ [m])" using dl[OF x(6)] by blast
    show ?thesis using x 1 2 by (simp add: exchange_frames3_def clear_none clear_one del: deliver.simps(2))
  next
    case 3
    then have x: "frames_out z = [f]" "ys ! 2 = without_frames z" "frames_out x = []" "an_recv_frame (flat f) x = Inr (ys ! 0)"
        "frames_out y = []" "an_recv_frame (flat f) y = Inr (ys ! 1)"
      using j(2,3) o[of 0] o[of 1] by simp_all
    obtain l where 1: "deliver z_name [f] x_name (x, cerr) = Inr (ys ! 0, cerr @ [l])" using dl[OF x(4)] by blast
    obtain m where 2: "deliver z_name [f] y_name (y, cerr @ [l]) = Inr (ys ! 1, (cerr @ [l]) @ [m])" using dl[OF x(6)] by blast
    show ?thesis using x 1 2 by (simp add: exchange_frames3_def clear_none clear_one del: deliver.simps(2))
  qed
qed

section \<open>The network as a function of its interfaces\<close>

text \<open>The state of the interfaces: those of the router by their number, those of the hosts by name.\<close>

type_synonym interfaces = "(nat \<Rightarrow> AsyncNetworkInterface) \<times> (string \<Rightarrow> AsyncNetworkInterface)"

definition host_table :: "(string \<times> u32 \<times> u32) list" where
  "host_table =
     [(''applesauce'', 0x0A000002, 0x0A000001), (''default_router'', 0xAB434C01, 0), (''cherrypie'', 0xC0A80002, 0xC0A80001),
      (''hs_router'', 0x8FC30001, 0), (''dm42'', 0xC6B2E52A, 0xC6B2E501), (''dm43'', 0xC6B2E52B, 0xC6B2E501)]"

definition route_table :: "Route list" where
  "route_table = map (\<lambda>(p, l, hop, i). \<lparr>rt_route_prefix = p, rt_prefix_length = l, rt_next_hop = map_option (ad_ipv4 0) hop, rt_interface_num = i\<rparr>)
     [(0, 0, Some 0xAB434C01, 0), (0x0A000000, 8, None, 1), (0xAC100000, 16, None, 2), (0xC0A80000, 24, None, 3),
      (0xC6B2E500, 24, None, 4), (0x8FC30000, 17, Some 0x8FC30001, 5), (0x8FC38000, 18, Some 0x8FC30001, 5),
      (0x8FC3C000, 19, Some 0x8FC30001, 5), (0x801E4CFF, 16, Some 0x801E0001, 6)]"

definition mk_host :: "(string \<Rightarrow> AsyncNetworkInterface) \<Rightarrow> (string \<Rightarrow> IPv4Datagram list) \<Rightarrow> string \<Rightarrow> u32 \<Rightarrow> u32 \<Rightarrow> Host" where
  "mk_host h e name ip hop = \<lparr>ho_name = name, ho_my_address = ad_ipv4 0 ip, ho_interface = h name, ho_next_hop = ad_ipv4 0 hop,
     ho_expecting_to_receive = e name\<rparr>"

definition mk_router :: "(nat \<Rightarrow> AsyncNetworkInterface) \<Rightarrow> Router" where
  "mk_router r = \<lparr>ro_routes = route_table, ro_interfaces = map r [0..<7]\<rparr>"

definition mk_net :: "interfaces \<Rightarrow> (string \<Rightarrow> IPv4Datagram list) \<Rightarrow> Network" where
  "mk_net st e = \<lparr>nw_router = mk_router (fst st), nw_default_id = 0, nw_eth0_id = 1, nw_eth1_id = 2, nw_eth2_id = 3,
     nw_uun3_id = 4, nw_hs4_id = 5, nw_mit5_id = 6, nw_hosts = map (\<lambda>(n, ip, hop). (n, mk_host (snd st) e n ip hop)) host_table\<rparr>"

lemma map_of_triples: "map_of (map (\<lambda>(n, a, b). (n, f n a b)) xs) k = (case map_of xs k of None \<Rightarrow> None | Some (a, b) \<Rightarrow> Some (f k a b))"
  by (induction xs) (auto split: if_splits)

lemma mk_net_host:
  "map_of host_table name = Some (ip, hop) \<Longrightarrow> nw_host name (mk_net st e) = Inr (mk_host (snd st) e name ip hop)"
  by (simp add: nw_host_def mk_net_def map_of_triples mk_host_def)

lemma update_triples:
  "distinct (map fst xs) \<Longrightarrow> map_of xs k = Some (a, b) \<Longrightarrow> x = g k a b \<Longrightarrow> (\<And>n a b. n \<noteq> k \<Longrightarrow> g n a b = f n a b) \<Longrightarrow>
   map (\<lambda>(n, v). (n, if n = k then x else v)) (map (\<lambda>(n, a, b). (n, f n a b)) xs) = map (\<lambda>(n, a, b). (n, g n a b)) xs"
proof (induction xs)
  case (Cons y ys)
  obtain n c d where y: "y = (n, c, d)" by (metis prod_cases3)
  show ?case
  proof (cases "n = k")
    case True
    then have k: "k \<notin> fst ` set ys" using Cons.prems(1) y by auto
    have "map (\<lambda>(n, v). (n, if n = k then x else v)) (map (\<lambda>(n, a, b). (n, f n a b)) ys) = map (\<lambda>(n, a, b). (n, g n a b)) ys"
      using k Cons.prems(4) by (force intro!: map_cong)
    then show ?thesis using Cons.prems(2,3) True y by simp
  next
    case False
    then show ?thesis using Cons y by simp
  qed
qed simp

lemma mk_net_set_host:
  assumes "map_of host_table name = Some (ip, hop)" "x = mk_host h' e' name ip hop"
    and "\<And>n. n \<noteq> name \<Longrightarrow> h' n = snd st n" "\<And>n. n \<noteq> name \<Longrightarrow> e' n = e n"
  shows "nw_set_host name x (mk_net st e) = mk_net (fst st, h') e'"
proof -
  have "distinct (map fst host_table)" by (simp add: host_table_def)
  then have "map (\<lambda>(n, v). (n, if n = name then x else v)) (map (\<lambda>(n, ip, hop). (n, mk_host (snd st) e n ip hop)) host_table) =
      map (\<lambda>(n, ip, hop). (n, mk_host h' e' n ip hop)) host_table"
    by (rule update_triples[where g = "mk_host h' e'" and a = ip and b = hop]) (simp_all add: assms, simp add: mk_host_def assms(3,4))
  then show ?thesis by (simp add: nw_set_host_def mk_net_def del: map_map)
qed

lemma mk_net_interface: "i < 7 \<Longrightarrow> nw_interface i (mk_net st e) = Inr (fst st i)"
  by (simp add: nw_interface_def ro_interface_def mk_net_def mk_router_def)

lemma map_upt_update: "i < n \<Longrightarrow> (map r [0..<n])[i := x] = map (r(i := x)) [0..<n]"
  by (rule nth_equalityI) (simp_all add: nth_list_update)

lemma mk_net_set_interface: "i < 7 \<Longrightarrow> nw_set_interface i x (mk_net st e) = mk_net ((fst st)(i := x), snd st) e"
  by (simp add: nw_set_interface_def mk_net_def mk_router_def map_upt_update)

lemma mk_net_exchange:
  assumes "i < 7" "map_of host_table y = Some (ip, hop)"
  shows "nw_exchange x_name i y (mk_net st e, cerr) =
    sum_bind (exchange_frames x_name (fst st i) y (snd st y) cerr) (\<lambda>(x', y', cerr).
      Inr (mk_net ((fst st)(i := x'), (snd st)(y := y')) e, cerr))"
proof -
  have "nw_set_host y (ho_set_interface y' (mk_host (snd st) e y ip hop)) (mk_net ((fst st)(i := x'), snd st) e) =
      mk_net ((fst st)(i := x'), (snd st)(y := y')) e" for x' y'
    by (subst mk_net_set_host[OF assms(2), where h' = "(snd st)(y := y')" and e' = e]) (simp_all add: ho_set_interface_def mk_host_def)
  then show ?thesis
    using assms by (simp add: nw_exchange_def mk_net_interface mk_net_host mk_net_set_interface sum_bind_def
        split: sum.split) (simp add: mk_host_def)
qed

lemma mk_net_exchange3:
  assumes "i < 7" "map_of host_table y = Some (ip, hop)" "map_of host_table z = Some (ip', hop')" "y \<noteq> z"
  shows "nw_exchange3 x_name i y z (mk_net st e, cerr) =
    sum_bind (exchange_frames3 x_name (fst st i) y (snd st y) z (snd st z) cerr) (\<lambda>(x', y', z', cerr).
      Inr (mk_net ((fst st)(i := x'), (snd st)(y := y', z := z')) e, cerr))"
proof -
  have "nw_set_host z (ho_set_interface z' (mk_host (snd st) e z ip' hop'))
      (nw_set_host y (ho_set_interface y' (mk_host (snd st) e y ip hop)) (mk_net ((fst st)(i := x'), snd st) e)) =
      mk_net ((fst st)(i := x'), (snd st)(y := y', z := z')) e" for x' y' z'
    by (subst mk_net_set_host[OF assms(2), where h' = "(snd st)(y := y')" and e' = e])
      (simp_all add: ho_set_interface_def mk_host_def,
       subst mk_net_set_host[OF assms(3), where h' = "(snd st)(y := y', z := z')" and e' = e],
       simp_all add: mk_host_def)
  then show ?thesis
    using assms by (simp add: nw_exchange3_def mk_net_interface mk_net_host mk_net_set_interface sum_bind_def
        split: sum.split) (simp add: mk_host_def)
qed

section \<open>Links of the network\<close>

type_synonym link = "nat \<times> string list"

definition sim_links :: "link list" where
  "sim_links = [(0, [''default_router'']), (1, [''applesauce'']), (3, [''cherrypie'']), (5, [''hs_router'']), (4, [''dm42'', ''dm43''])]"

fun members :: "link \<Rightarrow> interfaces \<Rightarrow> AsyncNetworkInterface list" where
  "members (i, names) (r, h) = r i # map h names"

fun put_link :: "link \<Rightarrow> AsyncNetworkInterface list \<Rightarrow> interfaces \<Rightarrow> interfaces" where
  "put_link (i, names) xs (r, h) =
     (r(i := xs ! 0), \<lambda>n. case map_of (zip names (tl xs)) n of None \<Rightarrow> h n | Some x \<Rightarrow> x)"

definition idle_link :: "interfaces \<Rightarrow> link \<Rightarrow> bool" where
  "idle_link st l \<longleftrightarrow> (\<forall>a\<in>set (members l st). frames_out a = [])"

lemma sim_linkE:
  assumes "l \<in> set sim_links"
  obtains "l = (0, [''default_router''])" | "l = (1, [''applesauce''])" | "l = (3, [''cherrypie''])" | "l = (5, [''hs_router''])"
    | "l = (4, [''dm42'', ''dm43''])"
  using assms unfolding sim_links_def list.set insert_iff empty_iff by (elim disjE FalseE) (erule that)+

lemma sim_link_in:
  "(0, [''default_router'']) \<in> set sim_links" "(1, [''applesauce'']) \<in> set sim_links" "(3, [''cherrypie'']) \<in> set sim_links"
  "(5, [''hs_router'']) \<in> set sim_links" "(4, [''dm42'', ''dm43'']) \<in> set sim_links"
  unfolding sim_links_def list.set by (simp_all only: insert_iff simp_thms)

lemma host_table_simps:
  "map_of host_table ''default_router'' = Some (0xAB434C01, 0)" "map_of host_table ''applesauce'' = Some (0x0A000002, 0x0A000001)"
  "map_of host_table ''cherrypie'' = Some (0xC0A80002, 0xC0A80001)" "map_of host_table ''hs_router'' = Some (0x8FC30001, 0)"
  "map_of host_table ''dm42'' = Some (0xC6B2E52A, 0xC6B2E501)" "map_of host_table ''dm43'' = Some (0xC6B2E52B, 0xC6B2E501)"
  by (simp_all add: host_table_def)

lemma length_2_3:
  "length xs = Suc (Suc 0) \<Longrightarrow> \<exists>a b. xs = [a, b]" "length xs = Suc (Suc (Suc 0)) \<Longrightarrow> \<exists>a b c. xs = [a, b, c]"
  by (auto simp: length_Suc_conv)

lemma put_link_one: "put_link (i, [y]) [a, b] (r, h) = (r(i := a), h(y := b))"
  "y \<noteq> z \<Longrightarrow> put_link (i, [y, z]) [a, b, c] (r, h) = (r(i := a), h(y := b, z := c))"
  by (auto simp: fun_eq_iff)

lemmas exchange_links = mk_net_exchange[OF _ host_table_simps(1)] mk_net_exchange[OF _ host_table_simps(2)]
  mk_net_exchange[OF _ host_table_simps(3)] mk_net_exchange[OF _ host_table_simps(4)]
  mk_net_exchange3[OF _ host_table_simps(5,6)]

lemma physical_chain:
  assumes "exchange_frames ''router.default'' (r 0) ''default_router'' (h ''default_router'') cerr = Inr (a0, b0, c1)"
    "exchange_frames ''router.eth0'' (r 1) ''applesauce'' (h ''applesauce'') c1 = Inr (a1, b1, c2)"
    "exchange_frames ''router.eth2'' (r 3) ''cherrypie'' (h ''cherrypie'') c2 = Inr (a3, b3, c3)"
    "exchange_frames ''router.hs4'' (r 5) ''hs_router'' (h ''hs_router'') c3 = Inr (a5, b5, c4)"
    "exchange_frames3 ''router.uun3'' (r 4) ''dm42'' (h ''dm42'') ''dm43'' (h ''dm43'') c4 = Inr (a4, b4, d4, c5)"
  shows "simulate_physical_connections (mk_net (r, h) e, cerr) =
    Inr (mk_net (r(0 := a0, 1 := a1, 3 := a3, 5 := a5, 4 := a4),
      h(''default_router'' := b0, ''applesauce'' := b1, ''cherrypie'' := b3, ''hs_router'' := b5, ''dm42'' := b4, ''dm43'' := d4)) e, c5)"
proof -
  have ids: "nw_default_id (mk_net st e) = 0" "nw_eth0_id (mk_net st e) = 1" "nw_eth2_id (mk_net st e) = 3"
    "nw_hs4_id (mk_net st e) = 5" "nw_uun3_id (mk_net st e) = 4" for st e by (simp_all add: mk_net_def)
  show ?thesis
    using assms by (simp add: simulate_physical_connections_def sum_bind_def exchange_links ids)
qed

lemma physical_step:
  assumes "l \<in> set sim_links" "link_step (members l st) xs" "\<And>k. k \<in> set sim_links \<Longrightarrow> k \<noteq> l \<Longrightarrow> idle_link st k"
  shows "\<exists>cerr'. simulate_physical_connections (mk_net st e, cerr) = Inr (mk_net (put_link l xs st) e, cerr')"
proof -
  obtain r h where st: "st = (r, h)" by fastforce
  have two: "\<exists>a b c. exchange_frames xn (r i) y (h y) cerr = Inr (a, b, c) \<and> xs = [a, b]" if "l = (i, [y])" for i y xn cerr
    using exchange_step[of "r i" "h y" xs xn y cerr] assms(2) length_2_3(1)[of xs] that st by (auto simp: link_step_def)
  have three: "\<exists>a b c d. exchange_frames3 xn (r i) y (h y) z (h z) cerr = Inr (a, b, c, d) \<and> xs = [a, b, c]" if "l = (i, [y, z])" for i y z xn cerr
    using exchange_step3[of "r i" "h y" "h z" xs xn y z cerr] assms(2) length_2_3(2)[of xs] that st by (auto simp: link_step_def)
  have idle2: "exchange_frames xn (r i) y (h y) c = Inr (r i, h y, c)" if "(i, [y]) \<in> set sim_links" "l \<noteq> (i, [y])" for xn i y c
    using assms(3)[of "(i, [y])"] that st by (intro exchange_idle) (auto simp: idle_link_def)
  have idle3: "exchange_frames3 xn (r i) y (h y) z (h z) c = Inr (r i, h y, h z, c)"
    if "(i, [y, z]) \<in> set sim_links" "l \<noteq> (i, [y, z])" for xn i y z c
    using assms(3)[of "(i, [y, z])"] that st by (intro exchange_idle) (auto simp: idle_link_def)
  note I = idle2[of 0 "''default_router''"] idle2[of 1 "''applesauce''"] idle2[of 3 "''cherrypie''"] idle2[of 5 "''hs_router''"]
    idle3[of 4 "''dm42''" "''dm43''"]
  note S = st put_link_one fun_upd_idem sim_link_in sim_link_in(2)[unfolded One_nat_def]
  from assms(1) show ?thesis
  proof (cases rule: sim_linkE)
    case 1
    then obtain a b c where "exchange_frames ''router.default'' (r 0) ''default_router'' (h ''default_router'') cerr = Inr (a, b, c)" "xs = [a, b]"
      using two by blast
    with 1 physical_chain[OF this(1) I(2-5)] show ?thesis by (simp add: S del: put_link.simps)
  next
    case 2
    then obtain a b c where "exchange_frames ''router.eth0'' (r 1) ''applesauce'' (h ''applesauce'') cerr = Inr (a, b, c)" "xs = [a, b]"
      using two by blast
    with 2 physical_chain[OF I(1) this(1) I(3-5)] show ?thesis by (simp add: S del: put_link.simps)
  next
    case 3
    then obtain a b c where "exchange_frames ''router.eth2'' (r 3) ''cherrypie'' (h ''cherrypie'') cerr = Inr (a, b, c)" "xs = [a, b]"
      using two by blast
    with 3 physical_chain[OF I(1,2) this(1) I(4-5)] show ?thesis by (simp add: S del: put_link.simps)
  next
    case 4
    then obtain a b c where "exchange_frames ''router.hs4'' (r 5) ''hs_router'' (h ''hs_router'') cerr = Inr (a, b, c)" "xs = [a, b]"
      using two by blast
    with 4 physical_chain[OF I(1-3) this(1) I(5)] show ?thesis by (simp add: S del: put_link.simps)
  next
    case 5
    then obtain a b c d where "exchange_frames3 ''router.uun3'' (r 4) ''dm42'' (h ''dm42'') ''dm43'' (h ''dm43'') cerr = Inr (a, b, c, d)" "xs = [a, b, c]"
      using three by blast
    with 5 physical_chain[OF I(1-4) this(1)] show ?thesis by (simp add: S del: put_link.simps)
  qed
qed

section \<open>Rounds\<close>

lemma members_put [simp]:
  "distinct (snd l) \<Longrightarrow> length xs = Suc (length (snd l)) \<Longrightarrow> members l (put_link l xs st) = xs"
proof (induction l st rule: members.induct)
  case (1 i names r h)
  then obtain x ys where xs: "xs = x # ys" "length ys = length names" by (cases xs) auto
  have "map (\<lambda>n. case map_of (zip names ys) n of None \<Rightarrow> h n | Some x \<Rightarrow> x) names = ys"
    using 1 xs by (intro nth_equalityI) (simp_all add: map_of_zip_nth)
  then show ?case using xs by simp
qed

lemma put_put [simp]:
  assumes "length xs = Suc (length (snd l))" "length ys = Suc (length (snd l))"
  shows "put_link l ys (put_link l xs st) = put_link l ys st"
proof -
  obtain i names where l: "l = (i, names)" by fastforce
  obtain r h where st: "st = (r, h)" by fastforce
  have "(map_of (zip names (tl ys)) n = None) = (map_of (zip names (tl xs)) n = None)" for n
    using assms l by (simp add: map_of_zip_is_None)
  then have "(case map_of (zip names (tl ys)) n of None \<Rightarrow> (case map_of (zip names (tl xs)) n of None \<Rightarrow> h n | Some x \<Rightarrow> x) | Some x \<Rightarrow> x) =
      (case map_of (zip names (tl ys)) n of None \<Rightarrow> h n | Some x \<Rightarrow> x)" for n
    by (metis option.case_eq_if)
  then show ?thesis using l st by simp
qed

lemma put_members [simp]: "put_link l (members l st) st = st"
proof -
  obtain i names where l: "l = (i, names)" by fastforce
  obtain r h where st: "st = (r, h)" by fastforce
  have "x = h n" if "map_of (zip names (map h names)) n = Some x" for n x
    using map_of_SomeD[OF that] by (auto simp: in_set_zip)
  then show ?thesis using l st by (auto simp: fun_eq_iff split: option.splits)
qed

lemma members_length [simp]: "length (members l st) = Suc (length (snd l))"
  by (cases l; cases st) simp

definition apart :: "link \<Rightarrow> link \<Rightarrow> bool" where
  "apart l k \<longleftrightarrow> fst l \<noteq> fst k \<and> set (snd l) \<inter> set (snd k) = {}"

lemma sim_links_apart: "l \<in> set sim_links \<Longrightarrow> k \<in> set sim_links \<Longrightarrow> l \<noteq> k \<Longrightarrow> apart l k"
proof -
  have "list_all (\<lambda>l. list_all (\<lambda>k. l = k \<or> apart l k) sim_links) sim_links" by code_simp
  then show "l \<in> set sim_links \<Longrightarrow> k \<in> set sim_links \<Longrightarrow> l \<noteq> k \<Longrightarrow> apart l k" by (auto simp: list_all_iff)
qed

lemma sim_links_distinct: "l \<in> set sim_links \<Longrightarrow> distinct (snd l) \<and> fst l < 7"
proof -
  have "list_all (\<lambda>l. distinct (snd l) \<and> fst l < 7) sim_links" by code_simp
  then show "l \<in> set sim_links \<Longrightarrow> distinct (snd l) \<and> fst l < 7" by (simp add: list_all_iff)
qed

lemma members_apart:
  assumes "apart l k" "length xs = Suc (length (snd l))"
  shows "members k (put_link l xs st) = members k st"
proof -
  obtain i names j names' where l: "l = (i, names)" "k = (j, names')" by fastforce
  obtain r h where st: "st = (r, h)" by fastforce
  have "(case map_of (zip names (tl xs)) n of None \<Rightarrow> h n | Some x \<Rightarrow> x) = h n" if "n \<in> set names'" for n
  proof -
    have "map_of (zip names (tl xs)) n = None" using that assms l by (subst map_of_zip_is_None) (auto simp: apart_def)
    then show ?thesis by simp
  qed
  then show ?thesis using assms l st by (auto simp: apart_def)
qed

text \<open>The router has nothing to forward.\<close>

definition drained :: "interfaces \<Rightarrow> bool" where
  "drained st \<longleftrightarrow> (\<forall>i<7. an_datagrams_out (fst st i) = [])"

lemma route_drained: "drained st \<Longrightarrow> ro_route (mk_router (fst st)) = Inr (mk_router (fst st))"
proof -
  assume d: "drained st"
  have "ro_route_loop is (mk_router (fst st)) = Inr (mk_router (fst st))" if "set is \<subseteq> {..<7}" for "is"
    using that d by (induction "is") (auto simp del: upt_rec_numeral simp: drained_def mk_router_def ro_queue_def ro_drain.simps)
  then have "ro_route_loop [0..<7] (mk_router (fst st)) = Inr (mk_router (fst st))" by this auto
  then show ?thesis by (simp add: ro_route_def mk_router_def del: upt_rec_numeral)
qed

text \<open>\<open>n\<close> rounds of the simulation.\<close>

definition rounds :: "nat \<Rightarrow> interfaces \<Rightarrow> interfaces \<Rightarrow> bool" where
  "rounds n st st' \<longleftrightarrow> (\<forall>e cerr m. \<exists>cerr'. simulate_loop (n + m) (mk_net st e, cerr) = simulate_loop m (mk_net st' e, cerr'))"

lemma rounds_trans: "rounds n a b \<Longrightarrow> rounds m b c \<Longrightarrow> rounds (n + m) a c"
  unfolding rounds_def by (metis add.assoc)

lemma rounds_0: "rounds 0 st st" by (auto simp: rounds_def)

lemma mk_net_router: "(mk_net st e)\<lparr>nw_router := mk_router r\<rparr> = mk_net (r, snd st) e" "nw_router (mk_net st e) = mk_router (fst st)"
  by (simp_all add: mk_net_def)

lemma rounds_step:
  assumes "drained st" "l \<in> set sim_links" "link_step (members l st) xs" "\<And>k. k \<in> set sim_links \<Longrightarrow> k \<noteq> l \<Longrightarrow> idle_link st k"
  shows "rounds 1 st (put_link l xs st)"
  unfolding rounds_def
proof (intro allI)
  fix e cerr m
  obtain c where "simulate_physical_connections (mk_net st e, cerr) = Inr (mk_net (put_link l xs st) e, c)"
    using physical_step[OF assms(2-4)] by blast
  then have "simulate_loop (1 + m) (mk_net st e, cerr) = simulate_loop m (mk_net (put_link l xs st) e, c)"
    using route_drained[OF assms(1)] by (simp add: mk_net_router sum_bind_def)
  then show "\<exists>c. simulate_loop (1 + m) (mk_net st e, cerr) = simulate_loop m (mk_net (put_link l xs st) e, c)" by blast
qed

lemma rounds_idle:
  assumes "drained st" "\<And>k. k \<in> set sim_links \<Longrightarrow> idle_link st k"
  shows "rounds n st st"
proof (induction n)
  case (Suc n)
  obtain r h where st: "st = (r, h)" by fastforce
  have "simulate_physical_connections (mk_net st e, cerr) = Inr (mk_net st e, cerr)" for e cerr
  proof -
    have f: "frames_out (r 0) = []" "frames_out (r 1) = []" "frames_out (r 3) = []" "frames_out (r 4) = []" "frames_out (r 5) = []"
      "frames_out (h ''default_router'') = []" "frames_out (h ''applesauce'') = []" "frames_out (h ''cherrypie'') = []"
      "frames_out (h ''hs_router'') = []" "frames_out (h ''dm42'') = []" "frames_out (h ''dm43'') = []"
      using sim_link_in[THEN assms(2)] by (simp_all add: st idle_link_def del: One_nat_def)
    show ?thesis unfolding st
      by (subst physical_chain[OF exchange_idle(1) exchange_idle(1) exchange_idle(1) exchange_idle(1) exchange_idle(2)])
        (simp_all add: f f(2)[unfolded One_nat_def] fun_upd_idem)
  qed
  then have "rounds 1 st st"
    using route_drained[OF assms(1)] by (auto simp: rounds_def mk_net_router sum_bind_def)
  from rounds_trans[OF this Suc.IH] show ?case by simp
qed (simp add: rounds_0)

lemma rounds_route:
  assumes "ro_route (mk_router (fst st)) = Inr (mk_router r)" "drained (r, snd st)" "rounds (Suc n) (r, snd st) st'"
  shows "rounds (Suc n) st st'"
proof -
  have "simulate_loop (Suc n + m) (mk_net st e, cerr) = simulate_loop (Suc n + m) (mk_net (r, snd st) e, cerr)" for e cerr m
    using assms(1) route_drained[OF assms(2)] by (simp add: mk_net_router)
  then show ?thesis using assms(3) by (simp add: rounds_def)
qed

section \<open>A transfer in the network\<close>

definition link_ips :: "nat \<Rightarrow> u32 list" where
  "link_ips i =
     (if i = 0 then [0xAB434C2E, 0xAB434C01] else if i = 1 then [0x0A000001, 0x0A000002] else if i = 3 then [0xC0A80001, 0xC0A80002]
      else if i = 5 then [0x8FC30002, 0x8FC30001] else [0xC6B2E501, 0xC6B2E52A, 0xC6B2E52B])"

text \<open>Nothing is under way; a datagram has arrived at station \<open>k\<close> of a link, and nothing else is under way.\<close>

definition quiet :: "(nat \<Rightarrow> u32 \<Rightarrow> EthernetAddress option) \<Rightarrow> interfaces \<Rightarrow> bool" where
  "quiet A st \<longleftrightarrow> drained st \<and> (\<forall>l\<in>set sim_links. link_at_rest (A (fst l)) (link_ips (fst l)) (members l st) \<and>
     (\<forall>a\<in>set (members l st). an_datagrams_out a = []))"

definition arrived :: "link \<Rightarrow> nat \<Rightarrow> IPv4Datagram \<Rightarrow> interfaces \<Rightarrow> interfaces" where
  "arrived l k d st = put_link l ((members l st)[k := (members l st ! k)\<lparr>an_datagrams_out := [d]\<rparr>]) st"

lemma quietD:
  assumes "quiet A st" "l \<in> set sim_links"
  shows "drained st" "link_at_rest (A (fst l)) (link_ips (fst l)) (members l st)" "map an_datagrams_out (members l st) = replicate (Suc (length (snd l))) []"
    "idle_link st l"
proof -
  have q: "drained st" "link_at_rest (A (fst l)) (link_ips (fst l)) (members l st)" "\<And>a. a \<in> set (members l st) \<Longrightarrow> an_datagrams_out a = []"
    using assms by (auto simp: quiet_def)
  then show "drained st" "link_at_rest (A (fst l)) (link_ips (fst l)) (members l st)" by blast+
  show "map an_datagrams_out (members l st) = replicate (Suc (length (snd l))) []"
    by (rule replicate_eqI) (auto simp: q(3))
  show "idle_link st l" using q(2) unfolding idle_link_def link_at_rest_def by (metis in_set_conv_nth)
qed

lemma fst_put: "fst (put_link l xs st) = (fst st)(fst l := xs ! 0)"
  by (cases l; cases st) simp

lemma drained_put: "drained st \<Longrightarrow> an_datagrams_out (xs ! 0) = [] \<Longrightarrow> drained (put_link l xs st)"
  by (simp add: drained_def fst_put)

lemma idle_put:
  assumes "quiet A st" "l \<in> set sim_links" "length xs = Suc (length (snd l))" "k \<in> set sim_links" "k \<noteq> l"
  shows "idle_link (put_link l xs st) k"
  using quietD(4)[OF assms(1,4)] members_apart[OF sim_links_apart[OF assms(2,4)] assms(3)] assms(5) by (simp add: idle_link_def)

lemma link_rounds:
  assumes "quiet A st" "l \<in> set sim_links" "length xs = Suc (length (snd l))" "an_datagrams_out (xs ! 0) = []" "link_step xs ys"
  shows "rounds 1 (put_link l xs st) (put_link l ys st)"
proof -
  have "length ys = length xs" using assms(5) by (simp add: link_step_def)
  moreover have "rounds 1 (put_link l xs st) (put_link l ys (put_link l xs st))"
    using assms sim_links_distinct[OF assms(2)] by (intro rounds_step drained_put quietD(1)[OF assms(1,2)] idle_put[OF assms(1-3)]) simp_all
  ultimately show ?thesis using assms(3) by simp
qed

lemma silent_rounds:
  assumes "quiet A st" "l \<in> set sim_links"
  shows "(silent_step ^^ n) xs zs \<Longrightarrow> length xs = Suc (length (snd l)) \<Longrightarrow> an_datagrams_out (xs ! 0) = [] \<Longrightarrow>
    rounds n (put_link l xs st) (put_link l zs st) \<and> map an_datagrams_out zs = map an_datagrams_out xs"
proof (induction n arbitrary: zs)
  case (Suc n)
  then obtain ys where ys: "(silent_step ^^ n) xs ys" "silent_step ys zs" by auto
  note IH = Suc.IH[OF ys(1) Suc.prems(2,3)]
  then have len: "length ys = length xs" using map_eq_imp_length_eq by blast
  then have "an_datagrams_out (ys ! 0) = []" using IH Suc.prems(2,3) by (metis nth_map zero_less_Suc)
  then have "rounds 1 (put_link l ys st) (put_link l zs st)"
    using ys(2) len Suc.prems(2) by (intro link_rounds[OF assms]) (simp_all add: silent_step_def)
  then show ?case using rounds_trans[of n _ _ 1] IH ys(2) by (fastforce simp: silent_step_def)
qed (simp add: rounds_0)

lemma quiet_put:
  assumes "quiet A st" "l \<in> set sim_links" "link_at_rest (A (fst l)) (link_ips (fst l)) xs" "\<And>a. a \<in> set xs \<Longrightarrow> an_datagrams_out a = []"
    "length xs = Suc (length (snd l))"
  shows "quiet A (put_link l xs st)"
proof -
  have "an_datagrams_out (xs ! 0) = []" using assms(4,5) by (cases xs) auto
  then have "drained (put_link l xs st)" using drained_put assms(1) by (auto simp: quiet_def)
  moreover have "link_at_rest (A (fst k)) (link_ips (fst k)) (members k (put_link l xs st)) \<and>
      (\<forall>a\<in>set (members k (put_link l xs st)). an_datagrams_out a = [])" if "k \<in> set sim_links" for k
  proof (cases "k = l")
    case False
    then have "members k (put_link l xs st) = members k st" using members_apart sim_links_apart assms(2,5) that by metis
    then show ?thesis using assms(1) that by (simp add: quiet_def)
  qed (use assms sim_links_distinct[OF assms(2)] in simp)
  ultimately show ?thesis by (simp add: quiet_def)
qed

lemma transfer_rounds:
  assumes "quiet A st" "l \<in> set sim_links" "private_pair (A (fst l)) (link_ips (fst l)) j k" "dg_valid d"
  obtains x n st' d' where "sent d (link_ips (fst l) ! k) (members l st ! j) x" "n \<le> 2"
    "rounds (Suc n) (put_link l ((members l st)[j := x]) st) (arrived l k d' st')" "quiet A st'" "dg_same d d'"
proof -
  note Q = quietD[OF assms(1,2)]
  obtain x n zs ys d' where x: "sent d (link_ips (fst l) ! k) (members l st ! j) x" and n: "n \<le> 2"
    and zs: "(silent_step ^^ n) ((members l st)[j := x]) zs" and ys: "link_step zs ys"
    and rest: "link_at_rest (A (fst l)) (link_ips (fst l)) ys" and d': "dg_same d d'"
    and outs: "map an_datagrams_out ys = (map an_datagrams_out (members l st))[k := an_datagrams_out (members l st ! k) @ [d']]"
    by (rule transfer[OF Q(2) assms(3,4)])
  let ?xs = "(members l st)[j := x]" and ?n = "Suc (length (snd l))"
  have jk: "j < ?n" "k < ?n" using assms(3) Q(2) by (auto simp: private_pair_def link_at_rest_def)
  have nil: "an_datagrams_out (members l st ! m) = []" if "m < ?n" for m
    using arg_cong[OF Q(3), of "\<lambda>us. us ! m"] that by (simp del: replicate_Suc)
  have "an_datagrams_out x = []" using x nil[OF jk(1)] by (auto simp: sent_def)
  then have o0: "map an_datagrams_out ?xs = replicate ?n []"
    using jk by (simp add: map_update Q(3) list_update_same_conv del: replicate_Suc)
  have x0: "an_datagrams_out (?xs ! 0) = []"
    using arg_cong[OF o0, of "\<lambda>us. us ! 0"] by simp
  have len: "length zs = ?n" "length ys = ?n"
    using ys arg_cong[OF outs, of length] by (auto simp: link_step_def)
  have z: "rounds n (put_link l ?xs st) (put_link l zs st) \<and> map an_datagrams_out zs = map an_datagrams_out ?xs"
    by (rule silent_rounds[OF assms(1,2) zs]) (use o0 x0 in simp_all)
  then have "map an_datagrams_out zs = replicate ?n []" using o0 by simp
  from arg_cong[OF this, of "\<lambda>us. us ! 0"] have "an_datagrams_out (zs ! 0) = []" using len(1) by simp
  then have "rounds 1 (put_link l zs st) (put_link l ys st)" using link_rounds[OF assms(1,2) len(1) _ ys] by blast
  then have r: "rounds (Suc n) (put_link l ?xs st) (put_link l ys st)" using rounds_trans z by fastforce
  let ?ys = "map (an_datagrams_out_update (\<lambda>_. [])) ys"
  let ?st = "put_link l ?ys st"
  have "quiet A ?st"
    using rest len by (intro quiet_put[OF assms(1,2)]) (auto simp: link_at_rest_def frames_out_def)
  moreover have o2: "map an_datagrams_out ys = (replicate ?n [])[k := [d']]"
    using outs Q(3) nil[OF jk(2)] by simp
  have "?ys[k := (?ys ! k)\<lparr>an_datagrams_out := [d']\<rparr>] = ys"
  proof (rule nth_equalityI)
    fix i assume i: "i < length (?ys[k := (?ys ! k)\<lparr>an_datagrams_out := [d']\<rparr>])"
    then have "i < ?n" using len by simp
    then have "an_datagrams_out (ys ! i) = (if i = k then [d'] else [])"
      using arg_cong[OF o2, of "\<lambda>us. us ! i"] len(2) by (simp add: nth_list_update del: replicate_Suc)
    then show "?ys[k := (?ys ! k)\<lparr>an_datagrams_out := [d']\<rparr>] ! i = ys ! i" using i by (cases "i = k"; cases "ys ! i") auto
  qed simp
  then have "arrived l k d' ?st = put_link l ys st" using len sim_links_distinct[OF assms(2)] by (simp add: arrived_def)
  ultimately show thesis using that x n r d' by metis
qed

section \<open>Forwarding in the network\<close>

lemma mk_router_parts:
  "length (ro_interfaces (mk_router r)) = 7" "ro_routes (mk_router r) = route_table" "j < 7 \<Longrightarrow> ro_interfaces (mk_router r) ! j = r j"
  "j < 7 \<Longrightarrow> (mk_router r)\<lparr>ro_interfaces := (ro_interfaces (mk_router r))[j := x]\<rparr> = mk_router (r(j := x))"
  by (simp_all add: mk_router_def map_upt_update del: upt_rec_numeral)

lemma route_loop_append:
  "ro_route_loop (is @ js) ro = (case ro_route_loop is ro of Inl e \<Rightarrow> Inl e | Inr ro' \<Rightarrow> ro_route_loop js ro')"
  by (induction "is" arbitrary: ro) (auto split: sum.split)

lemma route_skip:
  "(\<And>j. j \<in> set is \<Longrightarrow> j < 7 \<and> an_datagrams_out (r j) = []) \<Longrightarrow> ro_route_loop is (mk_router r) = Inr (mk_router r)"
  by (induction "is") (auto simp: ro_drain.simps ro_queue_def mk_router_parts)

lemma route_single:
  assumes "drained (r, h)" "i < 7" "ro_route_one_datagram d (mk_router (r(i := (r i)\<lparr>an_datagrams_out := [d]\<rparr>))) = Inr (mk_router r2)"
    and "\<And>j. j < 7 \<Longrightarrow> an_datagrams_out (r2 j) = (if j = i then [d] else [])"
  shows "ro_route (mk_router (r(i := (r i)\<lparr>an_datagrams_out := [d]\<rparr>))) = Inr (mk_router (r2(i := (r2 i)\<lparr>an_datagrams_out := []\<rparr>)))"
proof -
  let ?r1 = "r(i := (r i)\<lparr>an_datagrams_out := [d]\<rparr>)" and ?r3 = "r2(i := (r2 i)\<lparr>an_datagrams_out := []\<rparr>)"
  have "[0..<7] = [0..<i] @ [i] @ [Suc i..<7]" using assms(2) by (metis append_Cons append_Nil le0 less_imp_le_nat upt_add_eq_append upt_conv_Cons le_add_diff_inverse)
  moreover have "ro_route_loop [0..<i] (mk_router ?r1) = Inr (mk_router ?r1)"
    using assms(1,2) by (intro route_skip) (auto simp: drained_def)
  moreover have "ro_route_loop [Suc i..<7] (mk_router ?r3) = Inr (mk_router ?r3)"
    using assms(4) by (intro route_skip) auto
  moreover have "ro_drain i (mk_router ?r1) = Inr (mk_router ?r3)"
  proof -
    have pop: "ro_pop i (mk_router r2) = mk_router ?r3"
      using assms(2,4) by (simp add: ro_pop_def ro_queue_def mk_router_parts)
    have "ro_drain i (mk_router ?r3) = Inr (mk_router ?r3)"
      using assms(2) by (subst ro_drain.simps) (simp add: ro_queue_def mk_router_parts)
    then show ?thesis
      using assms(2,3) pop by (subst ro_drain.simps) (simp add: ro_queue_def mk_router_parts)
  qed
  ultimately show ?thesis by (simp add: ro_route_def mk_router_parts route_loop_append del: upt_rec_numeral)
qed

lemma sent_outs: "sent d hop a x \<Longrightarrow> sent d hop (a\<lparr>an_datagrams_out := q\<rparr>) (x\<lparr>an_datagrams_out := q\<rparr>) \<and> an_datagrams_out x = an_datagrams_out a"
  by (auto simp: sent_def)

lemma route_one_forward:
  assumes "1 < ip_ttl (dg_header d)" "ro_best_match (ip_dst (dg_header d)) route_table None = Inr (Some b)"
    and "rt_interface_num b < 7" "hop_address d b = ad_ipv4 0 hop" "sent (dg_hop d) hop (r (rt_interface_num b)) x"
  shows "ro_route_one_datagram d (mk_router r) = Inr (mk_router (r(rt_interface_num b := x)))"
proof -
  obtain n' where n': "ni_send_datagram (dg_hop d) (ad_ipv4 0 hop) (an_interface (r (rt_interface_num b))) = Inr n'"
    "x = (r (rt_interface_num b))\<lparr>an_interface := n'\<rparr>" using assms(5) by (auto simp: sent_def)
  then have "ro_send (rt_interface_num b) (dg_hop d) (ad_ipv4 0 hop) (mk_router r) = Inr (mk_router (r(rt_interface_num b := x)))"
    using assms(3) by (simp add: ro_send_def mk_router_parts)
  then show ?thesis
    using assms(1,2,4) by (auto simp: ro_route_one_datagram_def mk_router_parts hop_address_def dg_hop_def ad_from_ipv4 not_le Let_def split: option.splits)
qed

lemma arrived_router: "fst (arrived l 0 d st) = (fst st)(fst l := (fst st (fst l))\<lparr>an_datagrams_out := [d]\<rparr>)" "snd (arrived l 0 d st) = snd st"
proof -
  obtain i names r h where l: "l = (i, names)" "st = (r, h)" by (metis surj_pair)
  then have "members l st = r i # map h names" by simp
  moreover have "put_link l ((r i)\<lparr>an_datagrams_out := [d]\<rparr> # map h names) st = (r(i := (r i)\<lparr>an_datagrams_out := [d]\<rparr>), h)"
    using put_members[of l st] l by simp
  ultimately show "fst (arrived l 0 d st) = (fst st)(fst l := (fst st (fst l))\<lparr>an_datagrams_out := [d]\<rparr>)" "snd (arrived l 0 d st) = snd st"
    using l by (simp_all add: arrived_def)
qed

lemma route_forward:
  assumes "quiet A st" "l \<in> set sim_links" "1 < ip_ttl (dg_header d)"
    "ro_best_match (ip_dst (dg_header d)) route_table None = Inr (Some b)" "rt_interface_num b < 7" "hop_address d b = ad_ipv4 0 hop"
    "sent (dg_hop d) hop (fst st (rt_interface_num b)) x"
  shows "ro_route (mk_router (fst (arrived l 0 d st))) = Inr (mk_router ((fst st)(rt_interface_num b := x)))"
proof -
  let ?i = "fst l" and ?k = "rt_interface_num b" and ?r = "fst st"
  let ?q = "if ?k = ?i then [d] else []"
  have i: "?i < 7" using sim_links_distinct[OF assms(2)] by simp
  have dr: "an_datagrams_out (?r j) = []" if "j < 7" for j using quietD(1)[OF assms(1,2)] that by (simp add: drained_def)
  note x = sent_outs[OF assms(7), of ?q]
  let ?r1 = "?r(?i := (?r ?i)\<lparr>an_datagrams_out := [d]\<rparr>)" and ?r2 = "?r(?i := (?r ?i)\<lparr>an_datagrams_out := [d]\<rparr>, ?k := x\<lparr>an_datagrams_out := ?q\<rparr>)"
  have e: "?r1 ?k = (?r ?k)\<lparr>an_datagrams_out := ?q\<rparr>" using dr[OF assms(5)] by (cases "?r ?k") auto
  have one: "ro_route_one_datagram d (mk_router ?r1) = Inr (mk_router ?r2)"
    by (rule route_one_forward[OF assms(3-6)]) (use x e in auto)
  have "ro_route (mk_router ?r1) = Inr (mk_router (?r2(?i := (?r2 ?i)\<lparr>an_datagrams_out := []\<rparr>)))"
    by (rule route_single[where h = "snd st", OF _ i one]) (use quietD(1)[OF assms(1,2)] dr in auto)
  moreover have "?r2(?i := (?r2 ?i)\<lparr>an_datagrams_out := []\<rparr>) = ?r(?k := x)"
    using dr[OF i] dr[OF assms(5)] x by (cases "?r ?i"; cases x) (auto simp: fun_eq_iff)
  ultimately show ?thesis by (simp add: arrived_router)
qed

lemma route_drop:
  assumes "quiet A st" "l \<in> set sim_links" "ip_ttl (dg_header d) \<le> 1"
  shows "ro_route (mk_router (fst (arrived l 0 d st))) = Inr (mk_router (fst st))"
proof -
  let ?i = "fst l" and ?r = "fst st"
  have i: "?i < 7" using sim_links_distinct[OF assms(2)] by simp
  have dr: "an_datagrams_out (?r j) = []" if "j < 7" for j using quietD(1)[OF assms(1,2)] that by (simp add: drained_def)
  let ?r1 = "?r(?i := (?r ?i)\<lparr>an_datagrams_out := [d]\<rparr>)"
  have "ro_route (mk_router ?r1) = Inr (mk_router (?r1(?i := (?r1 ?i)\<lparr>an_datagrams_out := []\<rparr>)))"
    by (rule route_single[where h = "snd st", OF _ i]) (use quietD(1)[OF assms(1,2)] dr assms(3) in \<open>auto simp: ro_route_one_datagram_def\<close>)
  moreover have "?r1(?i := (?r1 ?i)\<lparr>an_datagrams_out := []\<rparr>) = ?r" using dr[OF i] by (cases "?r ?i") (auto simp: fun_eq_iff)
  ultimately show ?thesis by (simp add: arrived_router)
qed

section \<open>The journey of a datagram\<close>

lemma dg_same_facts:
  assumes "dg_same d d'"
  shows "dg_header d' = (dg_header d)\<lparr>ip_cksum := ip_cksum (dg_header d')\<rparr>" "dg_valid d' = dg_valid d" "dg_same (dg_hop d') e = dg_same (dg_hop d) e"
    "hop_address d' b = hop_address d b"
  using assms by (auto simp: dg_same_def dg_valid_def ip_wf_def dg_hop_def hop_address_def split: option.split)

lemma put_router: "put_link l ((members l st)[0 := x]) st = ((fst st)(fst l := x), snd st)"
proof -
  obtain i names r h where l: "l = (i, names)" "st = (r, h)" by (metis surj_pair)
  then show ?thesis using put_members[of l st] by simp
qed

lemma put_host:
  assumes "m < length (snd l)" "distinct (snd l)"
  shows "put_link l ((members l st)[Suc m := x]) st = (fst st, (snd st)(snd l ! m := x))"
proof -
  obtain i names r h where l: "l = (i, names)" "st = (r, h)" by (metis surj_pair)
  have "(case map_of (zip names ((map h names)[m := x])) n of None \<Rightarrow> h n | Some y \<Rightarrow> y) = (if n = names ! m then x else h n)" for n
  proof (cases "n \<in> set names")
    case True
    then obtain p where p: "p < length names" "n = names ! p" by (metis in_set_conv_nth)
    then have "map_of (zip names ((map h names)[m := x])) n = Some ((map h names)[m := x] ! p)"
      using assms l by (simp add: map_of_zip_nth)
    moreover have "(n = names ! m) = (p = m)" using p assms l nth_eq_iff_index_eq by auto
    ultimately show ?thesis using p by (simp add: nth_list_update)
  next
    case False
    then have "map_of (zip names ((map h names)[m := x])) n = None" by (subst map_of_zip_is_None) simp_all
    moreover have "n \<noteq> names ! m" using False assms l by auto
    ultimately show ?thesis by (simp del: map_of_zip_is_None)
  qed
  then show ?thesis using l by (auto simp: fun_eq_iff)
qed

lemma members_0: "members l st ! 0 = fst st (fst l)"
  by (cases l; cases st) simp

lemma members_Suc: "m < length (snd l) \<Longrightarrow> members l st ! Suc m = snd st (snd l ! m)"
  by (cases l; cases st) simp

lemma forward_journey:
  assumes "quiet A st" "l \<in> set sim_links" "l2 \<in> set sim_links"
    and "private_pair (A (fst l)) (link_ips (fst l)) j 0" "private_pair (A (fst l2)) (link_ips (fst l2)) 0 k"
    and "dg_valid d" "1 < ip_ttl (dg_header d)" "ro_best_match (ip_dst (dg_header d)) route_table None = Inr (Some b)"
    and "rt_interface_num b = fst l2" "hop_address d b = ad_ipv4 0 (link_ips (fst l2) ! k)"
  obtains x n st' d' where "sent d (link_ips (fst l) ! 0) (members l st ! j) x" "n \<le> 6"
    "rounds n (put_link l ((members l st)[j := x]) st) (arrived l2 k d' st')" "quiet A st'" "dg_same (dg_hop d) d'"
proof -
  obtain x n1 st1 d1 where x: "sent d (link_ips (fst l) ! 0) (members l st ! j) x" "n1 \<le> 2"
    and r1: "rounds (Suc n1) (put_link l ((members l st)[j := x]) st) (arrived l 0 d1 st1)" and q1: "quiet A st1" and d1: "dg_same d d1"
    by (rule transfer_rounds[OF assms(1,2,4,6)])
  note D = dg_same_facts[OF d1]
  have v: "dg_valid (dg_hop d1)" using D(2) assms(6) by (simp add: dg_valid_hop)
  obtain y n2 st2 d2 where y: "sent (dg_hop d1) (link_ips (fst l2) ! k) (members l2 st1 ! 0) y" "n2 \<le> 2"
    and r2: "rounds (Suc n2) (put_link l2 ((members l2 st1)[0 := y]) st1) (arrived l2 k d2 st2)" and q2: "quiet A st2" and d2: "dg_same (dg_hop d1) d2"
    by (rule transfer_rounds[OF q1 assms(3,5) v])
  have y': "sent (dg_hop d1) (link_ips (fst l2) ! k) (fst st1 (rt_interface_num b)) y" using y(1) assms(9) by (simp add: members_0)
  have i2: "fst l2 < 7" using sim_links_distinct[OF assms(3)] by simp
  have h: "1 < ip_ttl (dg_header d1)" "ro_best_match (ip_dst (dg_header d1)) route_table None = Inr (Some b)"
    using assms(7,8) by (subst D(1); simp)+
  have rt: "ro_route (mk_router (fst (arrived l 0 d1 st1))) = Inr (mk_router ((fst st1)(fst l2 := y)))"
    using route_forward[OF q1 assms(2) h _ _ y'] assms(9,10) i2 D(4) by simp
  have "drained ((fst st1)(fst l2 := y), snd (arrived l 0 d1 st1))"
    using quietD(1)[OF q1 assms(2)] sent_outs[OF y'] i2 assms(9) by (simp add: drained_def)
  from rounds_route[OF rt this] have "rounds (Suc n2) (arrived l 0 d1 st1) (arrived l2 k d2 st2)"
    using r2 unfolding put_router arrived_router(2) .
  from rounds_trans[OF r1 this] have "rounds (Suc n1 + Suc n2) (put_link l ((members l st)[j := x]) st) (arrived l2 k d2 st2)" .
  moreover have "Suc n1 + Suc n2 \<le> 6" using x(2) y(2) by simp
  moreover have "dg_same (dg_hop d) d2" using d2 D(3) by blast
  ultimately show thesis using that x(1) q2 by blast
qed

lemma expire_journey:
  assumes "quiet A st" "l \<in> set sim_links" "private_pair (A (fst l)) (link_ips (fst l)) j 0" "dg_valid d" "ip_ttl (dg_header d) \<le> 1"
  obtains x n st' where "sent d (link_ips (fst l) ! 0) (members l st ! j) x" "n \<le> 6"
    "rounds n (put_link l ((members l st)[j := x]) st) st'" "quiet A st'"
proof -
  obtain x n st1 d1 where x: "sent d (link_ips (fst l) ! 0) (members l st ! j) x" "n \<le> 2"
    and r1: "rounds (Suc n) (put_link l ((members l st)[j := x]) st) (arrived l 0 d1 st1)" and q1: "quiet A st1" and d1: "dg_same d d1"
    by (rule transfer_rounds[OF assms(1-4)])
  have "ip_ttl (dg_header d1) \<le> 1" using assms(5) by (subst dg_same_facts(1)[OF d1]) simp
  note rt = route_drop[OF q1 assms(2) this]
  have "rounds (Suc 0) st1 st1" by (rule rounds_idle[OF quietD(1)[OF q1 assms(2)] quietD(4)[OF q1]])
  then have "rounds (Suc 0) (arrived l 0 d1 st1) st1"
    using rounds_route[OF rt, of 0] quietD(1)[OF q1 assms(2)] unfolding arrived_router(2) prod.collapse by blast
  from rounds_trans[OF r1 this] show thesis using that[OF x(1) _ _ q1, of "Suc n + Suc 0"] x(2) by simp
qed

end
