(* ===== verification/Simulator_Run.thy ===== *)
theory Simulator_Run
  imports Simulator_Rounds TCP_Adapter
begin

text \<open>
  The network simulator succeeds: the tests of \<^verbatim>\<open>network_simulator\<close> pass one after the other on the network
  that the constructor builds, and \<open>main\<close> returns zero.
\<close>

section \<open>One test of the program\<close>

abbreviation no_expectations :: "string \<Rightarrow> IPv4Datagram list" where "no_expectations \<equiv> (\<lambda>_. [])"

lemma idle_arrived:
  assumes "quiet A st" "l \<in> set sim_links" "m \<in> set sim_links"
  shows "idle_link (arrived l k d st) m"
proof (cases "m = l")
  case True
  have "frames_out a = []" if "a \<in> set ((members l st)[k := (members l st ! k)\<lparr>an_datagrams_out := [d]\<rparr>])" for a
  proof (cases "k < length (members l st)")
    case True
    then have f: "\<And>a. a \<in> set (members l st) \<Longrightarrow> frames_out a = []" "members l st ! k \<in> set (members l st)"
      using quietD(4)[OF assms(1,2)] by (auto simp: idle_link_def)
    then have "frames_out ((members l st ! k)\<lparr>an_datagrams_out := [d]\<rparr>) = []" by (simp add: frames_out_def)
    then show ?thesis using that f(1) set_update_subset_insert by fastforce
  qed (use that quietD(4)[OF assms(1,2)] in \<open>simp add: idle_link_def list_update_beyond\<close>)
  then show ?thesis using True sim_links_distinct[OF assms(2)] by (simp add: arrived_def idle_link_def)
qed (use idle_put[OF assms(1,2) _ assms(3)] in \<open>simp add: arrived_def\<close>)

lemma arrived_host:
  assumes "m < length (snd l)" "distinct (snd l)"
  shows "arrived l (Suc m) d st = (fst st, (snd st)(snd l ! m := (snd st (snd l ! m))\<lparr>an_datagrams_out := [d]\<rparr>))"
  using put_host[OF assms, of st] assms by (simp add: arrived_def members_Suc)

lemma same_wire_same: "dg_valid d \<Longrightarrow> dg_same d d' \<Longrightarrow> same_wire d d' = Inr True"
proof -
  assume v: "dg_valid d" and s: "dg_same d d'"
  then obtain c where d': "d' = \<lparr>dg_header = (dg_header d)\<lparr>ip_cksum := c\<rparr>, dg_payload = [concat (dg_payload d)]\<rparr>"
    by (auto simp: dg_same_def)
  obtain p where p: "dg_serialize d = Some p" using v dg_valid_serialize by blast
  have "length (concat (dg_payload d)) < two64"
    using v unsigned_less[of "ip_len (dg_header d)", where ?'a = nat] by (auto simp: dg_valid_def)
  then have "bvl_size (dg_payload d) = bvl_size [concat (dg_payload d)]" by (simp add: bvl_size_eq)
  then have "\<exists>q. dg_serialize d' = Some q \<and> concat q = concat p"
    using p by (auto simp: dg_serialize_def d' Let_def ip_payload_length_def split: if_splits option.splits)
  then show "same_wire d d' = Inr True" using p by (auto simp: same_wire_def)
qed

lemma same_wire_sym: "same_wire x y = Inr b \<Longrightarrow> same_wire y x = Inr b"
  by (auto simp: same_wire_def split: option.splits)

lemma ho_check_empty:
  "an_datagrams_out (h n) = [] \<Longrightarrow> ho_check (mk_host h no_expectations n ip hop) = Inr (mk_host h no_expectations n ip hop)"
  by (cases "h n") (simp add: ho_check_def mk_host_def)

lemma ho_check_one:
  assumes "dg_valid d" "dg_same d d'" "an_datagrams_out a = []"
  shows "ho_check (mk_host (h(n := a\<lparr>an_datagrams_out := [d']\<rparr>)) (no_expectations(n := [d])) n ip hop) =
    Inr (mk_host (h(n := a)) no_expectations n ip hop)"
  using same_wire_same[OF assms(1,2)] assms(3) by (cases a) (simp add: ho_check_def mk_host_def)

lemma check_hosts_all:
  "(\<And>n ip hop. (n, ip, hop) \<in> set tab \<Longrightarrow> ho_check (f n ip hop) = Inr (g n ip hop)) \<Longrightarrow>
   check_hosts (map (\<lambda>(n, ip, hop). (n, f n ip hop)) tab) = Inr (map (\<lambda>(n, ip, hop). (n, g n ip hop)) tab)"
  by (induction tab) (auto simp: sum_bind_def)

lemma quiet_host:
  assumes "quiet A st" "(n, ip, hop) \<in> set host_table"
  shows "an_datagrams_out (snd st n) = []"
proof -
  have "list_all (\<lambda>(n, _). list_ex (\<lambda>l. List.member (snd l) n) sim_links) host_table" by code_simp
  then obtain l where l: "l \<in> set sim_links" "n \<in> set (snd l)" using assms(2) by (auto simp: list_all_iff list_ex_iff)
  obtain i names r h where "l = (i, names)" "st = (r, h)" by (metis surj_pair)
  then have "snd st n \<in> set (members l st)" using l(2) by simp
  then show ?thesis using assms(1) l(1) by (auto simp: quiet_def)
qed

lemma simulate_rounds:
  assumes "rounds n st st'" "n \<le> 256" "rounds (256 - n) st' st'"
  shows "\<exists>c. simulate_loop 256 (mk_net st e, cerr) = Inr (mk_net st' e, c)"
proof -
  have "rounds 256 st st'" using rounds_trans[OF assms(1,3)] assms(2) by simp
  then obtain c where "simulate_loop (256 + 0) (mk_net st e, cerr) = simulate_loop 0 (mk_net st' e, c)" unfolding rounds_def by blast
  then show ?thesis by auto
qed

lemma mk_net_hosts: "nw_hosts (mk_net st e) = map (\<lambda>(n, ip, hop). (n, mk_host (snd st) e n ip hop)) host_table"
  "(mk_net st e)\<lparr>nw_hosts := map (\<lambda>(n, ip, hop). (n, mk_host h e' n ip hop)) host_table\<rparr> = mk_net (fst st, h) e'"
  by (simp_all add: mk_net_def)

lemma simulate_delivers:
  assumes "rounds n st (arrived l (Suc m) d' st')" "n \<le> 256" "quiet A st'" "l \<in> set sim_links" "m < length (snd l)" "dg_valid d" "dg_same d d'"
  shows "\<exists>c. nw_simulate (mk_net st (no_expectations(snd l ! m := [d])), cerr) = Inr (mk_net st' no_expectations, c)"
proof -
  let ?to = "snd l ! m" and ?e = "no_expectations(snd l ! m := [d])"
  have di: "distinct (snd l)" using sim_links_distinct[OF assms(4)] by simp
  let ?st = "arrived l (Suc m) d' st'"
  have st: "?st = (fst st', (snd st')(?to := (snd st' ?to)\<lparr>an_datagrams_out := [d']\<rparr>))" by (rule arrived_host[OF assms(5) di])
  have "drained ?st" using quietD(1)[OF assms(3,4)] by (simp add: st drained_def)
  then have "rounds (256 - n) ?st ?st" using idle_arrived[OF assms(3,4)] by (rule rounds_idle)
  from simulate_rounds[OF assms(1,2) this] obtain c where c: "simulate_loop 256 (mk_net st ?e, cerr) = Inr (mk_net ?st ?e, c)" by blast
  have "ho_check (mk_host (snd ?st) ?e n ip hop) = Inr (mk_host (snd st') no_expectations n ip hop)" if "(n, ip, hop) \<in> set host_table" for n ip hop
  proof (cases "n = ?to")
    case True
    then show ?thesis
      using ho_check_one[OF assms(6,7) quiet_host[OF assms(3) that], of "snd st'" n ip hop] st by simp
  next
    case False
    then have "mk_host (snd ?st) ?e n ip hop = mk_host (snd st') no_expectations n ip hop" by (simp add: st mk_host_def)
    then show ?thesis using ho_check_empty[of "snd st'" n ip hop] quiet_host[OF assms(3) that] by simp
  qed
  then have "check_hosts (nw_hosts (mk_net ?st ?e)) = Inr (map (\<lambda>(n, ip, hop). (n, mk_host (snd st') no_expectations n ip hop)) host_table)"
    unfolding mk_net_hosts by (rule check_hosts_all)
  then show ?thesis using c by (simp add: nw_simulate_def sum_bind_def mk_net_hosts(2)) (simp add: st)
qed

lemma simulate_settles:
  assumes "rounds n st st'" "n \<le> 256" "quiet A st'"
  shows "\<exists>c. nw_simulate (mk_net st no_expectations, cerr) = Inr (mk_net st' no_expectations, c)"
proof -
  have "rounds (256 - n) st' st'"
    using quietD(4)[OF assms(3)] assms(3) by (intro rounds_idle) (auto simp: quiet_def)
  from simulate_rounds[OF assms(1,2) this] obtain c where c: "simulate_loop 256 (mk_net st no_expectations, cerr) = Inr (mk_net st' no_expectations, c)" by blast
  have "check_hosts (nw_hosts (mk_net st' no_expectations)) = Inr (map (\<lambda>(n, ip, hop). (n, mk_host (snd st') no_expectations n ip hop)) host_table)"
    unfolding mk_net_hosts by (rule check_hosts_all) (rule ho_check_empty, rule quiet_host[OF assms(3)])
  then show ?thesis using c by (simp add: nw_simulate_def sum_bind_def mk_net_hosts(2))
qed

text \<open>The datagrams of the program are valid.\<close>

lemma show_base_length: "2 \<le> b \<Longrightarrow> n < b ^ Suc k \<Longrightarrow> length (show_base b n) \<le> Suc k"
proof (induction k arbitrary: n)
  case (Suc k)
  show ?case
  proof (cases "n < b")
    case False
    have "n div b < b ^ Suc k" using Suc.prems by (simp add: less_mult_imp_div_less mult.commute)
    then show ?thesis using Suc.IH[of "n div b"] Suc.prems(1) False by (simp add: show_base_large)
  qed (simp add: show_base_small)
qed (simp add: show_base_small)

lemma ho_datagram_valid: "dg_valid (ho_datagram src dst number ttl)"
proof -
  let ?p = "bytes_of_text (''random payload: {'' @ show_dec (unat number) @ ''}'')"
  have "unat number < 10 ^ Suc 9" using unsigned_less[of number, where ?'a = nat] by simp
  then have "length (show_dec (unat number)) \<le> Suc 9" unfolding show_dec_def by (rule show_base_length[rotated]) simp
  then have "length ?p \<le> 100" by (simp add: bytes_of_text_def)
  then have "unat (ucast (5 :: u8) * 4 + of_nat (length ?p) :: u16) = 20 + length ?p"
    by (simp add: unat_word_ariths unat_of_nat)
  then show ?thesis by (simp add: dg_valid_def ho_datagram_def ip_default_def ip_wf_def Let_def)
qed

lemma sim_send_step:
  assumes "numeric_names getnameinfo" "map_of host_table from = Some (ip, hop)" "destination (mk_net st e) = Inr (ad_ipv4 0 dst)"
    and "rd g = (number, g')" "sent (ho_datagram ip dst number ttl) hop (snd st from) x"
  shows "\<exists>line. sim_send rd getnameinfo from destination ttl (mk_net st e, cerr, g) =
    Inr (ho_datagram ip dst number ttl, mk_net (fst st, (snd st)(from := x)) e, cerr @ [line], g')"
proof -
  let ?h = "mk_host (snd st) e from ip hop"
  have set: "nw_set_host from (?h\<lparr>ho_interface := x\<rparr>) (mk_net st e) = mk_net (fst st, (snd st)(from := x)) e"
    by (rule mk_net_set_host[OF assms(2)]) (simp_all add: mk_host_def)
  obtain n' where n': "ni_send_datagram (ho_datagram ip dst number ttl) (ad_ipv4 0 hop) (an_interface (snd st from)) = Inr n'"
    "x = (snd st from)\<lparr>an_interface := n'\<rparr>" using assms(5) by (auto simp: sent_def)
  have "\<exists>line. ho_send_to rd getnameinfo (ad_ipv4 0 dst) ttl ?h g = Inr ((ho_datagram ip dst number ttl, line), ?h\<lparr>ho_interface := x\<rparr>, g')"
    using assms(1,4) n' by (simp add: ho_send_to_def mk_host_def ad_ip_port_numeric Let_def)
  then show ?thesis using assms(2,3) set by (auto simp: sim_send_def sum_bind_def mk_net_host)
qed

lemma sim_forward_ok:
  assumes "quiet A st" "numeric_names getnameinfo" "l \<in> set sim_links" "l2 \<in> set sim_links" "m < length (snd l)" "m2 < length (snd l2)"
    and "private_pair (A (fst l)) (link_ips (fst l)) (Suc m) 0" "private_pair (A (fst l2)) (link_ips (fst l2)) 0 (Suc m2)"
    and "map_of host_table (snd l ! m) = Some (ip, link_ips (fst l) ! 0)" "map_of host_table (snd l2 ! m2) = Some (ip2, hop2)"
    and "destination (mk_net st no_expectations) = Inr (ad_ipv4 0 dst)" "ro_best_match dst route_table None = Inr (Some b)"
    and "rt_interface_num b = fst l2" "(case rt_next_hop b of Some a \<Rightarrow> a | None \<Rightarrow> ad_ipv4 0 dst) = ad_ipv4 0 (link_ips (fst l2) ! Suc m2)"
  shows "\<exists>st' c g'. sim_forward rd getnameinfo (snd l ! m) destination (snd l2 ! m2) (mk_net st no_expectations, cerr, g) =
    Inr (mk_net st' no_expectations, c, g') \<and> quiet A st'"
proof -
  let ?from = "snd l ! m" and ?to = "snd l2 ! m2"
  obtain number g' where rd: "rd g = (number, g')" by fastforce
  let ?d = "ho_datagram ip dst number 64"
  have d: "1 < ip_ttl (dg_header ?d)" "ip_dst (dg_header ?d) = dst" by (simp_all add: ho_datagram_def Let_def)
  have bm: "ro_best_match (ip_dst (dg_header ?d)) route_table None = Inr (Some b)" using assms(12) unfolding d(2) .
  have ha: "hop_address ?d b = ad_ipv4 0 (link_ips (fst l2) ! Suc m2)" using assms(14) unfolding hop_address_def d(2) .
  have di: "distinct (snd l)" using sim_links_distinct[OF assms(3)] by simp
  obtain x n st' d' where x: "sent ?d (link_ips (fst l) ! 0) (members l st ! Suc m) x" and n: "n \<le> 6"
    and r: "rounds n (put_link l ((members l st)[Suc m := x]) st) (arrived l2 (Suc m2) d' st')" and q: "quiet A st'" and d': "dg_same (dg_hop ?d) d'"
    by (rule forward_journey[OF assms(1,3,4,7,8) ho_datagram_valid d(1) bm assms(13) ha])
  let ?st = "(fst st, (snd st)(?from := x))"
  have r': "rounds n ?st (arrived l2 (Suc m2) d' st')" using r unfolding put_host[OF assms(5) di] .
  obtain line where s: "sim_send rd getnameinfo ?from destination 64 (mk_net st no_expectations, cerr, g) =
      Inr (?d, mk_net ?st no_expectations, cerr @ [line], g')"
    using sim_send_step[where destination = destination and st = st and e = no_expectations and rd = rd and g = g, OF assms(2,9,11) rd] x assms(5) by (metis members_Suc)
  have v: "dg_valid (dg_hop ?d)" and n': "n \<le> 256" using n ho_datagram_valid by (simp_all add: dg_valid_hop)
  let ?e = "no_expectations(?to := [dg_hop ?d])"
  have "nw_set_host ?to (ho_expect (dg_hop ?d) (mk_host (snd ?st) no_expectations ?to ip2 hop2)) (mk_net ?st no_expectations) = mk_net (fst ?st, snd ?st) ?e"
    by (rule mk_net_set_host[OF assms(10)]) (simp_all add: ho_expect_def mk_host_def)
  moreover obtain c where "nw_simulate (mk_net ?st ?e, cerr @ [line]) = Inr (mk_net st' no_expectations, c)"
    using simulate_delivers[OF r' n' q assms(4,6) v d'] by blast
  ultimately have "sim_forward rd getnameinfo ?from destination ?to (mk_net st no_expectations, cerr, g) = Inr (mk_net st' no_expectations, c, g')"
    using s by (simp add: sim_forward_def sum_bind_def mk_net_host[OF assms(10)])
  then show ?thesis using q by blast
qed

lemma sim_expire_ok:
  assumes "quiet A st" "numeric_names getnameinfo" "l \<in> set sim_links" "m < length (snd l)"
    and "private_pair (A (fst l)) (link_ips (fst l)) (Suc m) 0" "map_of host_table (snd l ! m) = Some (ip, link_ips (fst l) ! 0)"
    and "destination (mk_net st no_expectations) = Inr (ad_ipv4 0 dst)" "ttl \<le> 1"
  shows "\<exists>st' c g'. sim_expire rd getnameinfo (snd l ! m) destination ttl (mk_net st no_expectations, cerr, g) =
    Inr (mk_net st' no_expectations, c, g') \<and> quiet A st'"
proof -
  let ?from = "snd l ! m"
  obtain number g' where rd: "rd g = (number, g')" by fastforce
  let ?d = "ho_datagram ip dst number ttl"
  have d: "ip_ttl (dg_header ?d) \<le> 1" using assms(8) by (simp add: ho_datagram_def Let_def)
  have di: "distinct (snd l)" using sim_links_distinct[OF assms(3)] by simp
  obtain x n st' where x: "sent ?d (link_ips (fst l) ! 0) (members l st ! Suc m) x" and n: "n \<le> 6"
    and r: "rounds n (put_link l ((members l st)[Suc m := x]) st) st'" and q: "quiet A st'"
    by (rule expire_journey[OF assms(1,3,5) ho_datagram_valid d])
  let ?st = "(fst st, (snd st)(?from := x))"
  have r': "rounds n ?st st'" using r unfolding put_host[OF assms(4) di] .
  obtain line where s: "sim_send rd getnameinfo ?from destination ttl (mk_net st no_expectations, cerr, g) =
      Inr (?d, mk_net ?st no_expectations, cerr @ [line], g')"
    using sim_send_step[where destination = destination and st = st and e = no_expectations and rd = rd and g = g, OF assms(2,6,7) rd] x assms(4) by (metis members_Suc)
  obtain c where "nw_simulate (mk_net ?st no_expectations, cerr @ [line]) = Inr (mk_net st' no_expectations, c)"
    using simulate_settles[OF r' _ q] n by (auto)
  then have "sim_expire rd getnameinfo ?from destination ttl (mk_net st no_expectations, cerr, g) = Inr (mk_net st' no_expectations, c, g')"
    using s by (simp add: sim_expire_def sum_bind_def)
  then show ?thesis using q by blast
qed

section \<open>The network of the program\<close>

lemma best_matches:
  "ro_best_match 0xC0A80002 route_table None = Inr (Some (route_table ! 3))"
  "ro_best_match 0x0A000002 route_table None = Inr (Some (route_table ! 1))"
  "ro_best_match 0x01020304 route_table None = Inr (Some (route_table ! 0))"
  "ro_best_match 0x8FC38311 route_table None = Inr (Some (route_table ! 6))"
  "ro_best_match 0x8FC3C134 route_table None = Inr (Some (route_table ! 7))"
  "ro_best_match 0x8FC3DFFF route_table None = Inr (Some (route_table ! 7))"
  "ro_best_match 0x8FC3E000 route_table None = Inr (Some (route_table ! 0))"
  "ro_best_match 0xC6B2E52B route_table None = Inr (Some (route_table ! 4))"
  by (simp_all add: route_table_def ro_mask_def)

lemma best_match_hops:
  "rt_interface_num (route_table ! 3) = 3" "rt_next_hop (route_table ! 3) = None"
  "rt_interface_num (route_table ! 1) = 1" "rt_next_hop (route_table ! 1) = None"
  "rt_interface_num (route_table ! 0) = 0" "rt_next_hop (route_table ! 0) = Some (ad_ipv4 0 0xAB434C01)"
  "rt_interface_num (route_table ! 6) = 5" "rt_next_hop (route_table ! 6) = Some (ad_ipv4 0 0x8FC30001)"
  "rt_interface_num (route_table ! 7) = 5" "rt_next_hop (route_table ! 7) = Some (ad_ipv4 0 0x8FC30001)"
  "rt_interface_num (route_table ! 4) = 4" "rt_next_hop (route_table ! 4) = None"
  by (simp_all add: route_table_def)

lemma private_pair_map:
  assumes "length macs = length ips" "distinct ips" "j < length ips" "k < length ips" "j \<noteq> k"
    and "distinct macs \<or> length ips = 2" "ETHERNET_BROADCAST \<notin> set macs"
  shows "private_pair (map_of (zip ips macs)) ips j k"
proof -
  have A: "map_of (zip ips macs) (ips ! m) = Some (macs ! m)" if "m < length ips" for m
    using that assms(1,2) by (simp add: map_of_zip_nth)
  have B: "macs ! m \<noteq> ETHERNET_BROADCAST" if "m < length ips" for m using that assms(1,7) nth_mem by metis
  have "macs ! m \<noteq> macs ! p" if "m < length ips" "m \<noteq> j" "m \<noteq> k" "p \<in> {j, k}" for m p
    using assms(1,3-6) that by (auto simp: nth_eq_iff_index_eq numeral_2_eq_2 less_Suc_eq)
  then show ?thesis using assms(2-5) A B by (auto simp: private_pair_def nth_eq_iff_index_eq)
qed

definition fresh :: "EthernetAddress \<Rightarrow> u32 \<Rightarrow> AsyncNetworkInterface" where
  "fresh mac ip = an_new (ni_new mac (ad_ipv4 0 ip))"

definition mac_of :: "AsyncNetworkInterface \<Rightarrow> EthernetAddress" where
  "mac_of a = ni_ethernet_address (an_interface a)"

definition link_map :: "interfaces \<Rightarrow> nat \<Rightarrow> u32 \<Rightarrow> EthernetAddress option" where
  "link_map st i = (case map_of sim_links i of None \<Rightarrow> (\<lambda>_. None)
     | Some names \<Rightarrow> map_of (zip (link_ips i) (map mac_of (members (i, names) st))))"

lemma link_map_eq: "l \<in> set sim_links \<Longrightarrow> link_map st (fst l) = map_of (zip (link_ips (fst l)) (map mac_of (members l st)))"
proof -
  assume l: "l \<in> set sim_links"
  have "distinct (map fst sim_links)" by code_simp
  then have "map_of sim_links (fst l) = Some (snd l)" using l by (intro map_of_is_SomeI) auto
  then show ?thesis by (simp add: link_map_def)
qed

lemma link_ips_facts: "l \<in> set sim_links \<Longrightarrow> length (link_ips (fst l)) = Suc (length (snd l)) \<and> distinct (link_ips (fst l))"
proof -
  have "list_all (\<lambda>l. length (link_ips (fst l)) = Suc (length (snd l)) \<and> distinct (link_ips (fst l))) sim_links" by code_simp
  then show "l \<in> set sim_links \<Longrightarrow> length (link_ips (fst l)) = Suc (length (snd l)) \<and> distinct (link_ips (fst l))"
    by (simp add: list_all_iff)
qed

lemma quiet_fresh:
  assumes "drained st" "\<And>l k. l \<in> set sim_links \<Longrightarrow> k < Suc (length (snd l)) \<Longrightarrow>
    \<exists>mac. length mac = 6 \<and> members l st ! k = fresh mac (link_ips (fst l) ! k)"
  shows "quiet (link_map st) st"
proof -
  have "link_at_rest (link_map st (fst l)) (link_ips (fst l)) (members l st) \<and> (\<forall>a\<in>set (members l st). an_datagrams_out a = [])"
    if l: "l \<in> set sim_links" for l
  proof -
    note L = link_ips_facts[OF l]
    have "at_rest (link_map st (fst l)) (link_ips (fst l) ! k) (an_interface (members l st ! k)) \<and> frames_out (members l st ! k) = [] \<and>
        an_datagrams_out (members l st ! k) = []" if k: "k < Suc (length (snd l))" for k
    proof -
      obtain mac where m: "length mac = 6" "members l st ! k = fresh mac (link_ips (fst l) ! k)" using assms(2)[OF l k] by blast
      have "link_map st (fst l) (link_ips (fst l) ! k) = Some (mac_of (members l st ! k))"
        using L k by (simp add: link_map_eq[OF l] map_of_zip_nth)
      then show ?thesis using m
        by (simp add: at_rest_def station_def truthful_def fresh_def an_new_def ni_new_def ni_ok_def mac_of_def frames_out_def om_find_def om_ok_def)
    qed
    then show ?thesis using L by (auto simp: link_at_rest_def in_set_conv_nth)
  qed
  then show ?thesis using assms(1) by (simp add: quiet_def)
qed

text \<open>The constructor gives such a network.\<close>

lemma random_bytes_length: "length (fst (random_bytes n rd g)) = n"
  by (induction n arbitrary: g) (auto split: prod.split, metis fst_conv)

lemma random_router_address:
  obtains mac g' where "random_router_ethernet_address rd g = (mac, g')" "length mac = 6" "mac ! 0 = 2"
proof -
  obtain bs g' where b: "random_bytes 6 rd g = (bs, g')" by fastforce
  then have "length bs = 6" using random_bytes_length[of 6 rd g] by simp
  then show thesis using b that[of "bs[0 := 0x02, 1 := 0, 2 := 0]" g'] by (simp add: random_router_ethernet_address_def)
qed

lemma random_host_address:
  obtains mac g' where "random_host_ethernet_address rd g = (mac, g')" "length mac = 6" "mac ! 0 \<noteq> 0xff"
proof -
  obtain bs g' where b: "random_bytes 6 rd g = (bs, g')" by fastforce
  then have l: "length bs = 6" using random_bytes_length[of 6 rd g] by simp
  have "(bs ! 0 OR 0x02) AND 0xfe \<noteq> (0xff :: u8)"
  proof
    assume "(bs ! 0 OR 0x02) AND 0xfe = (0xff :: u8)"
    then have "bit ((bs ! 0 OR 0x02) AND 0xfe :: u8) 0 = bit (0xff :: u8) 0" by simp
    then show False by (simp add: bit_simps)
  qed
  then show thesis using b l that[of "bs[0 := (bs ! 0 OR 0x02) AND 0xfe]" g'] by (simp add: random_host_ethernet_address_def)
qed

lemma dotted:
  "''171.67.76.46'' = inet_ntoa 0xAB434C2E" "''10.0.0.1'' = inet_ntoa 0x0A000001" "''172.16.0.1'' = inet_ntoa 0xAC100001"
  "''192.168.0.1'' = inet_ntoa 0xC0A80001" "''198.178.229.1'' = inet_ntoa 0xC6B2E501" "''143.195.0.2'' = inet_ntoa 0x8FC30002"
  "''128.30.76.255'' = inet_ntoa 0x801E4CFF" "''10.0.0.2'' = inet_ntoa 0x0A000002" "''171.67.76.1'' = inet_ntoa 0xAB434C01"
  "''192.168.0.2'' = inet_ntoa 0xC0A80002" "''143.195.0.1'' = inet_ntoa 0x8FC30001" "''198.178.229.42'' = inet_ntoa 0xC6B2E52A"
  "''198.178.229.43'' = inet_ntoa 0xC6B2E52B" "''0.0.0.0'' = inet_ntoa 0" "''10.0.0.0'' = inet_ntoa 0x0A000000"
  "''172.16.0.0'' = inet_ntoa 0xAC100000" "''192.168.0.0'' = inet_ntoa 0xC0A80000" "''198.178.229.0'' = inet_ntoa 0xC6B2E500"
  "''143.195.0.0'' = inet_ntoa 0x8FC30000" "''143.195.128.0'' = inet_ntoa 0x8FC38000" "''143.195.192.0'' = inet_ntoa 0x8FC3C000"
  "''128.30.0.1'' = inet_ntoa 0x801E0001" "''1.2.3.4'' = inet_ntoa 0x01020304" "''143.195.131.17'' = inet_ntoa 0x8FC38311"
  "''143.195.193.52'' = inet_ntoa 0x8FC3C134" "''143.195.223.255'' = inet_ntoa 0x8FC3DFFF" "''143.195.224.0'' = inet_ntoa 0x8FC3E000"
  by code_simp+

lemma sim_address_numeric: "numeric_resolver getaddrinfo \<Longrightarrow> sim_address getaddrinfo (inet_ntoa ip) = Inr (ad_ipv4 0 ip)"
  by (simp add: sim_address_def ad_new_port_numeric)

lemma add_interface:
  assumes "numeric_resolver getaddrinfo"
  obtains mac g' where "length mac = 6" "mac ! 0 = 2" "\<forall>ip. sim_add_interface rd getaddrinfo (inet_ntoa ip) (ro, g) =
    Inr (length (ro_interfaces ro), ro\<lparr>ro_interfaces := ro_interfaces ro @ [fresh mac ip]\<rparr>, g')"
proof -
  obtain mac g' where m: "random_router_ethernet_address rd g = (mac, g')" "length mac = 6" "mac ! 0 = 2" by (rule random_router_address)
  then have "sim_add_interface rd getaddrinfo (inet_ntoa ip) (ro, g) =
    Inr (length (ro_interfaces ro), ro\<lparr>ro_interfaces := ro_interfaces ro @ [fresh mac ip]\<rparr>, g')" for ip
    using assms by (simp add: sim_add_interface_def sim_address_numeric ro_add_interface_def fresh_def Let_def)
  then show thesis using that m by blast
qed

definition router_ips :: "u32 list" where
  "router_ips = [0xAB434C2E, 0x0A000001, 0xAC100001, 0xC0A80001, 0xC6B2E501, 0x8FC30002, 0x801E4CFF]"

lemma nw_interfaces_ok:
  assumes "numeric_resolver getaddrinfo"
  obtains r g' where "nw_interfaces rd getaddrinfo g = Inr ((mk_net (r, h) e)\<lparr>nw_hosts := [], nw_router := \<lparr>ro_routes = [], ro_interfaces = map r [0..<7]\<rparr>\<rparr>, g')"
    "\<And>i. i < 7 \<Longrightarrow> \<exists>mac. length mac = 6 \<and> mac ! 0 \<noteq> 0xff \<and> r i = fresh mac (router_ips ! i)"
proof -
  note add = add_interface[OF assms, where rd = rd]
  obtain m0 g0 where 0: "length m0 = 6" "m0 ! 0 = 2" "\<forall>ip. sim_add_interface rd getaddrinfo (inet_ntoa ip) (ro_new, g) =
    Inr (length (ro_interfaces ro_new), ro_new\<lparr>ro_interfaces := ro_interfaces ro_new @ [fresh m0 ip]\<rparr>, g0)" by (rule add[where ro = "ro_new" and g = g])
  let ?r0 = "\<lparr>ro_routes = [], ro_interfaces = [fresh m0 0xAB434C2E]\<rparr>"
  obtain m1 g1 where 1: "length m1 = 6" "m1 ! 0 = 2" "\<forall>ip. sim_add_interface rd getaddrinfo (inet_ntoa ip) (?r0, g0) =
    Inr (length (ro_interfaces ?r0), ?r0\<lparr>ro_interfaces := ro_interfaces ?r0 @ [fresh m1 ip]\<rparr>, g1)" by (rule add[where ro = "?r0" and g = g0])
  let ?r1 = "?r0\<lparr>ro_interfaces := ro_interfaces ?r0 @ [fresh m1 0x0A000001]\<rparr>"
  obtain m2 g2 where 2: "length m2 = 6" "m2 ! 0 = 2" "\<forall>ip. sim_add_interface rd getaddrinfo (inet_ntoa ip) (?r1, g1) =
    Inr (length (ro_interfaces ?r1), ?r1\<lparr>ro_interfaces := ro_interfaces ?r1 @ [fresh m2 ip]\<rparr>, g2)" by (rule add[where ro = "?r1" and g = g1])
  let ?r2 = "?r1\<lparr>ro_interfaces := ro_interfaces ?r1 @ [fresh m2 0xAC100001]\<rparr>"
  obtain m3 g3 where 3: "length m3 = 6" "m3 ! 0 = 2" "\<forall>ip. sim_add_interface rd getaddrinfo (inet_ntoa ip) (?r2, g2) =
    Inr (length (ro_interfaces ?r2), ?r2\<lparr>ro_interfaces := ro_interfaces ?r2 @ [fresh m3 ip]\<rparr>, g3)" by (rule add[where ro = "?r2" and g = g2])
  let ?r3 = "?r2\<lparr>ro_interfaces := ro_interfaces ?r2 @ [fresh m3 0xC0A80001]\<rparr>"
  obtain m4 g4 where 4: "length m4 = 6" "m4 ! 0 = 2" "\<forall>ip. sim_add_interface rd getaddrinfo (inet_ntoa ip) (?r3, g3) =
    Inr (length (ro_interfaces ?r3), ?r3\<lparr>ro_interfaces := ro_interfaces ?r3 @ [fresh m4 ip]\<rparr>, g4)" by (rule add[where ro = "?r3" and g = g3])
  let ?r4 = "?r3\<lparr>ro_interfaces := ro_interfaces ?r3 @ [fresh m4 0xC6B2E501]\<rparr>"
  obtain m5 g5 where 5: "length m5 = 6" "m5 ! 0 = 2" "\<forall>ip. sim_add_interface rd getaddrinfo (inet_ntoa ip) (?r4, g4) =
    Inr (length (ro_interfaces ?r4), ?r4\<lparr>ro_interfaces := ro_interfaces ?r4 @ [fresh m5 ip]\<rparr>, g5)" by (rule add[where ro = "?r4" and g = g4])
  let ?r5 = "?r4\<lparr>ro_interfaces := ro_interfaces ?r4 @ [fresh m5 0x8FC30002]\<rparr>"
  obtain m6 g6 where 6: "length m6 = 6" "m6 ! 0 = 2" "\<forall>ip. sim_add_interface rd getaddrinfo (inet_ntoa ip) (?r5, g5) =
    Inr (length (ro_interfaces ?r5), ?r5\<lparr>ro_interfaces := ro_interfaces ?r5 @ [fresh m6 ip]\<rparr>, g6)" by (rule add[where ro = "?r5" and g = g5])
  let ?ms = "[m0, m1, m2, m3, m4, m5, m6]"
  let ?r = "\<lambda>i. fresh (?ms ! i) (router_ips ! i)"
  have l: "map ?r [0..<7] = [fresh m0 0xAB434C2E, fresh m1 0x0A000001, fresh m2 0xAC100001, fresh m3 0xC0A80001, fresh m4 0xC6B2E501,
      fresh m5 0x8FC30002, fresh m6 0x801E4CFF]" by (simp add: router_ips_def upt_rec)
  have "nw_interfaces rd getaddrinfo g = Inr ((mk_net (?r, h) e)\<lparr>nw_hosts := [], nw_router := \<lparr>ro_routes = [], ro_interfaces = map ?r [0..<7]\<rparr>\<rparr>, g6)"
    using 0(3) 1(3) 2(3) 3(3) 4(3) 5(3) 6(3) unfolding nw_interfaces_def dotted(1-7) l
    by (simp add: sum_bind_def ro_new_def mk_net_def)
  moreover have "\<exists>mac. length mac = 6 \<and> mac ! 0 \<noteq> 0xff \<and> ?r i = fresh mac (router_ips ! i)" if "i < 7" for i
  proof (intro exI conjI)
    have "?ms ! i \<in> set ?ms" using that by (intro nth_mem) simp
    then show "length (?ms ! i) = 6" "?ms ! i ! 0 \<noteq> 0xff" using 0 1 2 3 4 5 6 by auto
  qed simp
  ultimately show thesis using that by blast
qed

lemma add_host:
  assumes "sim_address getaddrinfo a = Inr (ad_ipv4 0 ip)" "sim_address getaddrinfo b = Inr (ad_ipv4 0 hop)"
    "random_host_ethernet_address rd g = (mac, g')" "map_of hosts name = None"
  shows "sim_add_host rd getaddrinfo name a b (hosts, g) =
    Inr (hosts @ [(name, mk_host (\<lambda>_. fresh mac ip) no_expectations name ip hop)], g')"
  using assms by (simp add: sim_add_host_def ho_new_def fresh_def mk_host_def)

lemma mk_host_cong: "h n = h' n \<Longrightarrow> mk_host h e n ip hop = mk_host h' e n ip hop"
  by (simp add: mk_host_def)

lemma nw_add_hosts_ok:
  assumes "numeric_resolver getaddrinfo" "sim_address getaddrinfo ''0'' = Inr (ad_ipv4 0 0)"
  obtains h g' where "nw_add_hosts rd getaddrinfo g = Inr (map (\<lambda>(n, ip, hop). (n, mk_host h no_expectations n ip hop)) host_table, g')"
    "\<forall>(n, ip, hop)\<in>set host_table. \<exists>mac. length mac = 6 \<and> mac ! 0 \<noteq> 0xff \<and> h n = fresh mac ip"
proof -
  note num = sim_address_numeric[OF assms(1)]
  obtain m0 g0 where 0: "length m0 = 6" "m0 ! 0 \<noteq> 0xff" "random_host_ethernet_address rd g = (m0, g0)" by (rule random_host_address)
  obtain m1 g1 where 1: "length m1 = 6" "m1 ! 0 \<noteq> 0xff" "random_host_ethernet_address rd g0 = (m1, g1)" by (rule random_host_address)
  obtain m2 g2 where 2: "length m2 = 6" "m2 ! 0 \<noteq> 0xff" "random_host_ethernet_address rd g1 = (m2, g2)" by (rule random_host_address)
  obtain m3 g3 where 3: "length m3 = 6" "m3 ! 0 \<noteq> 0xff" "random_host_ethernet_address rd g2 = (m3, g3)" by (rule random_host_address)
  obtain m4 g4 where 4: "length m4 = 6" "m4 ! 0 \<noteq> 0xff" "random_host_ethernet_address rd g3 = (m4, g4)" by (rule random_host_address)
  obtain m5 g5 where 5: "length m5 = 6" "m5 ! 0 \<noteq> 0xff" "random_host_ethernet_address rd g4 = (m5, g5)" by (rule random_host_address)
  define h where "h = (\<lambda>n. fresh (the (map_of (zip (map fst host_table) [m0, m1, m2, m3, m4, m5]) n)) (fst (the (map_of host_table n))))"
  let ?host = "\<lambda>mac n ip hop. (n, mk_host (\<lambda>_. fresh mac ip) no_expectations n ip hop)"
  have h: "h ''applesauce'' = fresh m0 0x0A000002" "h ''default_router'' = fresh m1 0xAB434C01" "h ''cherrypie'' = fresh m2 0xC0A80002"
    "h ''hs_router'' = fresh m3 0x8FC30001" "h ''dm42'' = fresh m4 0xC6B2E52A" "h ''dm43'' = fresh m5 0xC6B2E52B"
    by (simp_all add: h_def host_table_def)
  have e: "\<exists>mac. length mac = 6 \<and> mac ! 0 \<noteq> 0xff \<and> h ''applesauce'' = fresh mac 0x0A000002"
    "\<exists>mac. length mac = 6 \<and> mac ! 0 \<noteq> 0xff \<and> h ''default_router'' = fresh mac 0xAB434C01"
    "\<exists>mac. length mac = 6 \<and> mac ! 0 \<noteq> 0xff \<and> h ''cherrypie'' = fresh mac 0xC0A80002"
    "\<exists>mac. length mac = 6 \<and> mac ! 0 \<noteq> 0xff \<and> h ''hs_router'' = fresh mac 0x8FC30001"
    "\<exists>mac. length mac = 6 \<and> mac ! 0 \<noteq> 0xff \<and> h ''dm42'' = fresh mac 0xC6B2E52A"
    "\<exists>mac. length mac = 6 \<and> mac ! 0 \<noteq> 0xff \<and> h ''dm43'' = fresh mac 0xC6B2E52B"
    unfolding h using 0(1,2) 1(1,2) 2(1,2) 3(1,2) 4(1,2) 5(1,2) by blast+
  have "nw_add_hosts rd getaddrinfo g = Inr ([?host m0 ''applesauce'' 0x0A000002 0x0A000001, ?host m1 ''default_router'' 0xAB434C01 0,
      ?host m2 ''cherrypie'' 0xC0A80002 0xC0A80001, ?host m3 ''hs_router'' 0x8FC30001 0, ?host m4 ''dm42'' 0xC6B2E52A 0xC6B2E501,
      ?host m5 ''dm43'' 0xC6B2E52B 0xC6B2E501], g5)"
    unfolding nw_add_hosts_def dotted(2,4,5,8-13)
    using 0(3) 1(3) 2(3) 3(3) 4(3) 5(3) by (simp add: sum_bind_def add_host[OF num num] add_host[OF num assms(2)])
  also have "[?host m0 ''applesauce'' 0x0A000002 0x0A000001, ?host m1 ''default_router'' 0xAB434C01 0,
      ?host m2 ''cherrypie'' 0xC0A80002 0xC0A80001, ?host m3 ''hs_router'' 0x8FC30001 0, ?host m4 ''dm42'' 0xC6B2E52A 0xC6B2E501,
      ?host m5 ''dm43'' 0xC6B2E52B 0xC6B2E501] = map (\<lambda>(n, ip, hop). (n, mk_host h no_expectations n ip hop)) host_table"
    unfolding host_table_def by (simp only: list.map prod.case h mk_host_def)
  finally have "nw_add_hosts rd getaddrinfo g = Inr (map (\<lambda>(n, ip, hop). (n, mk_host h no_expectations n ip hop)) host_table, g5)" .
  moreover have "\<forall>(n, ip, hop)\<in>set host_table. \<exists>mac. length mac = 6 \<and> mac ! 0 \<noteq> 0xff \<and> h n = fresh mac ip"
    unfolding host_table_def using e by (simp only: list.set ball_simps prod.case simp_thms)
  ultimately show thesis by (rule that)
qed

definition with_routes :: "Route list \<Rightarrow> interfaces \<Rightarrow> Network" where
  "with_routes rs st = (mk_net st no_expectations)\<lparr>nw_router := \<lparr>ro_routes = rs, ro_interfaces = map (fst st) [0..<7]\<rparr>\<rparr>"

lemma add_route:
  assumes "numeric_resolver getaddrinfo" "hop (with_routes rs st) = Inr a"
  shows "sim_add_route getaddrinfo (inet_ntoa p) len hop i (with_routes rs st) =
    Inr (with_routes (rs @ [\<lparr>rt_route_prefix = p, rt_prefix_length = len, rt_next_hop = a, rt_interface_num = i (with_routes rs st)\<rparr>]) st)"
  using assms by (simp add: sim_add_route_def sim_ip_def sim_address_numeric ro_add_route_def) (simp add: with_routes_def)

lemma with_routes_hops:
  "attached (with_routes rs st) = Inr None"
  "map_of host_table name = Some (ip, hop) \<Longrightarrow> via_host name (with_routes rs st) = Inr (Some (ad_ipv4 0 ip))"
  "numeric_resolver getaddrinfo \<Longrightarrow> via_address getaddrinfo (inet_ntoa ip) (with_routes rs st) = Inr (Some (ad_ipv4 0 ip))"
proof -
  have "nw_host name (with_routes rs st) = nw_host name (mk_net st no_expectations)" by (simp add: nw_host_def with_routes_def)
  then show "map_of host_table name = Some (ip, hop) \<Longrightarrow> via_host name (with_routes rs st) = Inr (Some (ad_ipv4 0 ip))"
    by (simp add: via_host_def mk_net_host) (simp add: mk_host_def)
qed (simp_all add: attached_def via_address_def sim_address_numeric)

lemma with_routes_ids: "nw_default_id (with_routes rs st) = 0" "nw_eth0_id (with_routes rs st) = 1" "nw_eth1_id (with_routes rs st) = 2"
  "nw_eth2_id (with_routes rs st) = 3" "nw_uun3_id (with_routes rs st) = 4" "nw_hs4_id (with_routes rs st) = 5" "nw_mit5_id (with_routes rs st) = 6"
  by (simp_all add: with_routes_def mk_net_def)

lemma nw_add_routes_ok:
  assumes "numeric_resolver getaddrinfo"
  shows "nw_add_routes getaddrinfo (with_routes [] st) = Inr (mk_net st no_expectations)"
proof -
  note add = add_route[OF assms, where st = st]
  have "nw_add_routes getaddrinfo (with_routes [] st) = Inr (with_routes route_table st)"
    unfolding nw_add_routes_def dotted(7,15-22) unfolding dotted(14)
    by (simp add: sum_bind_def add[where hop = attached, OF with_routes_hops(1)]
        add[where hop = "via_host ''default_router''", OF with_routes_hops(2)[OF host_table_simps(1)]]
        add[where hop = "via_host ''hs_router''", OF with_routes_hops(2)[OF host_table_simps(4)]]
        add[where hop = "via_address getaddrinfo (inet_ntoa 0x801E0001)", OF with_routes_hops(3)[OF assms]] with_routes_ids route_table_def)
  then show ?thesis by (simp add: with_routes_def mk_net_def mk_router_def)
qed

lemma link_members_fresh:
  assumes "\<And>i. i < 7 \<Longrightarrow> \<exists>mac. length mac = 6 \<and> mac ! 0 \<noteq> 0xff \<and> r i = fresh mac (router_ips ! i)"
    and "\<forall>(n, ip, hop)\<in>set host_table. \<exists>mac. length mac = 6 \<and> mac ! 0 \<noteq> 0xff \<and> h n = fresh mac ip"
    and "l \<in> set sim_links" "k < Suc (length (snd l))"
  shows "\<exists>mac. length mac = 6 \<and> mac ! 0 \<noteq> 0xff \<and> members l (r, h) ! k = fresh mac (link_ips (fst l) ! k)"
proof (cases k)
  case 0
  have "list_all (\<lambda>l. fst l < 7 \<and> router_ips ! fst l = link_ips (fst l) ! 0) sim_links" by code_simp
  then show ?thesis using assms(1)[of "fst l"] assms(3) 0 by (auto simp: list_all_iff members_0)
next
  case (Suc m)
  have "list_all (\<lambda>l. list_all (\<lambda>(n, ip). \<exists>hop \<in> set (map (snd \<circ> snd) host_table). List.member host_table (n, ip, hop)) (zip (snd l) (tl (link_ips (fst l))))) sim_links"
    by code_simp
  then have "\<forall>(n, ip)\<in>set (zip (snd l) (tl (link_ips (fst l)))). \<exists>hop. (n, ip, hop) \<in> set host_table"
    using assms(3) by (fastforce simp: list_all_iff)
  moreover have "(snd l ! m, tl (link_ips (fst l)) ! m) \<in> set (zip (snd l) (tl (link_ips (fst l))))"
    using assms(4) Suc link_ips_facts[OF assms(3)] by (auto simp: set_zip intro!: exI[of _ m])
  ultimately obtain hop where "(snd l ! m, link_ips (fst l) ! Suc m, hop) \<in> set host_table"
    using link_ips_facts[OF assms(3)] assms(4) Suc by (fastforce simp: nth_tl)
  then show ?thesis using assms(2,4) Suc members_Suc[of m l "(r, h)"] by fastforce
qed

lemma nw_new_ok:
  assumes "numeric_resolver getaddrinfo" "sim_address getaddrinfo ''0'' = Inr (ad_ipv4 0 0)"
  obtains st g' where "nw_new rd getaddrinfo g = Inr (mk_net st no_expectations, g')" "quiet (link_map st) st"
    "\<forall>l\<in>set sim_links. ETHERNET_BROADCAST \<notin> mac_of ` set (members l st)"
proof -
  obtain r g1 where r: "nw_interfaces rd getaddrinfo g = Inr ((mk_net (r, \<lambda>_. undefined) no_expectations)\<lparr>nw_hosts := [], nw_router := \<lparr>ro_routes = [], ro_interfaces = map r [0..<7]\<rparr>\<rparr>, g1)"
    "\<And>i. i < 7 \<Longrightarrow> \<exists>mac. length mac = 6 \<and> mac ! 0 \<noteq> 0xff \<and> r i = fresh mac (router_ips ! i)"
    using nw_interfaces_ok[OF assms(1)] by metis
  obtain h' g2 where h: "nw_add_hosts rd getaddrinfo g1 = Inr (map (\<lambda>(n, ip, hop). (n, mk_host h' no_expectations n ip hop)) host_table, g2)"
    "\<forall>(n, ip, hop)\<in>set host_table. \<exists>mac. length mac = 6 \<and> mac ! 0 \<noteq> 0xff \<and> h' n = fresh mac ip"
    by (rule nw_add_hosts_ok[OF assms])
  let ?st = "(r, h')"
  have "(mk_net (r, \<lambda>_. undefined) no_expectations)\<lparr>nw_hosts := [], nw_router := \<lparr>ro_routes = [], ro_interfaces = map r [0..<7]\<rparr>, nw_hosts := map (\<lambda>(n, ip, hop). (n, mk_host h' no_expectations n ip hop)) host_table\<rparr> = with_routes [] ?st"
    by (simp add: with_routes_def mk_net_def)
  then have new: "nw_new rd getaddrinfo g = Inr (mk_net ?st no_expectations, g2)"
    using r(1) h(1) nw_add_routes_ok[OF assms(1), of ?st] by (simp add: nw_new_def sum_bind_def)
  have F: "\<exists>mac. length mac = 6 \<and> mac ! 0 \<noteq> 0xff \<and> members l ?st ! k = fresh mac (link_ips (fst l) ! k)"
    if "l \<in> set sim_links" "k < Suc (length (snd l))" for l k
    by (rule link_members_fresh[OF _ h(2) that]) (rule r(2))
  have "drained ?st" using r(2) by (fastforce simp: drained_def fresh_def an_new_def)
  then have q: "quiet (link_map ?st) ?st" using F by (intro quiet_fresh) blast+
  have "ETHERNET_BROADCAST \<notin> mac_of ` set (members l ?st)" if l: "l \<in> set sim_links" for l
  proof
    assume "ETHERNET_BROADCAST \<in> mac_of ` set (members l ?st)"
    then obtain k where k: "k < Suc (length (snd l))" "ETHERNET_BROADCAST = mac_of (members l ?st ! k)" by (auto simp: in_set_conv_nth)
    obtain mac where "mac ! 0 \<noteq> 0xff" "members l ?st ! k = fresh mac (link_ips (fst l) ! k)" using F[OF l k(1)] by blast
    then have "ETHERNET_BROADCAST ! 0 \<noteq> 0xff" using k(2) by (simp add: mac_of_def fresh_def an_new_def ni_new_def)
    then show False by (simp add: ETHERNET_BROADCAST_def)
  qed
  then show thesis using that new q by blast
qed

section \<open>The whole program\<close>

definition passes :: "(nat \<Rightarrow> u32 \<Rightarrow> EthernetAddress option) \<Rightarrow>
    (Network \<times> string list \<times> 'g \<Rightarrow> sim_error + Network \<times> string list \<times> 'g) \<Rightarrow> bool" where
  "passes A f \<longleftrightarrow> (\<forall>st c g. quiet A st \<longrightarrow>
     (\<exists>st' c' g'. f (mk_net st no_expectations, c, g) = Inr (mk_net st' no_expectations, c', g') \<and> quiet A st'))"

lemma passes_bind: "passes A f \<Longrightarrow> passes A k \<Longrightarrow> passes A (\<lambda>x. sum_bind (f x) k)"
  unfolding passes_def sum_bind_def by (metis sum.simps(6))

lemma passes_forward:
  assumes "numeric_names getnameinfo" "l \<in> set sim_links" "l2 \<in> set sim_links" "m < length (snd l)" "m2 < length (snd l2)"
    and "private_pair (A (fst l)) (link_ips (fst l)) (Suc m) 0" "private_pair (A (fst l2)) (link_ips (fst l2)) 0 (Suc m2)"
    and "map_of host_table (snd l ! m) = Some (ip, link_ips (fst l) ! 0)" "map_of host_table (snd l2 ! m2) = Some (ip2, hop2)"
    and "\<And>st. destination (mk_net st no_expectations) = Inr (ad_ipv4 0 dst)" "ro_best_match dst route_table None = Inr (Some b)"
    and "rt_interface_num b = fst l2" "(case rt_next_hop b of Some a \<Rightarrow> a | None \<Rightarrow> ad_ipv4 0 dst) = ad_ipv4 0 (link_ips (fst l2) ! Suc m2)"
  shows "passes A (sim_forward rd getnameinfo (snd l ! m) destination (snd l2 ! m2))"
  unfolding passes_def
proof (intro allI impI)
  fix st c g assume q: "quiet A st"
  from assms show "\<exists>st' c' g'. sim_forward rd getnameinfo (snd l ! m) destination (snd l2 ! m2) (mk_net st no_expectations, c, g) =
      Inr (mk_net st' no_expectations, c', g') \<and> quiet A st'"
    by (rule sim_forward_ok[where A = A and destination = destination, OF q])
qed

lemma passes_expire:
  assumes "numeric_names getnameinfo" "l \<in> set sim_links" "m < length (snd l)"
    and "private_pair (A (fst l)) (link_ips (fst l)) (Suc m) 0" "map_of host_table (snd l ! m) = Some (ip, link_ips (fst l) ! 0)"
    and "\<And>st. destination (mk_net st no_expectations) = Inr (ad_ipv4 0 dst)" "ttl \<le> 1"
  shows "passes A (sim_expire rd getnameinfo (snd l ! m) destination ttl)"
  unfolding passes_def
proof (intro allI impI)
  fix st c g assume q: "quiet A st"
  from assms show "\<exists>st' c' g'. sim_expire rd getnameinfo (snd l ! m) destination ttl (mk_net st no_expectations, c, g) =
      Inr (mk_net st' no_expectations, c', g') \<and> quiet A st'"
    by (rule sim_expire_ok[where A = A and destination = destination, OF q])
qed

lemma to_host_eq: "map_of host_table name = Some (ip, hop) \<Longrightarrow> to_host name (mk_net st e) = Inr (ad_ipv4 0 ip)"
  by (simp add: to_host_def mk_net_host sum_bind_def) (simp add: mk_host_def)

lemma to_address_eq: "numeric_resolver getaddrinfo \<Longrightarrow> to_address getaddrinfo (inet_ntoa ip) nw = Inr (ad_ipv4 0 ip)"
  by (simp add: to_address_def sim_address_numeric)

lemma link_ips_simps: "link_ips 0 = [0xAB434C2E, 0xAB434C01]" "link_ips 1 = [0x0A000001, 0x0A000002]" "link_ips 3 = [0xC0A80001, 0xC0A80002]"
  "link_ips 5 = [0x8FC30002, 0x8FC30001]" "link_ips 4 = [0xC6B2E501, 0xC6B2E52A, 0xC6B2E52B]"
  by (simp_all add: link_ips_def)

lemma tests_pass:
  assumes "numeric_names getnameinfo" "numeric_resolver getaddrinfo"
    and "\<And>l j k. l \<in> set sim_links \<Longrightarrow> j < Suc (length (snd l)) \<Longrightarrow> k < Suc (length (snd l)) \<Longrightarrow> j \<noteq> k \<Longrightarrow> private_pair (A (fst l)) (link_ips (fst l)) j k"
  shows "passes A (sim_forward rd getnameinfo ''applesauce'' (to_host ''cherrypie'') ''cherrypie'')"
    "passes A (sim_forward rd getnameinfo ''cherrypie'' (to_host ''applesauce'') ''applesauce'')"
    "passes A (sim_forward rd getnameinfo ''applesauce'' (to_address getaddrinfo (inet_ntoa 0x01020304)) ''default_router'')"
    "passes A (sim_forward rd getnameinfo ''applesauce'' (to_address getaddrinfo (inet_ntoa 0x8FC38311)) ''hs_router'')"
    "passes A (sim_forward rd getnameinfo ''cherrypie'' (to_address getaddrinfo (inet_ntoa 0x8FC3C134)) ''hs_router'')"
    "passes A (sim_forward rd getnameinfo ''cherrypie'' (to_address getaddrinfo (inet_ntoa 0x8FC3DFFF)) ''hs_router'')"
    "passes A (sim_forward rd getnameinfo ''cherrypie'' (to_address getaddrinfo (inet_ntoa 0x8FC3E000)) ''default_router'')"
    "passes A (sim_forward rd getnameinfo ''dm42'' (to_host ''dm43'') ''dm43'')"
    "passes A (sim_expire rd getnameinfo ''applesauce'' (to_address getaddrinfo (inet_ntoa 0x01020304)) 1)"
    "passes A (sim_expire rd getnameinfo ''applesauce'' (to_address getaddrinfo (inet_ntoa 0x01020304)) 0)"
proof -
  note P = assms(3)[OF sim_link_in(1)] assms(3)[OF sim_link_in(2)] assms(3)[OF sim_link_in(3)] assms(3)[OF sim_link_in(4)] assms(3)[OF sim_link_in(5)]
  note S = sim_link_in host_table_simps link_ips_simps best_matches best_match_hops to_host_eq[OF host_table_simps(2)] to_host_eq[OF host_table_simps(3)]
    to_host_eq[OF host_table_simps(6)] to_address_eq[OF assms(2)]
    show "passes A (sim_forward rd getnameinfo ''applesauce'' (to_host ''cherrypie'') ''cherrypie'')"
      using passes_forward[where l = "(1, [''applesauce''])" and ?l2.0 = "(3, [''cherrypie''])" and m = 0 and ?m2.0 = 0 and A = A and destination = "to_host ''cherrypie''" and dst = "0xC0A80002" and ip = "0x0A000002" and ?ip2.0 = "0xC0A80002" and ?hop2.0 = "0xC0A80001" and b = "route_table ! 3"] assms(1) S P by simp
    show "passes A (sim_forward rd getnameinfo ''cherrypie'' (to_host ''applesauce'') ''applesauce'')"
      using passes_forward[where l = "(3, [''cherrypie''])" and ?l2.0 = "(1, [''applesauce''])" and m = 0 and ?m2.0 = 0 and A = A and destination = "to_host ''applesauce''" and dst = "0x0A000002" and ip = "0xC0A80002" and ?ip2.0 = "0x0A000002" and ?hop2.0 = "0x0A000001" and b = "route_table ! 1"] assms(1) S P by simp
    show "passes A (sim_forward rd getnameinfo ''applesauce'' (to_address getaddrinfo (inet_ntoa 0x01020304)) ''default_router'')"
      using passes_forward[where l = "(1, [''applesauce''])" and ?l2.0 = "(0, [''default_router''])" and m = 0 and ?m2.0 = 0 and A = A and destination = "to_address getaddrinfo (inet_ntoa 0x01020304)" and dst = "0x01020304" and ip = "0x0A000002" and ?ip2.0 = "0xAB434C01" and ?hop2.0 = "0" and b = "route_table ! 0"] assms(1) S P by simp
    show "passes A (sim_forward rd getnameinfo ''applesauce'' (to_address getaddrinfo (inet_ntoa 0x8FC38311)) ''hs_router'')"
      using passes_forward[where l = "(1, [''applesauce''])" and ?l2.0 = "(5, [''hs_router''])" and m = 0 and ?m2.0 = 0 and A = A and destination = "to_address getaddrinfo (inet_ntoa 0x8FC38311)" and dst = "0x8FC38311" and ip = "0x0A000002" and ?ip2.0 = "0x8FC30001" and ?hop2.0 = "0" and b = "route_table ! 6"] assms(1) S P by simp
    show "passes A (sim_forward rd getnameinfo ''cherrypie'' (to_address getaddrinfo (inet_ntoa 0x8FC3C134)) ''hs_router'')"
      using passes_forward[where l = "(3, [''cherrypie''])" and ?l2.0 = "(5, [''hs_router''])" and m = 0 and ?m2.0 = 0 and A = A and destination = "to_address getaddrinfo (inet_ntoa 0x8FC3C134)" and dst = "0x8FC3C134" and ip = "0xC0A80002" and ?ip2.0 = "0x8FC30001" and ?hop2.0 = "0" and b = "route_table ! 7"] assms(1) S P by simp
    show "passes A (sim_forward rd getnameinfo ''cherrypie'' (to_address getaddrinfo (inet_ntoa 0x8FC3DFFF)) ''hs_router'')"
      using passes_forward[where l = "(3, [''cherrypie''])" and ?l2.0 = "(5, [''hs_router''])" and m = 0 and ?m2.0 = 0 and A = A and destination = "to_address getaddrinfo (inet_ntoa 0x8FC3DFFF)" and dst = "0x8FC3DFFF" and ip = "0xC0A80002" and ?ip2.0 = "0x8FC30001" and ?hop2.0 = "0" and b = "route_table ! 7"] assms(1) S P by simp
    show "passes A (sim_forward rd getnameinfo ''cherrypie'' (to_address getaddrinfo (inet_ntoa 0x8FC3E000)) ''default_router'')"
      using passes_forward[where l = "(3, [''cherrypie''])" and ?l2.0 = "(0, [''default_router''])" and m = 0 and ?m2.0 = 0 and A = A and destination = "to_address getaddrinfo (inet_ntoa 0x8FC3E000)" and dst = "0x8FC3E000" and ip = "0xC0A80002" and ?ip2.0 = "0xAB434C01" and ?hop2.0 = "0" and b = "route_table ! 0"] assms(1) S P by simp
    show "passes A (sim_forward rd getnameinfo ''dm42'' (to_host ''dm43'') ''dm43'')"
      using passes_forward[where l = "(4, [''dm42'', ''dm43''])" and ?l2.0 = "(4, [''dm42'', ''dm43''])" and m = 0 and ?m2.0 = 1 and A = A and destination = "to_host ''dm43''" and dst = "0xC6B2E52B" and ip = "0xC6B2E52A" and ?ip2.0 = "0xC6B2E52B" and ?hop2.0 = "0xC6B2E501" and b = "route_table ! 4"] assms(1) S P by simp
    show "passes A (sim_expire rd getnameinfo ''applesauce'' (to_address getaddrinfo (inet_ntoa 0x01020304)) 1)"
      using passes_expire[where l = "(1, [''applesauce''])" and m = 0 and A = A and destination = "to_address getaddrinfo (inet_ntoa 0x01020304)" and dst = "0x01020304" and ip = "0x0A000002" and ttl = 1] assms(1) S P by simp
    show "passes A (sim_expire rd getnameinfo ''applesauce'' (to_address getaddrinfo (inet_ntoa 0x01020304)) 0)"
      using passes_expire[where l = "(1, [''applesauce''])" and m = 0 and A = A and destination = "to_address getaddrinfo (inet_ntoa 0x01020304)" and dst = "0x01020304" and ip = "0x0A000002" and ttl = 0] assms(1) S P by simp
qed

text \<open>What \<^verbatim>\<open>inet_aton(3)\<close> documents for an address of one part, here zero.\<close>

definition single_part_resolver :: "resolver \<Rightarrow> bool" where
  "single_part_resolver getaddrinfo \<longleftrightarrow>
     (\<forall>port. getaddrinfo ''0'' (show_dec (unat port)) (make_hints (AI_NUMERICHOST + AI_NUMERICSERV) AF_INET)
        = (0, Some (sockaddr_in port 0, SOCKADDR_IN_SIZE)))"

lemma sim_address_zero: "single_part_resolver getaddrinfo \<Longrightarrow> sim_address getaddrinfo ''0'' = Inr (ad_ipv4 0 0)"
proof -
  assume "single_part_resolver getaddrinfo"
  from this[unfolded single_part_resolver_def, rule_format, of 0]
  have a: "getaddrinfo ''0'' (show_dec 0) (make_hints (AI_NUMERICHOST + AI_NUMERICSERV) AF_INET) = (0, Some (sockaddr_in 0 0, SOCKADDR_IN_SIZE))" by simp
  have "c_str ''0'' = ''0''" by (intro c_str_id) simp
  then have "ad_new_port getaddrinfo ''0'' 0 = Inr (ad_ipv4 0 0)"
    using a by (simp add: ad_new_port_def ad_resolve_def ad_of_sockaddr_in)
  then show ?thesis by (simp add: sim_address_def)
qed

text \<open>The Ethernet addresses on the link that has three stations.\<close>

definition uun3_addresses :: "Network \<Rightarrow> EthernetAddress list" where
  "uun3_addresses nw = map mac_of (ro_interfaces (nw_router nw) ! nw_uun3_id nw #
     map (\<lambda>n. case map_of (nw_hosts nw) n of None \<Rightarrow> an_new (ni_new [] (ad_ipv4 0 0)) | Some h \<Rightarrow> ho_interface h) [''dm42'', ''dm43''])"

lemma uun3_addresses_eq: "uun3_addresses (mk_net st e) = map mac_of (members (4, [''dm42'', ''dm43'']) st)"
proof -
  obtain r h where st: "st = (r, h)" by fastforce
  have "map_of (nw_hosts (mk_net st e)) ''dm42'' = Some (mk_host h e ''dm42'' 0xC6B2E52A 0xC6B2E501)"
    "map_of (nw_hosts (mk_net st e)) ''dm43'' = Some (mk_host h e ''dm43'' 0xC6B2E52B 0xC6B2E501)"
    by (simp_all add: mk_net_hosts map_of_triples host_table_simps st)
  moreover have "ro_interfaces (nw_router (mk_net st e)) ! nw_uun3_id (mk_net st e) = r 4"
    by (simp add: st mk_net_def mk_router_parts)
  ultimately show ?thesis by (simp add: uun3_addresses_def st) (simp add: mk_host_def)
qed

lemma simulator_passes:
  assumes "numeric_resolver getaddrinfo" "single_part_resolver getaddrinfo" "numeric_names getnameinfo"
    and "\<forall>nw g'. nw_new rd getaddrinfo g = Inr (nw, g') \<longrightarrow> distinct (uun3_addresses nw)"
  shows "\<exists>nw c g'. network_simulator rd getaddrinfo getnameinfo g = Inr (nw, c, g')"
proof -
  obtain st g' where new: "nw_new rd getaddrinfo g = Inr (mk_net st no_expectations, g')" and q: "quiet (link_map st) st"
    and nb: "\<forall>l\<in>set sim_links. ETHERNET_BROADCAST \<notin> mac_of ` set (members l st)"
    by (rule nw_new_ok[OF assms(1) sim_address_zero[OF assms(2)], where rd = rd and g = g])
  have d: "distinct (map mac_of (members (4, [''dm42'', ''dm43'']) st))" using assms(4) new uun3_addresses_eq by metis
  have one: "length (link_ips (fst l)) = 2 \<or> distinct (map mac_of (members l st))" if "l \<in> set sim_links" for l
    using that by (cases rule: sim_linkE) (use d in \<open>simp_all add: link_ips_simps del: members.simps One_nat_def\<close>)
  have pp: "private_pair (link_map st (fst l)) (link_ips (fst l)) j k"
    if "l \<in> set sim_links" "j < Suc (length (snd l))" "k < Suc (length (snd l))" "j \<noteq> k" for l j k
    using that link_ips_facts[OF that(1)] one[OF that(1)] nb that(1) unfolding link_map_eq[OF that(1)]
    by (intro private_pair_map) auto
  note T = tests_pass[where A = "link_map st", OF assms(3,1) pp, where rd = rd]
  have "passes (link_map st) (\<lambda>x. sum_bind (sim_forward rd getnameinfo ''applesauce'' (to_host ''cherrypie'') ''cherrypie'' x) (\<lambda>st.
     sum_bind (sim_forward rd getnameinfo ''cherrypie'' (to_host ''applesauce'') ''applesauce'' st) (\<lambda>st.
     sum_bind (sim_forward rd getnameinfo ''applesauce'' (to_address getaddrinfo ''1.2.3.4'') ''default_router'' st) (\<lambda>st.
     sum_bind (sim_forward rd getnameinfo ''applesauce'' (to_address getaddrinfo ''143.195.131.17'') ''hs_router'' st) (\<lambda>st.
     sum_bind (sim_forward rd getnameinfo ''cherrypie'' (to_address getaddrinfo ''143.195.193.52'') ''hs_router'' st) (\<lambda>st.
     sum_bind (sim_forward rd getnameinfo ''cherrypie'' (to_address getaddrinfo ''143.195.223.255'') ''hs_router'' st) (\<lambda>st.
     sum_bind (sim_forward rd getnameinfo ''cherrypie'' (to_address getaddrinfo ''143.195.224.0'') ''default_router'' st) (\<lambda>st.
     sum_bind (sim_forward rd getnameinfo ''dm42'' (to_host ''dm43'') ''dm43'' st) (\<lambda>st.
     sum_bind (sim_expire rd getnameinfo ''applesauce'' (to_address getaddrinfo ''1.2.3.4'') 1 st) (\<lambda>st.
     sim_expire rd getnameinfo ''applesauce'' (to_address getaddrinfo ''1.2.3.4'') 0 st))))))))))"
    unfolding dotted(23-27) by (intro passes_bind T)
  then show ?thesis using q new unfolding passes_def network_simulator_def by (fastforce simp: sum_bind_def[of "Inr _"])
qed

section \<open>Properties\<close>

text \<open>C27: The network simulator succeeds. With any random numbers, as long as the three stations that share a
  link get different Ethernet addresses, all ten tests pass and \<open>main\<close> returns zero: each datagram
  arrives, with its time to live decreased once, at the host that the longest matching route leads
  to and nowhere else, and datagrams whose time to live runs out arrive nowhere.\<close>

theorem simulator_succeeds:
  assumes "numeric_resolver getaddrinfo" "single_part_resolver getaddrinfo" "numeric_names getnameinfo"
    and "\<forall>nw g'. nw_new rd getaddrinfo g = Inr (nw, g') \<longrightarrow> distinct (uun3_addresses nw)"
  shows "sim_main rd getaddrinfo getnameinfo g = 0"
  using simulator_passes[OF assms] by (auto simp: sim_main_def)

definition counting :: "nat \<Rightarrow> u32 \<times> nat" where
  "counting n = (of_nat n, Suc n)"

lemma counting_distinct: "case nw_new counting example_resolver 0 of Inl _ \<Rightarrow> False | Inr (nw, _) \<Rightarrow> distinct (uun3_addresses nw)"
  by code_simp

theorem simulator_succeeds_witness: "sim_main counting example_resolver example_names 0 = 0"
proof (rule simulator_succeeds)
  show "numeric_resolver example_resolver" by (rule example_resolver_numeric)
  have "inet_aton ''0'' = 0" by code_simp
  then show "single_part_resolver example_resolver"
    using read_show_base[of 10] by (simp add: single_part_resolver_def example_resolver_def show_dec_def)
  show "numeric_names example_names" by (rule example_names_numeric)
  show "\<forall>nw g'. nw_new counting example_resolver 0 = Inr (nw, g') \<longrightarrow> distinct (uun3_addresses nw)"
    using counting_distinct by auto
qed

end
